(* ===== verification/Prelude.thy ===== *)
theory Prelude
  imports Main "HOL-Library.Word" "HOL-Library.Monad_Syntax"
begin

unbundle bit_operations_syntax

text \<open>
  What every component of the development shares: the machine types of \<open>include/types.h\<close>,
  unsigned 64-bit arithmetic on \<open>nat\<close> with the wrap-around written out, array accesses that
  fail outside the array, and the generic lemmas on lists, powers of two and options the
  component theories rewrite with.  A value \<open>None\<close> of an operation always stands for a kernel
  panic, a failed \<open>assert\<close> or an access outside an object, never for an ordinary error return.
\<close>

named_theorems w64_simps \<open>unsigned 64-bit arithmetic inside its range\<close>
named_theorems acc_simps \<open>array accesses inside the array\<close>

type_synonym byte = "8 word"
type_synonym PageNum = nat
type_synonym addr_t = nat

subsection \<open>Unsigned 64-bit arithmetic (\<open>xlen_t\<close>)\<close>

definition add64 :: "nat \<Rightarrow> nat \<Rightarrow> nat" where
  "add64 a b = (a + b) mod 2 ^ 64"

definition sub64 :: "nat \<Rightarrow> nat \<Rightarrow> nat" where
  "sub64 a b = (a + 2 ^ 64 - b) mod 2 ^ 64"

subsection \<open>Array accesses and assertions\<close>

definition rd :: "'a list \<Rightarrow> nat \<Rightarrow> 'a option" where
  "rd xs i = (if i < length xs then Some (xs ! i) else None)"

definition wr :: "'a list \<Rightarrow> nat \<Rightarrow> 'a \<Rightarrow> 'a list option" where
  "wr xs i v = (if i < length xs then Some (xs[i := v]) else None)"

definition ensure :: "bool \<Rightarrow> unit option" where
  "ensure P = (if P then Some () else None)"

subsection \<open>Lemmas\<close>

lemma add64_in_range [w64_simps]: "a + b < 2 ^ 64 \<Longrightarrow> add64 a b = a + b"
  by (simp add: add64_def)

lemma sub64_in_range [w64_simps]: "b \<le> a \<Longrightarrow> a < 2 ^ 64 \<Longrightarrow> sub64 a b = a - b"
  by (simp add: sub64_def mod_if)

lemma add64_lt [simp]: "add64 a b < 2 ^ 64"
  by (simp add: add64_def)

lemma sub64_lt [simp]: "sub64 a b < 2 ^ 64"
  by (simp add: sub64_def)

lemma rd_in [acc_simps]: "i < length xs \<Longrightarrow> rd xs i = Some (xs ! i)"
  by (simp add: rd_def)

lemma wr_in [acc_simps]: "i < length xs \<Longrightarrow> wr xs i v = Some (xs[i := v])"
  by (simp add: wr_def)

lemma rd_eq_Some_iff: "rd xs i = Some v \<longleftrightarrow> i < length xs \<and> v = xs ! i"
  by (auto simp: rd_def)

lemma wr_eq_Some_iff: "wr xs i v = Some ys \<longleftrightarrow> i < length xs \<and> ys = xs[i := v]"
  by (auto simp: wr_def)

lemma ensure_eq_Some_iff [simp]: "ensure P = Some u \<longleftrightarrow> P"
  by (simp add: ensure_def)

lemma ensure_True [simp]: "ensure True = Some ()"
  by (simp add: ensure_def)

lemma ensure_False [simp]: "ensure False = None"
  by (simp add: ensure_def)

lemma bind_eq_None_iff: "m \<bind> f = None \<longleftrightarrow> m = None \<or> (\<exists>x. m = Some x \<and> f x = None)"
  by (cases m) auto

lemma bind_eq_Some_iff: "m \<bind> f = Some y \<longleftrightarrow> (\<exists>x. m = Some x \<and> f x = Some y)"
  by (cases m) auto

lemma bind_map_opt [simp]: "Option.bind (map_option f x) g = Option.bind x (\<lambda>a. g (f a))"
  by (cases x) auto

lemma mod_pow_Suc: "a mod 2 ^ Suc i = 2 ^ i * ((a div 2 ^ i) mod 2) + a mod (2 ^ i :: nat)"
  by (simp add: mod_mult2_eq[of a "2 ^ i" 2] mult.commute[of 2] del: mod_mult_self4)

subsection \<open>Evaluation of closed terms\<close>

text \<open>
  Congruences that keep the simplifier out of continuations until the value before them is known,
  so that \<open>simp\<close> evaluates the checked programs of the model on concrete inputs.
\<close>

lemma bind_weak_cong: "m = m' \<Longrightarrow> Option.bind m f = Option.bind m' f"
  by simp

lemmas eval_congs = bind_weak_cong prod.case_cong_weak let_weak_cong if_weak_cong option.case_cong_weak

lemma list_update_numeral: "(x # xs)[numeral v := y] = x # xs[pred_numeral v := y]"
  by (simp add: numeral_eq_Suc)

lemma replicate_numeral: "replicate (numeral v) x = x # replicate (pred_numeral v) x"
  by (simp add: numeral_eq_Suc)

lemmas eval_lists = list_update_numeral replicate_numeral rd_def wr_def

end
