(* ===== verification/Klib.thy ===== *)
theory Klib
  imports Prelude
begin

text \<open>
  The kernel library of \<open>include/klib.hh\<close>: the logarithm the page allocator rounds requests
  with, the closed intervals (\<open>Segment\<close>) the address-space code computes with and the ring
  buffer of the console and the logger.
\<close>

subsection \<open>\<open>klib::log2up\<close>\<close>

fun log2up_loop :: "nat \<Rightarrow> nat \<Rightarrow> nat \<Rightarrow> nat" where
  "log2up_loop a i r =
     (if a > 1 then log2up_loop (a div 2) (i + 1) (r OR (a AND 1)) else i + r)"

declare log2up_loop.simps [simp del]

definition log2up :: "nat \<Rightarrow> nat" where
  "log2up a = log2up_loop a 0 0"

subsection \<open>\<open>klib::Segment\<close>: closed intervals of page numbers or addresses\<close>

record Segment =
  seg_l :: nat
  seg_r :: nat

definition Segment_and :: "Segment \<Rightarrow> Segment \<Rightarrow> Segment" where
  "Segment_and a b = \<lparr>seg_l = max (seg_l a) (seg_l b), seg_r = min (seg_r a) (seg_r b)\<rparr>"

definition Segment_bool :: "Segment \<Rightarrow> bool" where
  "Segment_bool a \<longleftrightarrow> seg_l a \<le> seg_r a"

definition Segment_length :: "Segment \<Rightarrow> nat" where
  "Segment_length a = add64 (sub64 (seg_r a) (seg_l a)) 1"

subsection \<open>\<open>klib::ringbuf\<close>\<close>

text \<open>
  \<open>head\<close> and \<open>tail\<close> are \<open>std::atomic<int>\<close>: they are kept as integers, the index is the C
  remainder of a counter that has not overflowed.
\<close>

record 'a ringbuf =
  rb_head :: nat
  rb_tail :: nat
  rb_buff :: "'a list"

definition ringbuf_size :: nat where
  "ringbuf_size = 128"

definition ringbuf_init :: "'a list \<Rightarrow> 'a ringbuf" where
  "ringbuf_init garbage = \<lparr>rb_head = 0, rb_tail = 0, rb_buff = garbage\<rparr>"

definition ringbuf_put :: "'a \<Rightarrow> 'a ringbuf \<Rightarrow> 'a ringbuf" where
  "ringbuf_put d b =
     b\<lparr>rb_buff := (rb_buff b)[rb_tail b mod ringbuf_size := d], rb_tail := rb_tail b + 1\<rparr>"

definition ringbuf_req :: "'a ringbuf \<Rightarrow> nat \<times> 'a ringbuf" where
  "ringbuf_req b = (rb_tail b mod ringbuf_size, b\<lparr>rb_tail := rb_tail b + 1\<rparr>)"

definition ringbuf_pop :: "'a ringbuf \<Rightarrow> 'a ringbuf" where
  "ringbuf_pop b = b\<lparr>rb_head := rb_head b + 1\<rparr>"

definition ringbuf_get :: "'a ringbuf \<Rightarrow> 'a" where
  "ringbuf_get b = rb_buff b ! (rb_head b mod ringbuf_size)"

definition ringbuf_empty :: "'a ringbuf \<Rightarrow> bool" where
  "ringbuf_empty b \<longleftrightarrow> rb_head b = rb_tail b"

definition ringbuf_full :: "'a ringbuf \<Rightarrow> bool" where
  "ringbuf_full b \<longleftrightarrow> int (rb_head b) - int (rb_tail b) = 1"

subsection \<open>\<open>log2up\<close> is the rounded-up binary logarithm\<close>

lemma log2up_loop_r1:
  "a \<ge> 1 \<Longrightarrow> \<exists>k. log2up_loop a i 1 = i + k + 1 \<and> 2 ^ k \<le> a \<and> a < 2 ^ (k + 1)"
proof (induction a arbitrary: i rule: less_induct)
  case (less a)
  show ?case
  proof (cases "a > 1")
    case True
    have r: "(1::nat) OR (a AND 1) = 1"
      by (simp add: and_one_eq mod2_eq_if)
    from True have "a div 2 < a" "1 \<le> a div 2" by auto
    with less.IH[of "a div 2" "i + 1"] obtain k where
      k: "log2up_loop (a div 2) (i + 1) 1 = i + 1 + k + 1" "2 ^ k \<le> a div 2" "a div 2 < 2 ^ (k + 1)"
      by auto
    have "log2up_loop a i 1 = i + (k + 1) + 1"
      using True k(1) r by (subst log2up_loop.simps) simp
    moreover have "2 ^ (k + 1) \<le> a" "a < 2 ^ (k + 1 + 1)" using k(2,3) by auto
    ultimately show ?thesis by blast
  next
    case False
    with less.prems have "a = 1" by simp
    then show ?thesis by (subst log2up_loop.simps) (auto intro: exI[of _ 0])
  qed
qed

lemma log2up_loop_r0:
  "a \<ge> 1 \<Longrightarrow> \<exists>k. log2up_loop a i 0 = i + k \<and> a \<le> 2 ^ k \<and> (0 < k \<longrightarrow> 2 ^ (k - 1) < a)"
proof (induction a arbitrary: i rule: less_induct)
  case (less a)
  consider "a = 1" | "a > 1" "even a" | "a > 1" "odd a" using less.prems by linarith
  then show ?case
  proof cases
    case 1
    then show ?thesis by (subst log2up_loop.simps) (auto intro: exI[of _ 0])
  next
    case 2
    from 2 have "a div 2 < a" "1 \<le> a div 2" by auto
    with less.IH[of "a div 2" "i + 1"] obtain k where
      k: "log2up_loop (a div 2) (i + 1) 0 = i + 1 + k" "a div 2 \<le> 2 ^ k"
         "0 < k \<longrightarrow> 2 ^ (k - 1) < a div 2" by auto
    have "log2up_loop a i 0 = i + (k + 1)"
      using 2 k(1) by (subst log2up_loop.simps) (simp add: and_one_eq even_iff_mod_2_eq_zero)
    moreover have "a \<le> 2 ^ (k + 1)" using 2 k(2) by auto
    moreover have "2 ^ (k + 1 - 1) < a" using 2 k(3) by (cases k) auto
    ultimately show ?thesis by blast
  next
    case 3
    then have "1 \<le> a div 2" by auto
    then obtain k where
      k: "log2up_loop (a div 2) (i + 1) 1 = i + 1 + k + 1" "2 ^ k \<le> a div 2" "a div 2 < 2 ^ (k + 1)"
      using log2up_loop_r1[of "a div 2" "i + 1"] by blast
    have "log2up_loop a i 0 = i + (k + 2)"
      using 3 k(1) by (subst log2up_loop.simps) (simp add: and_one_eq odd_iff_mod_2_eq_one)
    moreover have "a \<le> 2 ^ (k + 2)" using k(3) by simp
    moreover have "2 ^ (k + 2 - 1) < a" using 3 k(2) by simp presburger
    ultimately show ?thesis by blast
  qed
qed

lemma log2up_le: "a \<ge> 1 \<Longrightarrow> a \<le> 2 ^ log2up a"
  using log2up_loop_r0[of a 0] by (auto simp: log2up_def)

lemma log2up_gt: "a \<ge> 1 \<Longrightarrow> 0 < log2up a \<Longrightarrow> 2 ^ (log2up a - 1) < a"
  using log2up_loop_r0[of a 0] by (auto simp: log2up_def)

lemma log2up_unique:
  assumes "a \<le> 2 ^ k" "0 < k \<longrightarrow> 2 ^ (k - 1) < a" "a \<ge> 1"
  shows "log2up a = k"
proof (rule ccontr)
  assume "log2up a \<noteq> k"
  then consider "log2up a < k" | "k < log2up a" by linarith
  then show False
  proof cases
    case 1
    then have "(2::nat) ^ log2up a \<le> 2 ^ (k - 1)" by (intro power_increasing) auto
    with 1 assms(2) log2up_le[OF assms(3)] show False by linarith
  next
    case 2
    then have "(2::nat) ^ k \<le> 2 ^ (log2up a - 1)" by (intro power_increasing) auto
    with 2 assms(1) log2up_gt[OF assms(3)] show False by linarith
  qed
qed

lemma log2up_pow2 [simp]: "log2up (2 ^ k) = k"
  by (rule log2up_unique) auto

lemma log2up_0 [simp]: "log2up 0 = 0" and log2up_1 [simp]: "log2up (Suc 0) = 0"
  by (simp_all add: log2up_def log2up_loop.simps)

lemma log2up_less_iff: "a \<ge> 1 \<Longrightarrow> log2up a \<le> k \<longleftrightarrow> a \<le> 2 ^ k"
proof
  assume "a \<ge> 1" "log2up a \<le> k"
  then show "a \<le> 2 ^ k"
    using log2up_le[of a] power_increasing[of "log2up a" k "2::nat"] by linarith
next
  assume a: "a \<ge> 1" "a \<le> 2 ^ k"
  show "log2up a \<le> k"
  proof (rule ccontr)
    assume "\<not> log2up a \<le> k"
    then have "(2::nat) ^ k \<le> 2 ^ (log2up a - 1)" by (intro power_increasing) auto
    with a log2up_gt[of a] \<open>\<not> log2up a \<le> k\<close> show False by linarith
  qed
qed

end
