(* ===== verification/Klibc.thy ===== *)
theory Klibc
  imports Klib "HOL-Library.List_Lexorder"
begin

text \<open>
  The C library of the kernel, \<open>utils/klibc.cc\<close>, with the formatted output of \<open>klib::format\<close> and the
  logger of \<open>utils/klib.cc\<close>.  Memory is a list of bytes and a pointer is an index into it; an access
  outside the memory is \<open>None\<close>.  \<open>char\<close> is unsigned, as it is on RISC-V.
\<close>

type_synonym memory = "byte list"

subsection \<open>Strings\<close>

function strlen_loop :: "memory \<Rightarrow> nat \<Rightarrow> nat \<Rightarrow> nat option" where
  "strlen_loop m s len =
     do { c \<leftarrow> rd m s;
          if c \<noteq> 0 then strlen_loop m (s + 1) (len + 1) else Some len }"
  by pat_completeness auto
termination
  by (relation "measure (\<lambda>(m, s, len). length m - s)") (auto simp: rd_eq_Some_iff)

definition strlen :: "memory \<Rightarrow> nat \<Rightarrow> nat option" where
  "strlen m s = strlen_loop m s 0"

text \<open>The loop that copies a string up to its terminator: it returns the memory and the end of the copy.\<close>

function copy_loop :: "memory \<Rightarrow> nat \<Rightarrow> nat \<Rightarrow> (memory \<times> nat) option" where
  "copy_loop m j src =
     do { c \<leftarrow> rd m src;
          if c \<noteq> 0
          then do { m' \<leftarrow> wr m j c; copy_loop m' (j + 1) (src + 1) }
          else Some (m, j) }"
  by pat_completeness auto
termination
  by (relation "measure (\<lambda>(m, j, src). length m - src)") (auto simp: rd_eq_Some_iff wr_eq_Some_iff)

definition strcpy :: "memory \<Rightarrow> nat \<Rightarrow> nat \<Rightarrow> memory option" where
  "strcpy m dst src =
     do { (m, j) \<leftarrow> copy_loop m dst src;
          wr m j 0 }"

fun strncpy_copy :: "nat \<Rightarrow> memory \<Rightarrow> nat \<Rightarrow> nat \<Rightarrow> (memory \<times> nat \<times> nat) option" where
  "strncpy_copy 0 m j src = do { c \<leftarrow> rd m src; Some (m, j, 0) }"
| "strncpy_copy (Suc left) m j src =
     do { c \<leftarrow> rd m src;
          if c \<noteq> 0
          then do { m \<leftarrow> wr m j c; strncpy_copy left m (j + 1) (src + 1) }
          else Some (m, j, Suc left) }"

fun fill_loop :: "nat \<Rightarrow> byte \<Rightarrow> memory \<Rightarrow> nat \<Rightarrow> memory option" where
  "fill_loop 0 v m j = Some m"
| "fill_loop (Suc left) v m j = do { m \<leftarrow> wr m j v; fill_loop left v m (j + 1) }"

definition strncpy :: "memory \<Rightarrow> nat \<Rightarrow> nat \<Rightarrow> nat \<Rightarrow> memory option" where
  "strncpy m dst src n =
     do { (m, j, left) \<leftarrow> strncpy_copy n m dst src;
          fill_loop left 0 m j }"

definition strcat :: "memory \<Rightarrow> nat \<Rightarrow> nat \<Rightarrow> memory option" where
  "strcat m dst src =
     do { len \<leftarrow> strlen m dst;
          (m, j) \<leftarrow> copy_loop m (dst + len) src;
          wr m j 0 }"

function strcmp :: "memory \<Rightarrow> nat \<Rightarrow> nat \<Rightarrow> int option" where
  "strcmp m s1 s2 =
     do { a \<leftarrow> rd m s1;
          b \<leftarrow> rd m s2;
          if a = b
          then (if a = 0 then Some 0 else strcmp m (s1 + 1) (s2 + 1))
          else Some (if a < b then - 1 else 1) }"
  by pat_completeness auto
termination
  by (relation "measure (\<lambda>(m, s1, s2). length m - s1)") (auto simp: rd_eq_Some_iff)

function strncmp_loop :: "(byte \<Rightarrow> byte \<Rightarrow> bool) \<Rightarrow> memory \<Rightarrow> nat \<Rightarrow> nat \<Rightarrow> nat \<Rightarrow> nat \<Rightarrow> int option" where
  "strncmp_loop same m s1 s2 n cnt =
     do { a \<leftarrow> rd m s1;
          b \<leftarrow> rd m s2;
          if same a b
          then (if a = 0 \<or> cnt = n then Some 0 else strncmp_loop same m (s1 + 1) (s2 + 1) n (cnt + 1))
          else Some (if a < b then - 1 else 1) }"
  by pat_completeness auto
termination
  by (relation "measure (\<lambda>(same, m, s1, s2, n, cnt). length m - s1)") (auto simp: rd_eq_Some_iff)

definition strncmp :: "memory \<Rightarrow> nat \<Rightarrow> nat \<Rightarrow> nat \<Rightarrow> int option" where
  "strncmp m s1 s2 n = (if n = 0 then Some 0 else strncmp_loop (=) m s1 s2 n 1)"

text \<open>The loop condition of \<open>strncmpamb\<close>: the characters agree up to the case of a letter.\<close>

definition same_amb :: "byte \<Rightarrow> byte \<Rightarrow> bool" where
  "same_amb a b \<longleftrightarrow>
     a = b \<or>
     (a \<ge> 97 \<and> a \<le> 122 \<and> uint b - uint a = 65 - 97) \<or>
     (a \<ge> 65 \<and> a \<le> 90 \<and> uint a - uint b = 65 - 97)"

definition strncmpamb :: "memory \<Rightarrow> nat \<Rightarrow> nat \<Rightarrow> nat \<Rightarrow> int option" where
  "strncmpamb m s1 s2 n = (if n = 0 then Some 0 else strncmp_loop same_amb m s1 s2 n 1)"

function strchr :: "memory \<Rightarrow> nat \<Rightarrow> byte \<Rightarrow> nat option option" where
  "strchr m s c =
     do { a \<leftarrow> rd m s;
          if a \<noteq> 0
          then (if a = c then Some (Some s) else strchr m (s + 1) c)
          else Some None }"
  by pat_completeness auto
termination
  by (relation "measure (\<lambda>(m, s, c). length m - s)") (auto simp: rd_eq_Some_iff)

text \<open>
  \<open>snstr\<close> narrows a string of 16-bit characters.  \<open>len\<close> is decremented by the test that finds the
  terminator, so the second loop fills one byte less than the first one left.
\<close>

fun snstr_copy :: "nat \<Rightarrow> memory \<Rightarrow> nat \<Rightarrow> 16 word list \<Rightarrow> nat \<Rightarrow> (memory \<times> nat \<times> nat) option" where
  "snstr_copy 0 m dst src i = Some (m, dst, 0)"
| "snstr_copy (Suc len) m dst src i =
     do { w \<leftarrow> rd src i;
          if w \<noteq> 0
          then do { m \<leftarrow> wr m dst (ucast (w AND 0xff)); snstr_copy len m (dst + 1) src (i + 1) }
          else Some (m, dst, len) }"

definition snstr :: "memory \<Rightarrow> nat \<Rightarrow> 16 word list \<Rightarrow> nat \<Rightarrow> memory option" where
  "snstr m dst src len =
     do { (m, dst, len) \<leftarrow> snstr_copy len m dst src 0;
          fill_loop len 0 m dst }"

subsection \<open>Memory blocks\<close>

definition memset :: "memory \<Rightarrow> nat \<Rightarrow> byte \<Rightarrow> nat \<Rightarrow> memory option" where
  "memset m s c n = fill_loop n c m s"

fun memmove_loop :: "nat \<Rightarrow> memory \<Rightarrow> nat \<Rightarrow> nat \<Rightarrow> memory option" where
  "memmove_loop 0 m dst src = Some m"
| "memmove_loop (Suc k) m dst src =
     do { c \<leftarrow> rd m (src + k);
          m \<leftarrow> wr m (dst + k) c;
          memmove_loop k m dst src }"

definition memmove :: "memory \<Rightarrow> nat \<Rightarrow> nat \<Rightarrow> nat \<Rightarrow> memory option" where
  "memmove m dst src n = (if n \<le> 0 then Some m else memmove_loop n m dst src)"

fun memcpy_loop :: "nat \<Rightarrow> memory \<Rightarrow> nat \<Rightarrow> nat \<Rightarrow> memory option" where
  "memcpy_loop 0 m j i = Some m"
| "memcpy_loop (Suc left) m j i =
     do { c \<leftarrow> rd m i;
          m \<leftarrow> wr m j c;
          memcpy_loop left m (j + 1) (i + 1) }"

definition memcpy :: "memory \<Rightarrow> nat \<Rightarrow> nat \<Rightarrow> nat \<Rightarrow> memory option" where
  "memcpy m out i n = memcpy_loop n m out i"

function memcmp_loop :: "memory \<Rightarrow> nat \<Rightarrow> nat \<Rightarrow> nat \<Rightarrow> nat \<Rightarrow> int option" where
  "memcmp_loop m i j n cnt =
     do { a \<leftarrow> rd m i;
          b \<leftarrow> rd m j;
          if a = b
          then (if a = 0 \<or> cnt \<ge> n then Some 0 else memcmp_loop m (i + 1) (j + 1) n (cnt + 1))
          else Some (if a < b then - 1 else 1) }"
  by pat_completeness auto
termination
  by (relation "measure (\<lambda>(m, i, j, n, cnt). length m - i)") (auto simp: rd_eq_Some_iff)

definition memcmp :: "memory \<Rightarrow> nat \<Rightarrow> nat \<Rightarrow> nat \<Rightarrow> int option" where
  "memcmp m s1 s2 n = (if n = 0 then Some 0 else memcmp_loop m s1 s2 n 1)"

fun memchr :: "memory \<Rightarrow> nat \<Rightarrow> byte \<Rightarrow> nat \<Rightarrow> nat option option" where
  "memchr m src d 0 = Some None"
| "memchr m src d (Suc left) =
     do { c \<leftarrow> rd m src;
          if c = d then Some (Some src) else memchr m (src + 1) d left }"

declare strlen_loop.simps [simp del] copy_loop.simps [simp del] strcmp.simps [simp del] strncmp_loop.simps [simp del]
  strchr.simps [simp del] memcmp_loop.simps [simp del]

subsection \<open>Formatted output\<close>

text \<open>
  The arguments of a variadic call: a 64-bit register slot read as a signed number, or a string
  given by its characters.  \<open>va_arg(vl, int)\<close> takes the low 32 bits of the slot.
\<close>

datatype vararg = VInt int | VStr "byte list"

fun va_num :: "bool \<Rightarrow> vararg list \<Rightarrow> (int \<times> vararg list) option" where
  "va_num longarg (VInt x # vl) =
     Some (if longarg then signed_take_bit 63 x else signed_take_bit 31 x, vl)"
| "va_num longarg _ = None"

fun va_str :: "vararg list \<Rightarrow> (byte list \<times> vararg list) option" where
  "va_str (VStr s # vl) = Some (s, vl)"
| "va_str _ = None"

text \<open>The guarded store \<open>if (out && pos < n) out[pos] = c\<close>; \<open>None\<close> as a buffer is the null pointer.\<close>

definition put_at :: "nat \<Rightarrow> nat \<Rightarrow> byte \<Rightarrow> memory option \<Rightarrow> memory option option" where
  "put_at n pos c out =
     (case out of
        None \<Rightarrow> Some None
      | Some b \<Rightarrow> if pos < n then map_option Some (wr b pos c) else Some out)"

definition hex_char :: "int \<Rightarrow> byte" where
  "hex_char d = word_of_int (if d < 10 then 48 + d else 97 + d - 10)"

fun put_hex :: "nat \<Rightarrow> nat \<Rightarrow> int \<Rightarrow> nat \<Rightarrow> memory option \<Rightarrow> (memory option \<times> nat) option" where
  "put_hex n 0 num pos out = Some (out, pos)"
| "put_hex n (Suc i) num pos out =
     do { out \<leftarrow> put_at n pos (hex_char (drop_bit (4 * i) num AND 0xF)) out;
          put_hex n i num (pos + 1) out }"

function count_digits :: "int \<Rightarrow> nat \<Rightarrow> nat" where
  "count_digits nn digits =
     (if nn \<ge> 10 then count_digits (nn div 10) (digits + 1) else digits)"
  by pat_completeness auto
termination
  by (relation "measure (\<lambda>(nn, digits). nat nn)") auto

fun put_dec :: "nat \<Rightarrow> nat \<Rightarrow> int \<Rightarrow> nat \<Rightarrow> memory option \<Rightarrow> memory option option" where
  "put_dec n 0 num pos out = Some out"
| "put_dec n (Suc i) num pos out =
     do { out \<leftarrow> put_at n (pos + i) (word_of_int (48 + num mod 10)) out;
          put_dec n i (num div 10) pos out }"

fun put_str :: "nat \<Rightarrow> byte list \<Rightarrow> nat \<Rightarrow> memory option \<Rightarrow> (memory option \<times> nat) option" where
  "put_str n [] pos out = Some (out, pos)"
| "put_str n (c # s2) pos out =
     do { out \<leftarrow> put_at n pos c out;
          put_str n s2 (pos + 1) out }"

record vsn =
  vs_out :: "memory option"
  vs_pos :: nat
  vs_long :: bool
  vs_format :: bool
  vs_args :: "vararg list"

definition vsn_hex :: "nat \<Rightarrow> vsn \<Rightarrow> vsn option" where
  "vsn_hex n st =
     do { (num, vl) \<leftarrow> va_num (vs_long st) (vs_args st);
          (out, pos) \<leftarrow> put_hex n (if vs_long st then 16 else 8) num (vs_pos st) (vs_out st);
          Some \<lparr>vs_out = out, vs_pos = pos, vs_long = False, vs_format = False, vs_args = vl\<rparr> }"

definition vsn_ptr :: "nat \<Rightarrow> vsn \<Rightarrow> vsn option" where
  "vsn_ptr n st =
     do { out \<leftarrow> put_at n (vs_pos st) 48 (vs_out st);
          out \<leftarrow> put_at n (vs_pos st + 1) 120 out;
          vsn_hex n (st\<lparr>vs_out := out, vs_pos := vs_pos st + 2, vs_long := True\<rparr>) }"

text \<open>The negation of the least \<open>long\<close> overflows, which C++ leaves undefined.\<close>

definition vsn_dec :: "nat \<Rightarrow> vsn \<Rightarrow> vsn option" where
  "vsn_dec n st =
     do { (num, vl) \<leftarrow> va_num (vs_long st) (vs_args st);
          ensure (num \<noteq> - (2 ^ 63));
          out \<leftarrow> (if num < 0 then put_at n (vs_pos st) 45 (vs_out st) else Some (vs_out st));
          let pos = (if num < 0 then vs_pos st + 1 else vs_pos st);
          let digits = count_digits (abs num) 1;
          out \<leftarrow> put_dec n digits (abs num) pos out;
          Some \<lparr>vs_out = out, vs_pos = pos + digits, vs_long = False, vs_format = False, vs_args = vl\<rparr> }"

definition vsn_str :: "nat \<Rightarrow> vsn \<Rightarrow> vsn option" where
  "vsn_str n st =
     do { (s2, vl) \<leftarrow> va_str (vs_args st);
          (out, pos) \<leftarrow> put_str n s2 (vs_pos st) (vs_out st);
          Some \<lparr>vs_out = out, vs_pos = pos, vs_long = False, vs_format = False, vs_args = vl\<rparr> }"

text \<open>\<open>%c\<close> reads its argument only when it stores the character.\<close>

definition vsn_chr :: "nat \<Rightarrow> vsn \<Rightarrow> vsn option" where
  "vsn_chr n st =
     do { (out, vl) \<leftarrow>
            (if vs_out st \<noteq> None \<and> vs_pos st < n
             then do { (c, vl) \<leftarrow> va_num False (vs_args st);
                       out \<leftarrow> put_at n (vs_pos st) (word_of_int c) (vs_out st);
                       Some (out, vl) }
             else Some (vs_out st, vs_args st));
          Some \<lparr>vs_out = out, vs_pos = vs_pos st + 1, vs_long = False, vs_format = False, vs_args = vl\<rparr> }"

definition vsn_char :: "nat \<Rightarrow> byte \<Rightarrow> vsn \<Rightarrow> vsn option" where
  "vsn_char n c st =
     (if vs_format st then
        if c = 108 then Some (st\<lparr>vs_long := True\<rparr>)
        else if c = 112 then vsn_ptr n st
        else if c = 120 then vsn_hex n st
        else if c = 117 \<or> c = 100 then vsn_dec n st
        else if c = 115 then vsn_str n st
        else if c = 99 then vsn_chr n st
        else None
      else if c = 37 then Some (st\<lparr>vs_format := True\<rparr>)
      else do { out \<leftarrow> (if c < 127 then put_at n (vs_pos st) c (vs_out st) else Some (vs_out st));
                Some (st\<lparr>vs_out := out, vs_pos := vs_pos st + 1\<rparr>) })"

fun vsn_loop :: "nat \<Rightarrow> byte list \<Rightarrow> vsn \<Rightarrow> vsn option" where
  "vsn_loop n [] st = Some st"
| "vsn_loop n (c # s) st = do { st \<leftarrow> vsn_char n c st; vsn_loop n s st }"

definition vsnprintf :: "memory option \<Rightarrow> nat \<Rightarrow> byte list \<Rightarrow> vararg list \<Rightarrow> (memory option \<times> nat) option" where
  "vsnprintf out n s vl =
     do { st \<leftarrow> vsn_loop n s \<lparr>vs_out = out, vs_pos = 0, vs_long = False, vs_format = False, vs_args = vl\<rparr>;
          let pos = vs_pos st;
          out \<leftarrow> (case vs_out st of
                    None \<Rightarrow> Some None
                  | Some b \<Rightarrow> if pos < n then map_option Some (wr b pos 0)
                              else if n \<noteq> 0 then map_option Some (wr b (n - 1) 0)
                              else Some (Some b));
          Some (out, pos) }"

definition snprintf :: "memory option \<Rightarrow> nat \<Rightarrow> byte list \<Rightarrow> vararg list \<Rightarrow> (memory option \<times> nat) option" where
  "snprintf str sz fmt vl = vsnprintf str (add64 sz 1) fmt vl"

text \<open>
  \<open>klib::format\<close> measures with a null buffer of size \<open>-1\<close>, allocates \<open>size + 1\<close> bytes (whose contents
  \<open>fresh\<close> gives) and prints into them; the \<open>string\<close> it builds ends at the first zero byte.
\<close>

definition format :: "(nat \<Rightarrow> memory) \<Rightarrow> byte list \<Rightarrow> vararg list \<Rightarrow> byte list option" where
  "format fresh fmt vl =
     do { (_, sz) \<leftarrow> snprintf None (2 ^ 64 - 1) fmt vl;
          ensure (sz > 0);
          (buf, _) \<leftarrow> snprintf (Some (fresh (sz + 1))) sz fmt vl;
          buf \<leftarrow> buf;
          ensure (0 \<in> set buf);
          Some (takeWhile (\<lambda>c. c \<noteq> 0) buf) }"

text \<open>\<open>_vprintf\<close>: the text handed to \<open>puts\<close>; an output of 1999 bytes or more never returns.\<close>

definition vprintf :: "memory \<Rightarrow> byte list \<Rightarrow> vararg list \<Rightarrow> (memory \<times> byte list \<times> nat) option" where
  "vprintf out_buf s vl =
     do { (_, res) \<leftarrow> vsnprintf None (2 ^ 64 - 1) s vl;
          ensure (res + 1 < 2000);
          (out, _) \<leftarrow> vsnprintf (Some out_buf) (res + 1) s vl;
          out \<leftarrow> out;
          Some (out, takeWhile (\<lambda>c. c \<noteq> 0) out, res) }"

text \<open>The console: the static buffer of \<open>_vprintf\<close> and the strings handed to \<open>puts\<close>.\<close>

record Console =
  con_buf :: memory
  con_out :: "byte list list"

definition str_bytes :: "string \<Rightarrow> byte list" where
  "str_bytes s = map of_char s"

definition printf :: "byte list \<Rightarrow> vararg list \<Rightarrow> Console \<Rightarrow> (nat \<times> Console) option" where
  "printf s vl con =
     do { (buf, txt, res) \<leftarrow> vprintf (con_buf con) s vl;
          Some (res, \<lparr>con_buf = buf, con_out = con_out con @ [txt]\<rparr>) }"

definition putchar :: "byte \<Rightarrow> Console \<Rightarrow> byte \<times> Console" where
  "putchar c con = (c, con\<lparr>con_out := con_out con @ [takeWhile (\<lambda>c. c \<noteq> 0) [c, 0]]\<rparr>)"

subsection \<open>The logger\<close>

record LogItem =
  li_id :: nat
  li_buf :: memory

record Logger =
  lg_ring :: "LogItem ringbuf list"
  lg_lid :: nat
  lg_outputLevel :: nat

definition nlevels :: nat where
  "nlevels = 5"

definition Logger_log :: "nat \<Rightarrow> byte list \<Rightarrow> vararg list \<Rightarrow> Logger \<times> Console \<Rightarrow> (Logger \<times> Console) option" where
  "Logger_log level fmt vl = (\<lambda>(lg, con).
     do { r \<leftarrow> rd (lg_ring lg) level;
          let (i, r) = ringbuf_req r;
          item \<leftarrow> rd (rb_buff r) i;
          let lid = (lg_lid lg + 1) mod 2 ^ 32;
          (out, _) \<leftarrow> vsnprintf (Some (li_buf item)) 500 fmt vl;
          buf \<leftarrow> out;
          items \<leftarrow> wr (rb_buff r) i \<lparr>li_id = lid, li_buf = buf\<rparr>;
          ring \<leftarrow> wr (lg_ring lg) level (r\<lparr>rb_buff := items\<rparr>);
          Some (lg\<lparr>lg_ring := ring, lg_lid := lid\<rparr>,
                if level \<ge> lg_outputLevel lg
                then con\<lparr>con_out := con_out con @ [takeWhile (\<lambda>c. c \<noteq> 0) buf]\<rparr> else con) })"

fun dump_items :: "LogItem list \<Rightarrow> nat list \<Rightarrow> Console \<Rightarrow> Console option" where
  "dump_items buff [] con = Some con"
| "dump_items buff (i # is) con =
     do { item \<leftarrow> rd buff (i mod 128);
          (_, con) \<leftarrow> printf (str_bytes ''%d: %s'')
             [VInt (int (li_id item)), VStr (takeWhile (\<lambda>c. c \<noteq> 0) (li_buf item))] con;
          dump_items buff is con }"

fun dump_levels :: "nat \<Rightarrow> LogItem ringbuf list \<Rightarrow> Console \<Rightarrow> Console option" where
  "dump_levels 0 ring con = Some con"
| "dump_levels (Suc lvl) ring con =
     do { r \<leftarrow> rd ring lvl;
          (_, con) \<leftarrow> printf ([10] @ str_bytes ''>>>>>> log level %d <<<<<<'' @ [10]) [VInt (int lvl)] con;
          con \<leftarrow> dump_items (rb_buff r) [rb_tail r - 10..<rb_tail r] con;
          dump_levels lvl ring con }"

definition Logger_dump :: "Logger \<Rightarrow> Console \<Rightarrow> Console option" where
  "Logger_dump lg con = dump_levels nlevels (lg_ring lg) con"

declare count_digits.simps [simp del]

end
