(* ===== verification/KlibcSpec.thy ===== *)
theory KlibcSpec
  imports Klibc
begin

text \<open>
  The C library against its references: \<open>_vsnprintf\<close> against a buffer-free rendering of the format,
  the string functions against lists of characters and the block copies against the old memory.
\<close>

subsection \<open>What a format denotes\<close>

text \<open>
  The reference for \<open>_vsnprintf\<close>: the cells a format and its arguments denote, independent of any
  buffer.  A cell without a value stands for a character the printer passes over without a store.
\<close>

fun dec_str :: "nat \<Rightarrow> byte list" where
  "dec_str n = (if n < 10 then [word_of_nat (48 + n)]
                else dec_str (n div 10) @ [word_of_nat (48 + n mod 10)])"

declare dec_str.simps [simp del]

definition int_str :: "int \<Rightarrow> byte list" where
  "int_str x = (if x < 0 then 45 # dec_str (nat (- x)) else dec_str (nat x))"

definition hex_str :: "nat \<Rightarrow> int \<Rightarrow> byte list" where
  "hex_str k num = map (\<lambda>i. hex_char ((num div 16 ^ i) mod 16)) (rev [0..<k])"

definition conv :: "bool \<Rightarrow> byte \<Rightarrow> vararg list \<Rightarrow> (byte list \<times> vararg list) option" where
  "conv l c vl =
     (if c = 112 then map_option (\<lambda>(x, vl). (48 # 120 # hex_str 16 x, vl)) (va_num True vl)
      else if c = 120 then map_option (\<lambda>(x, vl). (hex_str (if l then 16 else 8) x, vl)) (va_num l vl)
      else if c = 117 \<or> c = 100
      then do { (x, vl) \<leftarrow> va_num l vl; if x = - (2 ^ 63) then None else Some (int_str x, vl) }
      else if c = 115 then va_str vl
      else if c = 99 then map_option (\<lambda>(x, vl). ([word_of_int x], vl)) (va_num False vl)
      else None)"

fun render :: "bool \<Rightarrow> bool \<Rightarrow> byte list \<Rightarrow> vararg list \<Rightarrow> byte option list option" where
  "render f l [] vl = Some []"
| "render f l (c # s) vl =
     (if f then
        if c = 108 then render True True s vl
        else do { (t, vl) \<leftarrow> conv l c vl;
                  r \<leftarrow> render False False s vl;
                  Some (map Some t @ r) }
      else if c = 37 then render True l s vl
      else do { r \<leftarrow> render False l s vl; Some ((if c < 127 then Some c else None) # r) })"

fun uses_c :: "bool \<Rightarrow> byte list \<Rightarrow> bool" where
  "uses_c f [] = False"
| "uses_c f (c # s) = (if f then c = 99 \<or> uses_c (c = 108) s else uses_c (c = 37) s)"

text \<open>Laying cells over the first \<open>n\<close> bytes of a buffer from a position.\<close>

definition lay :: "nat \<Rightarrow> nat \<Rightarrow> byte option list \<Rightarrow> memory \<Rightarrow> memory" where
  "lay n pos cs b =
     map (\<lambda>i. if pos \<le> i \<and> i < pos + length cs \<and> i < n
               then (case cs ! (i - pos) of Some c \<Rightarrow> c | None \<Rightarrow> b ! i) else b ! i) [0..<length b]"

definition olay :: "nat \<Rightarrow> nat \<Rightarrow> byte option list \<Rightarrow> memory option \<Rightarrow> memory option" where
  "olay n pos cs out = map_option (lay n pos cs) out"

definition fits :: "nat \<Rightarrow> memory option \<Rightarrow> bool" where
  "fits n out \<longleftrightarrow> (case out of None \<Rightarrow> True | Some b \<Rightarrow> n \<le> length b)"

lemma length_lay [simp]: "length (lay n pos cs b) = length b"
  by (simp add: lay_def)

lemma fits_olay [simp]: "fits n (olay n' pos cs out) = fits n out"
  by (simp add: fits_def olay_def split: option.splits)

lemma olay_Nil [simp]: "olay n pos [] out = out"
  by (cases out) (auto simp: olay_def lay_def intro!: nth_equalityI)

lemma lay_append:
  "lay n (pos + length cs) ds (lay n pos cs b) = lay n pos (cs @ ds) b"
  by (rule nth_equalityI) (auto simp: lay_def nth_append split: option.splits)

lemma lay_prepend:
  "lay n pos cs (lay n (pos + length cs) ds b) = lay n pos (cs @ ds) b"
  by (rule nth_equalityI) (auto simp: lay_def nth_append split: option.splits)

lemma olay_append: "olay n (pos + length cs) ds (olay n pos cs out) = olay n pos (cs @ ds) out"
  by (cases out) (simp_all add: olay_def lay_append)

lemma olay_prepend: "olay n pos cs (olay n (pos + length cs) ds out) = olay n pos (cs @ ds) out"
  by (cases out) (simp_all add: olay_def lay_prepend)

lemma put_at_olay: "fits n out \<Longrightarrow> put_at n pos c out = Some (olay n pos [Some c] out)"
  by (cases out)
     (auto simp: put_at_def olay_def fits_def wr_def lay_def nth_list_update intro!: nth_equalityI)

lemma put_str_olay:
  "fits n out \<Longrightarrow> put_str n s pos out = Some (olay n pos (map Some s) out, pos + length s)"
proof (induction s arbitrary: pos out)
  case (Cons c s)
  then show ?case using olay_append[of n pos "[Some c]" "map Some s" out] by (simp add: put_at_olay)
qed simp

lemma hex_str_Suc: "hex_str (Suc k) num = hex_char ((num div 16 ^ k) mod 16) # hex_str k num"
  by (simp add: hex_str_def)

lemma length_hex_str [simp]: "length (hex_str k num) = k"
  by (simp add: hex_str_def)

lemma hex_digit: "drop_bit (4 * i) (num::int) AND 0xF = (num div 16 ^ i) mod 16"
proof -
  have "drop_bit (4 * i) num AND 0xF = take_bit 4 (drop_bit (4 * i) num)"
    by (simp add: take_bit_eq_mask mask_eq_exp_minus_1)
  then show ?thesis by (simp add: take_bit_eq_mod drop_bit_eq_div power_mult)
qed

lemma put_hex_olay:
  "fits n out \<Longrightarrow> put_hex n k num pos out = Some (olay n pos (map Some (hex_str k num)) out, pos + k)"
proof (induction k arbitrary: pos out)
  case 0
  then show ?case by (simp add: hex_str_def)
next
  case (Suc k)
  then show ?case
    using olay_append[of n pos "[Some (hex_char ((num div 16 ^ k) mod 16))]" "map Some (hex_str k num)" out]
    by (simp add: put_at_olay hex_digit hex_str_Suc)
qed

lemma nat_div10: "nat ((x::int) div 10) = nat x div 10"
  by (simp add: nat_div_as_int)

lemma dec_byte:
  assumes "0 \<le> num"
  shows "(word_of_int (48 + num mod 10) :: byte) = word_of_nat (48 + nat num mod 10)"
proof -
  have "48 + num mod 10 = int (48 + nat num mod 10)" using assms by (simp add: zmod_int)
  then show ?thesis by (metis of_int_of_nat_eq)
qed

lemma count_digits_acc: "count_digits x (Suc d) = Suc (count_digits x d)"
proof (induction x d rule: count_digits.induct)
  case (1 x d)
  then show ?case by (subst (1 2) count_digits.simps) simp
qed

lemma count_digits_dec: "0 \<le> x \<Longrightarrow> count_digits x 1 = length (dec_str (nat x))"
proof (induction "nat x" arbitrary: x rule: less_induct)
  case less
  show ?case
  proof (cases "x \<ge> 10")
    case True
    then have "nat (x div 10) < nat x" "0 \<le> x div 10" by auto
    from less(1)[OF this] have "count_digits (x div 10) 1 = length (dec_str (nat x div 10))"
      by (simp add: nat_div10)
    with True show ?thesis
      by (subst count_digits.simps, subst dec_str.simps) (simp add: count_digits_acc nat_less_iff)
  next
    case False
    with less.prems show ?thesis
      by (subst count_digits.simps, subst dec_str.simps) (simp add: nat_less_iff)
  qed
qed

lemma put_dec_olay:
  "fits n out \<Longrightarrow> 0 \<le> x \<Longrightarrow>
   put_dec n (length (dec_str (nat x))) x pos out = Some (olay n pos (map Some (dec_str (nat x))) out)"
proof (induction "nat x" arbitrary: x out rule: less_induct)
  case less
  show ?case
  proof (cases "x \<ge> 10")
    case True
    then have q: "nat (x div 10) < nat x" "0 \<le> x div 10" by auto
    let ?o = "olay n (pos + length (dec_str (nat x div 10))) [Some (word_of_nat (48 + nat x mod 10))] out"
    have s: "dec_str (nat x) = dec_str (nat x div 10) @ [word_of_nat (48 + nat x mod 10)]"
      using True by (subst dec_str.simps) (simp add: not_less[symmetric] nat_less_iff)
    have "put_dec n (length (dec_str (nat x div 10))) (x div 10) pos ?o
            = Some (olay n pos (map Some (dec_str (nat x div 10))) ?o)"
      using less(1)[OF q(1) _ q(2), of ?o] less.prems by (simp add: nat_div10)
    with less.prems s show ?thesis
      using olay_prepend[of n pos "map Some (dec_str (nat x div 10))" "[Some (word_of_nat (48 + nat x mod 10))]" out]
      by (simp add: put_at_olay dec_byte del: of_nat_add of_int_add)
  next
    case False
    then have s: "dec_str (nat x) = [word_of_nat (48 + nat x)]"
      by (subst dec_str.simps) auto
    moreover have "x mod 10 = x" "nat x mod 10 = nat x" using False less.prems by auto
    ultimately have s: "dec_str (nat x) = [word_of_nat (48 + nat x)]" "x mod 10 = x" "nat x mod 10 = nat x"
      by auto
    from less.prems dec_byte[of x] s show ?thesis
      by (simp add: put_at_olay del: of_nat_add of_int_add)
  qed
qed

lemma va_num_ok:
  "va_num l (VInt x # vl) = Some (if l then signed_take_bit 63 x else signed_take_bit 31 x, vl)"
  by simp

lemma vsn_hex_olay:
  assumes "fits n (vs_out st)" "va_num (vs_long st) (vs_args st) = Some (x, vl)"
  shows "vsn_hex n st =
    Some \<lparr>vs_out = olay n (vs_pos st) (map Some (hex_str (if vs_long st then 16 else 8) x)) (vs_out st),
          vs_pos = vs_pos st + (if vs_long st then 16 else 8), vs_long = False, vs_format = False, vs_args = vl\<rparr>"
  using assms by (simp add: vsn_hex_def put_hex_olay)

lemma vsn_ptr_olay:
  assumes "fits n (vs_out st)" "va_num True (vs_args st) = Some (x, vl)"
  shows "vsn_ptr n st =
    Some \<lparr>vs_out = olay n (vs_pos st) (map Some (48 # 120 # hex_str 16 x)) (vs_out st),
          vs_pos = vs_pos st + 18, vs_long = False, vs_format = False, vs_args = vl\<rparr>"
  using assms olay_append[of n "vs_pos st" "[Some 48]" "[Some 120]" "vs_out st"]
    olay_append[of n "vs_pos st" "[Some 48, Some 120]" "map Some (hex_str 16 x)" "vs_out st"]
  by (simp add: vsn_ptr_def put_at_olay vsn_hex_olay)

lemma vsn_dec_olay:
  assumes "fits n (vs_out st)" "va_num (vs_long st) (vs_args st) = Some (x, vl)" "x \<noteq> - (2 ^ 63)"
  shows "vsn_dec n st =
    Some \<lparr>vs_out = olay n (vs_pos st) (map Some (int_str x)) (vs_out st),
          vs_pos = vs_pos st + length (int_str x), vs_long = False, vs_format = False, vs_args = vl\<rparr>"
  using assms olay_append[of n "vs_pos st" "[Some 45]" "map Some (dec_str (nat (- x)))" "vs_out st"]
  by (simp add: vsn_dec_def put_at_olay put_dec_olay count_digits_dec[simplified] int_str_def Let_def)

lemma vsn_str_olay:
  assumes "fits n (vs_out st)" "va_str (vs_args st) = Some (s, vl)"
  shows "vsn_str n st =
    Some \<lparr>vs_out = olay n (vs_pos st) (map Some s) (vs_out st),
          vs_pos = vs_pos st + length s, vs_long = False, vs_format = False, vs_args = vl\<rparr>"
  using assms by (simp add: vsn_str_def put_str_olay)

lemma vsn_chr_olay:
  assumes "fits n (vs_out st)" "va_num False (vs_args st) = Some (x, vl)"
    "vs_out st \<noteq> None" "vs_pos st < n"
  shows "vsn_chr n st =
    Some \<lparr>vs_out = olay n (vs_pos st) [Some (word_of_int x)] (vs_out st),
          vs_pos = vs_pos st + 1, vs_long = False, vs_format = False, vs_args = vl\<rparr>"
  using assms by (simp add: vsn_chr_def put_at_olay)

text \<open>One conversion, whichever it is, lays down what it denotes.\<close>

lemma vsn_conv:
  assumes "fits n (vs_out st)" "vs_format st" "c \<noteq> 108" "conv (vs_long st) c (vs_args st) = Some (t, vl)"
    "c = 99 \<longrightarrow> vs_out st \<noteq> None \<and> vs_pos st < n"
  shows "vsn_char n c st =
    Some \<lparr>vs_out = olay n (vs_pos st) (map Some t) (vs_out st), vs_pos = vs_pos st + length t,
          vs_long = False, vs_format = False, vs_args = vl\<rparr>"
proof -
  consider "c = 112" | "c = 120" | "c = 117 \<or> c = 100" | "c = 115" | "c = 99"
    using assms(4) by (auto simp: conv_def split: if_splits)
  then show ?thesis
  proof cases
    case 1
    then show ?thesis using assms by (auto simp: vsn_char_def conv_def vsn_ptr_olay)
  next
    case 2
    then show ?thesis using assms by (auto simp: vsn_char_def conv_def vsn_hex_olay)
  next
    case 3
    then show ?thesis using assms
      by (auto simp: vsn_char_def conv_def vsn_dec_olay bind_eq_Some_iff split: if_splits)
  next
    case 4
    then show ?thesis using assms by (auto simp: vsn_char_def conv_def vsn_str_olay)
  next
    case 5
    then show ?thesis using assms by (auto simp: vsn_char_def conv_def vsn_chr_olay)
  qed
qed

lemma vsn_plain:
  assumes "fits n (vs_out st)" "\<not> vs_format st" "c \<noteq> 37"
  shows "vsn_char n c st =
    Some (st\<lparr>vs_out := olay n (vs_pos st) [if c < 127 then Some c else None] (vs_out st),
             vs_pos := vs_pos st + 1\<rparr>)"
proof -
  have "olay n (vs_pos st) [None] (vs_out st) = vs_out st"
    by (cases "vs_out st") (auto simp: olay_def lay_def intro!: nth_equalityI)
  with assms show ?thesis by (simp add: vsn_char_def put_at_olay)
qed

lemma vsn_loop_olay:
  "fits n (vs_out st) \<Longrightarrow> render (vs_format st) (vs_long st) s (vs_args st) = Some cs \<Longrightarrow>
   uses_c (vs_format st) s \<longrightarrow> vs_out st \<noteq> None \<and> vs_pos st + length cs \<le> n \<Longrightarrow>
   \<exists>st'. vsn_loop n s st = Some st' \<and> vs_out st' = olay n (vs_pos st) cs (vs_out st)
     \<and> vs_pos st' = vs_pos st + length cs"
proof (induction s arbitrary: st cs)
  case Nil
  then show ?case by simp
next
  case (Cons c s)
  show ?case
  proof (cases "vs_format st")
    case f: True
    show ?thesis
    proof (cases "c = 108")
      case True
      with f Cons.prems Cons.IH[of "st\<lparr>vs_long := True\<rparr>" cs] show ?thesis
        by (auto simp: vsn_char_def)
    next
      case l: False
      with f Cons.prems(2) obtain t vl r where
        t: "conv (vs_long st) c (vs_args st) = Some (t, vl)" "render False False s vl = Some r"
          "cs = map Some t @ r"
        by (auto simp: bind_eq_Some_iff)
      let ?st = "\<lparr>vs_out = olay n (vs_pos st) (map Some t) (vs_out st), vs_pos = vs_pos st + length t,
          vs_long = False, vs_format = False, vs_args = vl\<rparr>"
      have len: "c = 99 \<longrightarrow> length t = 1" using t(1) by (auto simp: conv_def)
      have "c = 99 \<longrightarrow> vs_out st \<noteq> None \<and> vs_pos st < n"
        using Cons.prems(3) len f t(3) by auto
      from vsn_conv[OF Cons.prems(1) f l t(1) this] have "vsn_char n c st = Some ?st" .
      moreover have "uses_c False s \<longrightarrow> vs_out ?st \<noteq> None \<and> vs_pos ?st + length r \<le> n"
        using Cons.prems(3) f l t(3) by (auto simp: olay_def)
      ultimately show ?thesis
        using Cons.IH[of ?st r] Cons.prems(1) t(2,3) olay_append[of n "vs_pos st" "map Some t" r "vs_out st"]
        by auto
    qed
  next
    case nf: False
    show ?thesis
    proof (cases "c = 37")
      case True
      with nf Cons.prems Cons.IH[of "st\<lparr>vs_format := True\<rparr>" cs] show ?thesis
        by (auto simp: vsn_char_def)
    next
      case p: False
      let ?x = "if c < 127 then Some c else None"
      from p nf Cons.prems(2) obtain r where
        r: "render False (vs_long st) s (vs_args st) = Some r" "cs = ?x # r"
        by (auto simp: bind_eq_Some_iff)
      let ?st = "st\<lparr>vs_out := olay n (vs_pos st) [?x] (vs_out st), vs_pos := vs_pos st + 1\<rparr>"
      have "uses_c False s \<longrightarrow> vs_out ?st \<noteq> None \<and> vs_pos ?st + length r \<le> n"
        using Cons.prems(3) nf p r(2) by (auto simp: olay_def)
      then show ?thesis
        using Cons.IH[of ?st r] Cons.prems(1) nf r vsn_plain[OF Cons.prems(1) nf p]
          olay_append[of n "vs_pos st" "[?x]" r "vs_out st"]
        by auto
    qed
  qed
qed

subsection \<open>The printer against its reference\<close>

lemma render_ok_vsnprintf:
  assumes "render False False s vl = Some cs" "uses_c False s \<longrightarrow> length cs \<le> n" "n \<le> length b" "0 < n"
  shows "vsnprintf (Some b) n s vl = Some (Some ((lay n 0 cs b)[min (length cs) (n - 1) := 0]), length cs)"
proof -
  let ?st = "\<lparr>vs_out = Some b, vs_pos = 0, vs_long = False, vs_format = False, vs_args = vl\<rparr>"
  have "fits n (vs_out ?st)" using assms(3) by (simp add: fits_def)
  then obtain st' where "vsn_loop n s ?st = Some st'" "vs_out st' = Some (lay n 0 cs b)"
      "vs_pos st' = length cs"
    using vsn_loop_olay[of n ?st s cs] assms by (auto simp: olay_def)
  then show ?thesis using assms(3,4) by (auto simp: vsnprintf_def wr_def min_def Let_def)
qed

lemma render_ok_measure:
  assumes "render False False s vl = Some cs" "\<not> uses_c False s"
  shows "vsnprintf None n s vl = Some (None, length cs)"
proof -
  let ?st = "\<lparr>vs_out = None, vs_pos = 0, vs_long = False, vs_format = False, vs_args = vl\<rparr>"
  obtain st' where "vsn_loop n s ?st = Some st'" "vs_out st' = None" "vs_pos st' = length cs"
    using vsn_loop_olay[of n ?st s cs] assms by (auto simp: olay_def fits_def)
  then show ?thesis by (simp add: vsnprintf_def)
qed

lemma lay_all:
  assumes "length b = length bs + 1"
  shows "(lay (length bs + 1) 0 (map Some bs) b)[length bs := 0] = bs @ [0]"
  using assms by (auto simp: lay_def nth_append nth_list_update intro!: nth_equalityI)

lemma takeWhile_nz: "0 \<notin> set bs \<Longrightarrow> takeWhile (\<lambda>c. c \<noteq> (0::byte)) (bs @ [0]) = bs"
  by (induction bs) auto

text \<open>C38: \<open>_vsnprintf\<close> agrees with the buffer-free reference: given a buffer of at least \<open>n > 0\<close> bytes it
  returns the full length of the rendering, stores exactly the rendered cells below \<open>n - 1\<close>, ends the
  text with a zero byte and leaves every byte from \<open>n\<close> on as it was.  A \<open>%c\<close> has to fit the buffer.
\<close>

theorem vsnprintf_renders:
  assumes "render False False s vl = Some cs" "uses_c False s \<longrightarrow> length cs \<le> n" "n \<le> length b" "0 < n"
  shows "\<exists>b'. vsnprintf (Some b) n s vl = Some (Some b', length cs)
     \<and> length b' = length b
     \<and> b' ! min (length cs) (n - 1) = 0
     \<and> (\<forall>i. i < length cs \<longrightarrow> i < n - 1 \<longrightarrow> b' ! i = (case cs ! i of Some c \<Rightarrow> c | None \<Rightarrow> b ! i))
     \<and> (\<forall>i. n \<le> i \<longrightarrow> i < length b \<longrightarrow> b' ! i = b ! i)"
  using render_ok_vsnprintf[OF assms] assms(3,4)
  by (auto simp: lay_def nth_list_update min_def split: option.splits)

text \<open>The format \<open>a=%d\<close> with the argument \<open>-27\<close> in a buffer of six bytes of which four may be used.\<close>

theorem vsnprintf_renders_witness:
  "\<exists>b'. vsnprintf (Some [1, 1, 1, 1, 1, 1]) 4 [97, 61, 37, 100] [VInt (- 27)] = Some (Some b', 5)
     \<and> b' ! 2 = 45 \<and> b' ! 3 = 0 \<and> b' ! 5 = 1"
proof -
  have i: "int_str (- 27) = [45, 50, 55]"
    by (simp add: int_str_def dec_str.simps)
  have s: "signed_take_bit 31 (- 27) = (- 27 :: int)" by (simp add: signed_take_bit_int_eq_self)
  have r: "render False False [97, 61, 37, 100] [VInt (- 27)] = Some (map Some [97, 61, 45, 50, 55])"
    by (simp add: conv_def i s)
  have u: "\<not> uses_c False [97, 61, 37, 100]" by simp
  obtain b' where b: "vsnprintf (Some [1, 1, 1, 1, 1, 1]) 4 [97, 61, 37, 100] [VInt (- 27)] = Some (Some b', 5)"
      "b' ! 3 = 0" "b' ! 2 = 45" "\<forall>i. 4 \<le> i \<longrightarrow> i < 6 \<longrightarrow> b' ! i = [1, 1, 1, 1, 1, 1] ! i"
    using vsnprintf_renders[OF r, of 4 "[1, 1, 1, 1, 1, 1]"] u by (auto simp: numeral_3_eq_3)
  from b(4)[rule_format, of 5] have "b' ! 5 = 1" by simp
  with b show ?thesis by blast
qed

text \<open>\<open>klib::format\<close>, which measures with a null buffer and then prints into exactly \<open>size + 1\<close> bytes,
  returns the rendering of its format, whatever the allocated bytes held, provided the text is not
  empty, has no zero byte and the format has no \<open>%c\<close>.
\<close>

theorem format_renders:
  assumes "render False False s vl = Some (map Some bs)" "\<not> uses_c False s" "0 \<notin> set bs" "bs \<noteq> []"
    "length bs + 1 < 2 ^ 64" "\<And>k. length (fresh k) = k"
  shows "format fresh s vl = Some bs"
proof -
  have a: "add64 (2 ^ 64 - 1) 1 = 0" "add64 (length bs) 1 = length bs + 1"
    using assms(5) by (simp_all add: add64_def)
  have m: "snprintf None (2 ^ 64 - 1) s vl = Some (None, length bs)"
    using render_ok_measure[OF assms(1,2), of 0] a(1) by (simp only: snprintf_def) simp
  have p: "snprintf (Some (fresh (length bs + 1))) (length bs) s vl = Some (Some (bs @ [0]), length bs)"
    using render_ok_vsnprintf[OF assms(1), of "length bs + 1" "fresh (length bs + 1)"] assms(2,6)
      lay_all[of "fresh (length bs + 1)" bs] a(2)
    by (simp add: snprintf_def)
  show ?thesis
    unfolding format_def m using assms(3,4) p takeWhile_nz[OF assms(3)] by simp
qed

theorem format_renders_witness:
  "format (\<lambda>k. replicate k 7) [37, 115, 33] [VStr [104, 105]] = Some [104, 105, 33]"
  by (rule format_renders) (simp_all add: conv_def)

text \<open>The measuring pass of \<open>klib::format\<close> does not read the argument of a \<open>%c\<close>, so a \<open>%s\<close> after it is
  given the character as its string pointer: every call with the format \<open>%c%s\<close> fails.
\<close>

theorem format_char_misreads: "format fresh [37, 99, 37, 115] [VInt c, VStr t] = None"
  by (simp add: format_def snprintf_def vsnprintf_def vsn_char_def vsn_chr_def vsn_str_def)

subsection \<open>Strings in memory\<close>

primrec cstr :: "memory \<Rightarrow> nat \<Rightarrow> byte list \<Rightarrow> bool" where
  "cstr m p [] \<longleftrightarrow> rd m p = Some 0"
| "cstr m p (x # xs) \<longleftrightarrow> rd m p = Some x \<and> x \<noteq> 0 \<and> cstr m (p + 1) xs"

lemma strlen_cstr: "cstr m p xs \<Longrightarrow> strlen m p = Some (length xs)"
proof -
  have "cstr m p xs \<Longrightarrow> strlen_loop m p k = Some (k + length xs)" for k
    by (induction xs arbitrary: p k) (subst strlen_loop.simps, simp)+
  then show "cstr m p xs \<Longrightarrow> strlen m p = Some (length xs)" by (simp add: strlen_def)
qed

lemma strcmp_cstr:
  "cstr m p xs \<Longrightarrow> cstr m q ys \<Longrightarrow>
   strcmp m p q = Some (if xs = ys then 0 else if xs < ys then - 1 else 1)"
proof (induction xs arbitrary: p q ys)
  case Nil
  then show ?case by (cases ys) (subst strcmp.simps, auto simp: word_gt_0)+
next
  case (Cons x xs)
  then show ?case by (cases ys) (subst strcmp.simps, auto)+
qed

text \<open>The lower-case form of a letter.\<close>

definition lower :: "byte \<Rightarrow> byte" where
  "lower c = (if 65 \<le> c \<and> c \<le> 90 then c + 32 else c)"

lemma same_amb_lower: "same_amb a b \<longleftrightarrow> lower a = lower b"
proof -
  have n: "uint c < 256" for c :: byte using uint_lt2p[of c] by simp
  have add: "65 \<le> c \<Longrightarrow> c \<le> 90 \<Longrightarrow> uint (c + 32) = uint c + 32" for c :: byte
    by (simp add: word_le_def uint_word_ariths)
  show ?thesis
    unfolding same_amb_def lower_def word_le_def word_uint_eq_iff
    using n[of a] n[of b] add[of a, unfolded word_le_def] add[of b, unfolded word_le_def]
    by (auto simp: word_uint_eq_iff)
qed

lemma lower_zero [simp]: "lower 0 = 0"
  by (simp add: lower_def)

lemma lower_0 [simp]: "lower c = 0 \<longleftrightarrow> c = 0" "0 = lower c \<longleftrightarrow> c = 0"
  using same_amb_lower[of c 0] same_amb_lower[of 0 c] by (auto simp: same_amb_def word_le_def lower_def)

lemma strncmp_loop_amb:
  "cstr m p xs \<Longrightarrow> cstr m q ys \<Longrightarrow> cnt \<le> n \<Longrightarrow>
   (strncmp_loop same_amb m p q n cnt = Some 0 \<longleftrightarrow>
      map lower (take (Suc n - cnt) xs) = map lower (take (Suc n - cnt) ys))
   \<and> strncmp_loop same_amb m p q n cnt \<noteq> None"
proof (induction xs arbitrary: p q ys cnt)
  case Nil
  then show ?case
    by (cases ys; subst (1 2) strncmp_loop.simps) (auto simp: same_amb_lower Suc_diff_le)
next
  case (Cons x xs)
  then show ?case
  proof (cases ys)
    case Nil
    with Cons.prems show ?thesis
      by (subst (1 2) strncmp_loop.simps) (auto simp: same_amb_lower Suc_diff_le)
  next
    case (Cons y zs)
    show ?thesis
    proof (cases "cnt = n")
      case True
      with Cons Cons.prems show ?thesis
        by (subst (1 2) strncmp_loop.simps) (auto simp: same_amb_lower Suc_diff_le)
    next
      case False
      with Cons Cons.prems Cons.IH[of "p + 1" "q + 1" zs "cnt + 1"] show ?thesis
        by (subst (1 2) strncmp_loop.simps) (auto simp: same_amb_lower[of x y] Suc_diff_le)
    qed
  qed
qed

text \<open>\<open>strncmpamb\<close>, the comparison the FAT directory lookup uses, returns on any two strings and
  returns 0 exactly when their first \<open>n\<close> characters agree up to the case of letters.
\<close>

theorem strncmpamb_zero:
  assumes "cstr m p xs" "cstr m q ys"
  shows "strncmpamb m p q n \<noteq> None
     \<and> (strncmpamb m p q n = Some 0 \<longleftrightarrow> map lower (take n xs) = map lower (take n ys))"
  using strncmp_loop_amb[OF assms, of 1 n] by (auto simp: strncmpamb_def)

text \<open>\<open>aB\<close> and \<open>Abc\<close> agree on two characters and differ on three.\<close>

theorem strncmpamb_zero_witness:
  "strncmpamb [97, 66, 0, 65, 98, 99, 0] 0 3 2 = Some 0
   \<and> strncmpamb [97, 66, 0, 65, 98, 99, 0] 0 3 3 \<noteq> Some 0"
proof -
  have "cstr [97, 66, 0, 65, 98, 99, 0] 0 [97, 66]" "cstr [97, 66, 0, 65, 98, 99, 0] 3 [65, 98, 99]"
    by (simp_all add: rd_def)
  from strncmpamb_zero[OF this, of 2] strncmpamb_zero[OF this, of 3] show ?thesis
    by (simp add: lower_def)
qed

subsection \<open>Block copies\<close>

definition blit :: "memory \<Rightarrow> nat \<Rightarrow> nat \<Rightarrow> nat \<Rightarrow> memory" where
  "blit m dst src n = map (\<lambda>i. if dst \<le> i \<and> i < dst + n then m ! (src + (i - dst)) else m ! i) [0..<length m]"

lemma memmove_loop_blit:
  assumes "src + n \<le> length m" "dst + n \<le> length m" "src \<le> dst \<or> dst + n \<le> src" "k \<le> n"
    "length x = length m" "\<And>i. i < length m \<Longrightarrow> x ! i = (if dst + k \<le> i \<and> i < dst + n then m ! (src + (i - dst)) else m ! i)"
  shows "memmove_loop k x dst src = Some (blit m dst src n)"
  using assms(4-)
proof (induction k arbitrary: x)
  case 0
  then show ?case by (auto simp: blit_def intro!: nth_equalityI)
next
  case (Suc k)
  have "x ! (src + k) = m ! (src + k)" using Suc.prems assms(1-3) by auto
  moreover have "memmove_loop k (x[dst + k := m ! (src + k)]) dst src = Some (blit m dst src n)"
    using Suc.prems assms(1,2) by (intro Suc.IH) (auto simp: nth_list_update less_Suc_eq_le le_eq_less_or_eq)
  ultimately show ?case using Suc.prems assms(1,2) by (simp add: rd_def wr_def)
qed

lemma memmove_blit:
  assumes "src + n \<le> length m" "dst + n \<le> length m" "src \<le> dst \<or> dst + n \<le> src"
  shows "memmove m dst src n = Some (blit m dst src n)"
proof (cases "n = 0")
  case True
  then show ?thesis by (auto simp: memmove_def blit_def intro!: nth_equalityI)
next
  case False
  then show ?thesis by (simp add: memmove_def, intro memmove_loop_blit[OF assms]) auto
qed

lemma memcpy_loop_blit:
  assumes "src + n \<le> length m" "dst + n \<le> length m" "dst \<le> src \<or> src + n \<le> dst" "k \<le> n"
    "length x = length m" "\<And>i. i < length m \<Longrightarrow> x ! i = (if dst \<le> i \<and> i < dst + (n - k) then m ! (src + (i - dst)) else m ! i)"
  shows "memcpy_loop k x (dst + (n - k)) (src + (n - k)) = Some (blit m dst src n)"
  using assms(4-)
proof (induction k arbitrary: x)
  case 0
  then show ?case by (auto simp: blit_def intro!: nth_equalityI)
next
  case (Suc k)
  let ?o = "n - Suc k"
  have o: "n - k = Suc ?o" using Suc.prems(1) by simp
  have "x ! (src + ?o) = m ! (src + ?o)" using Suc.prems assms(1-3) by auto
  moreover have "memcpy_loop k (x[dst + ?o := m ! (src + ?o)]) (dst + (n - k)) (src + (n - k)) = Some (blit m dst src n)"
    using Suc.prems assms(1,2) by (intro Suc.IH) (auto simp: nth_list_update o less_Suc_eq)
  moreover have "src + ?o < length x" "dst + ?o < length x" using Suc.prems(1,2) assms(1,2) by auto
  ultimately show ?case by (simp add: rd_def wr_def o)
qed

lemma memcpy_blit:
  assumes "src + n \<le> length m" "dst + n \<le> length m" "dst \<le> src \<or> src + n \<le> dst"
  shows "memcpy m dst src n = Some (blit m dst src n)"
proof -
  have "memcpy_loop n m (dst + (n - n)) (src + (n - n)) = Some (blit m dst src n)"
    by (rule memcpy_loop_blit[OF assms]) auto
  then show ?thesis by (simp add: memcpy_def)
qed

text \<open>\<open>memmove\<close> copies a block inside the memory to any destination that does not start below an
  overlapping source, and \<open>memcpy\<close> to any destination that does not end above an overlapping one:
  the destination then holds the old bytes of the source and no other byte changes.
\<close>

theorem block_copies:
  assumes "src + n \<le> length m" "dst + n \<le> length m"
  shows "(src \<le> dst \<or> dst + n \<le> src \<longrightarrow> memmove m dst src n = Some (blit m dst src n))
     \<and> (dst \<le> src \<or> src + n \<le> dst \<longrightarrow> memcpy m dst src n = Some (blit m dst src n))"
  using memmove_blit[OF assms] memcpy_blit[OF assms] by blast

theorem block_copies_witness:
  "memmove [1, 2, 3, 4] 1 0 3 = Some [1, 1, 2, 3] \<and> memcpy [1, 2, 3, 4] 0 1 3 = Some [2, 3, 4, 4]"
  using block_copies[of 0 3 "[1, 2, 3, 4]" 1] block_copies[of 1 3 "[1, 2, 3, 4]" 0]
  by (simp add: blit_def upt_rec numeral_eq_Suc)

text \<open>\<open>memmove\<close> always copies from the last byte down, so moving an overlapping block to a lower address
  destroys it: the move of two bytes down by one doubles the second.
\<close>

theorem memmove_down_overlap: "memmove [a, b, c] 0 1 2 = Some [c, c, c]"
  by (simp add: memmove_def rd_def wr_def numeral_eq_Suc)

end
