(* ===== verification/Sched.thy ===== *)
theory Sched
  imports Klib
begin

text \<open>
  The scheduler of \<open>include/sched.hh\<close> and \<open>kernel/sched.cc\<close>.  A task is named by a number that stands for
  its address; the scheduling fields of all tasks are a map from these numbers.  The state also holds
  the current task of the two harts and the pending timer interrupt that requests an early switch.
\<close>

datatype State = Init | Ready | Running | Pending | Zombie

record Scheduable =
  sc_prior :: nat
  sc_state :: State

definition maxPrior :: nat where
  "maxPrior = 1"

record Scheduler =
  ready :: "nat list list"
  pending :: "nat set"
  objs :: "nat \<Rightarrow> Scheduable option"
  curtask :: "nat option"
  curtask1 :: "nat option"
  stip :: bool

definition Scheduler_init :: Scheduler where
  "Scheduler_init =
     \<lparr>ready = replicate (maxPrior + 1) [], pending = {}, objs = Map.empty, curtask = None, curtask1 = None,
      stip = False\<rparr>"

text \<open>The priority of the current task, where there is one.\<close>

definition cur_prior :: "Scheduler \<Rightarrow> nat option" where
  "cur_prior s = do { c \<leftarrow> curtask s; t \<leftarrow> objs s c; Some (sc_prior t) }"

definition sched_add :: "nat \<Rightarrow> Scheduler \<Rightarrow> Scheduler option" where
  "sched_add task s =
     do { t \<leftarrow> objs s task;
          if sc_state t = Zombie \<or> sc_state t = Pending then Some s
          else do { q \<leftarrow> rd (ready s) (sc_prior t);
                    qs \<leftarrow> wr (ready s) (sc_prior t) (q @ [task]);
                    Some (s\<lparr>ready := qs,
                            stip := (stip s \<or> (case cur_prior s of None \<Rightarrow> False | Some p \<Rightarrow> p > sc_prior t))\<rparr>) } }"

text \<open>The search of \<open>Scheduler::next\<close> from priority \<open>i\<close> on.\<close>

fun pick :: "nat list list \<Rightarrow> (nat \<times> nat list list) option" where
  "pick [] = None"
| "pick ([] # qs) = map_option (\<lambda>(t, qs'). (t, [] # qs')) (pick qs)"
| "pick ((t # q) # qs) = Some (t, q # qs)"

definition sched_next :: "nat option \<Rightarrow> Scheduler \<Rightarrow> (nat option \<times> Scheduler) option" where
  "sched_next prev s =
     do { s \<leftarrow> (case prev of None \<Rightarrow> Some s | Some t \<Rightarrow> sched_add t s);
          case pick (ready s) of
            None \<Rightarrow> Some (None, s)
          | Some (t, qs) \<Rightarrow> Some (Some t, s\<lparr>ready := qs\<rparr>) }"

definition sched_sleep :: "nat \<Rightarrow> Scheduler \<Rightarrow> Scheduler option" where
  "sched_sleep task s =
     do { t \<leftarrow> objs s task;
          q \<leftarrow> rd (ready s) (sc_prior t);
          ensure (sc_state t \<noteq> Pending);
          qs \<leftarrow> wr (ready s) (sc_prior t) (removeAll task q);
          Some (s\<lparr>objs := (objs s)(task \<mapsto> t\<lparr>sc_state := Pending\<rparr>), ready := qs,
                  pending := insert task (pending s)\<rparr>) }"

definition wakeup :: "nat \<Rightarrow> Scheduler \<Rightarrow> Scheduler option" where
  "wakeup task s =
     do { t \<leftarrow> objs s task;
          if sc_state t \<noteq> Pending then Some s
          else sched_add task (s\<lparr>pending := pending s - {task}, objs := (objs s)(task \<mapsto> t\<lparr>sc_state := Ready\<rparr>)\<rparr>) }"

definition sched_remove :: "nat \<Rightarrow> Scheduler \<Rightarrow> Scheduler option" where
  "sched_remove task s =
     do { t \<leftarrow> objs s task;
          q \<leftarrow> rd (ready s) (sc_prior t);
          qs \<leftarrow> wr (ready s) (sc_prior t) (removeAll task q);
          Some (s\<lparr>pending := insert task (pending s), ready := qs\<rparr>) }"

text \<open>
  \<open>schedule\<close> with the switch of \<open>Task::switchTo\<close>: the dereference of a null task and the assertion that
  the harts run different tasks are failures.  The processor context it saves and restores is not part
  of this state.
\<close>

definition schedule :: "Scheduler \<Rightarrow> Scheduler option" where
  "schedule s =
     do { (n, s) \<leftarrow> sched_next (curtask s) s;
          t \<leftarrow> n;
          let s = s\<lparr>curtask := Some t\<rparr>;
          ensure (curtask s \<noteq> curtask1 s);
          Some s }"

text \<open>\<open>kernel::yield\<close> and \<open>kernel::sleep\<close> (with \<open>Task::sleep\<close>) of the current task.\<close>

definition kernel_yield :: "Scheduler \<Rightarrow> Scheduler option" where
  "kernel_yield s = schedule s"

definition kernel_sleep :: "Scheduler \<Rightarrow> Scheduler option" where
  "kernel_sleep s =
     do { c \<leftarrow> curtask s;
          s \<leftarrow> sched_sleep c s;
          kernel_yield s }"

text \<open>A task that has just been created (its constructor leaves it in \<open>Init\<close>) and is handed to the scheduler.\<close>

definition new_task :: "nat \<Rightarrow> nat \<Rightarrow> Scheduler \<Rightarrow> Scheduler option" where
  "new_task task p s = sched_add task (s\<lparr>objs := (objs s)(task \<mapsto> \<lparr>sc_prior = p, sc_state = Init\<rparr>)\<rparr>)"

text \<open>
  The start of hart 0: the idle task is created, which queues it, and is made the current task while it
  is still in the queue.
\<close>

definition boot :: "nat \<Rightarrow> Scheduler \<Rightarrow> Scheduler option" where
  "boot kidle s = do { s \<leftarrow> new_task kidle maxPrior s; Some (s\<lparr>curtask := Some kidle\<rparr>) }"

text \<open>The scheduling part of \<open>Task::exit\<close>: the current task becomes a zombie, leaves the queues and yields.\<close>

definition task_exit :: "Scheduler \<Rightarrow> Scheduler option" where
  "task_exit s =
     do { c \<leftarrow> curtask s;
          t \<leftarrow> objs s c;
          s \<leftarrow> sched_remove c (s\<lparr>objs := (objs s)(c \<mapsto> t\<lparr>sc_state := Zombie\<rparr>)\<rparr>);
          kernel_yield s }"

end
