(* ===== verification/Lock.thy ===== *)
theory Lock
  imports Sched
begin

text \<open>
  The locks of \<open>include/lock.hh\<close> and \<open>kernel/lock.cc\<close>: the spin lock with its two compare-and-exchange
  operations, the semaphore and the condition variable on top of the scheduler.
\<close>

subsection \<open>Spin locks\<close>

record spinlock =
  spin :: nat
  sl_count :: int

definition spinlock_init :: spinlock where
  "spinlock_init = \<lparr>spin = 0, sl_count = 0\<rparr>"

text \<open>
  \<open>compare_exchange_strong\<close>: on a failure the value found is stored into the first argument, which is
  returned here.
\<close>

definition cas :: "nat \<Rightarrow> nat \<Rightarrow> spinlock \<Rightarrow> bool \<times> nat \<times> spinlock" where
  "cas expected desired l =
     (if spin l = expected then (True, expected, l\<lparr>spin := desired\<rparr>) else (False, spin l, l))"

text \<open>
  One iteration of the loop of \<open>lock()\<close>: it returns the flag \<open>b\<close> (still waiting), the variable \<open>lockedby\<close>, to which the second exchange is given as
  its expected value, and the lock.
\<close>

definition spin_iter :: "bool \<Rightarrow> nat \<Rightarrow> spinlock \<Rightarrow> bool \<times> nat \<times> spinlock" where
  "spin_iter reentrantable lockedby l =
     (let (ok, _, l) = cas 0 lockedby l; b = \<not> ok
      in if reentrantable \<and> b
         then let (ok, lockedby, l) = cas lockedby lockedby l in (\<not> ok, lockedby, l)
         else (b, lockedby, l))"

fun spin_loop :: "bool \<Rightarrow> nat \<Rightarrow> nat \<Rightarrow> spinlock \<Rightarrow> bool \<times> spinlock" where
  "spin_loop reentrantable 0 lockedby l = (True, l)"
| "spin_loop reentrantable (Suc n) lockedby l =
     (let (b, lockedby, l) = spin_iter reentrantable lockedby l
      in if b then spin_loop reentrantable n lockedby l else (False, l))"

text \<open>
  \<open>lock()\<close> with a bound on its iterations (\<open>maxloops\<close>): the result says whether the lock was taken.
  With the default bound an exhausted loop starts again, so a caller that is refused here keeps spinning.
\<close>

definition spin_lock :: "bool \<Rightarrow> nat \<Rightarrow> nat \<Rightarrow> spinlock \<Rightarrow> bool \<times> spinlock" where
  "spin_lock reentrantable maxloops threadId l =
     (let lockedby = (if reentrantable then threadId else 1);
          (b, l) = spin_loop reentrantable maxloops lockedby l
      in if b then (False, l)
         else (True, if reentrantable then l\<lparr>sl_count := sl_count l + 1\<rparr> else l))"

definition spin_unlock :: "bool \<Rightarrow> spinlock \<Rightarrow> spinlock" where
  "spin_unlock reentrantable l =
     (if \<not> reentrantable then l\<lparr>spin := 0\<rparr>
      else let l = l\<lparr>sl_count := sl_count l - 1\<rparr>
           in if sl_count l = 0 then l\<lparr>spin := 0\<rparr> else l)"

definition kthreadIdBase :: nat where
  "kthreadIdBase = 0x80000000"

definition threadId :: "nat \<Rightarrow> nat" where
  "threadId hart = kthreadIdBase + hart"

subsection \<open>Semaphores\<close>

record Semaphore =
  sem_count :: int
  sem_waiting :: "nat list"

definition Semaphore_init :: "int \<Rightarrow> Semaphore" where
  "Semaphore_init i = \<lparr>sem_count = i, sem_waiting = []\<rparr>"

text \<open>
  One run of the loop of \<open>req()\<close> by the current task: it takes the semaphore (\<open>True\<close>), or it queues itself
  and sleeps (\<open>False\<close>) and runs the loop again when it is scheduled next.
\<close>

definition Semaphore_req :: "Semaphore \<Rightarrow> Scheduler \<Rightarrow> (bool \<times> Semaphore \<times> Scheduler) option" where
  "Semaphore_req sem s =
     (if sem_count sem = 0
      then do { c \<leftarrow> curtask s;
                s \<leftarrow> kernel_sleep s;
                Some (False, sem\<lparr>sem_waiting := sem_waiting sem @ [c]\<rparr>, s) }
      else Some (True, sem\<lparr>sem_count := sem_count sem - 1\<rparr>, s))"

definition Semaphore_rel :: "Semaphore \<Rightarrow> Scheduler \<Rightarrow> (Semaphore \<times> Scheduler) option" where
  "Semaphore_rel sem s =
     (let sem = sem\<lparr>sem_count := sem_count sem + 1\<rparr>
      in case sem_waiting sem of
           [] \<Rightarrow> Some (sem, s)
         | t # ts \<Rightarrow> do { s \<leftarrow> wakeup t s; Some (sem\<lparr>sem_waiting := ts\<rparr>, s) })"

subsection \<open>Condition variables\<close>

type_synonym condition_variable = "nat list"

definition notify_one :: "condition_variable \<Rightarrow> Scheduler \<Rightarrow> (condition_variable \<times> Scheduler) option" where
  "notify_one waiting s =
     (case waiting of
        [] \<Rightarrow> Some (waiting, s)
      | t # ts \<Rightarrow> do { s \<leftarrow> wakeup t s; Some (ts, s) })"

definition notify_specific :: "nat \<Rightarrow> condition_variable \<Rightarrow> Scheduler \<Rightarrow> (condition_variable \<times> Scheduler) option" where
  "notify_specific task waiting s = do { s \<leftarrow> wakeup task s; Some (removeAll task waiting, s) }"

fun wakeup_list :: "nat list \<Rightarrow> Scheduler \<Rightarrow> Scheduler option" where
  "wakeup_list [] s = Some s"
| "wakeup_list (t # ts) s = do { s \<leftarrow> wakeup t s; wakeup_list ts s }"

definition notify_all :: "condition_variable \<Rightarrow> Scheduler \<Rightarrow> (condition_variable \<times> Scheduler) option" where
  "notify_all waiting s = do { s \<leftarrow> wakeup_list waiting s; Some ([], s) }"

definition cv_wait :: "condition_variable \<Rightarrow> Scheduler \<Rightarrow> (condition_variable \<times> Scheduler) option" where
  "cv_wait waiting s =
     do { c \<leftarrow> curtask s;
          s \<leftarrow> kernel_sleep s;
          Some (waiting @ [c], s) }"

definition waiters :: "condition_variable \<Rightarrow> nat" where
  "waiters waiting = length waiting"

end
