(* ===== verification/SchedSpec.thy ===== *)
theory SchedSpec
  imports Sched
begin

text \<open>
  Correctness of the scheduler: the invariant of its queues over every reachable state, progress of the
  switch and round-robin fairness among the tasks of the first priority.
\<close>

subsection \<open>The invariant\<close>

definition runnable :: "Scheduable \<Rightarrow> bool" where
  "runnable t \<longleftrightarrow> sc_state t \<noteq> Pending \<and> sc_state t \<noteq> Zombie"

definition run :: "Scheduler \<Rightarrow> nat \<Rightarrow> nat \<Rightarrow> bool" where
  "run s p t \<longleftrightarrow> (\<exists>x. objs s t = Some x \<and> sc_prior x = p \<and> runnable x)"

text \<open>
  What holds between the steps of a switch, with the two queues named: tasks of the first queue are
  queued once, queued tasks can run and have the priority of their queue, and no task that can run is
  outside both the queues and the hart.
\<close>

definition queues :: "Scheduler \<Rightarrow> nat list \<Rightarrow> nat list \<Rightarrow> bool" where
  "queues s q0 q1 \<longleftrightarrow>
     ready s = [q0, q1] \<and> distinct q0 \<and> curtask1 s = None
     \<and> (\<forall>t \<in> set q0. run s 0 t) \<and> (\<forall>t \<in> set q1. run s 1 t)
     \<and> (\<forall>t x. objs s t = Some x \<longrightarrow> sc_prior x \<le> 1
           \<and> (sc_state x = Pending \<longrightarrow> t \<in> pending s)
           \<and> (runnable x \<longrightarrow> curtask s = Some t \<or> t \<in> set q0 \<or> t \<in> set q1))
     \<and> (\<forall>c. curtask s = Some c \<longrightarrow> (\<exists>x. objs s c = Some x) \<and> c \<notin> set q0)"

definition sched_inv :: "Scheduler \<Rightarrow> bool" where
  "sched_inv s \<longleftrightarrow>
     (\<exists>q0 q1. queues s q0 q1) \<and> (\<forall>c. curtask s = Some c \<longrightarrow> run s 0 c \<or> run s 1 c)"

lemma runnable_simps [simp]:
  "runnable \<lparr>sc_prior = p, sc_state = Init\<rparr>" "runnable (t\<lparr>sc_state := Ready\<rparr>)"
  "\<not> runnable (t\<lparr>sc_state := Pending\<rparr>)" "\<not> runnable (t\<lparr>sc_state := Zombie\<rparr>)"
  by (simp_all add: runnable_def)

lemma run_upd [simp]:
  "run (s\<lparr>ready := q\<rparr>) p t = run s p t" "run (s\<lparr>curtask := c\<rparr>) p t = run s p t"
  "run (s\<lparr>stip := b\<rparr>) p t = run s p t" "run (s\<lparr>pending := P\<rparr>) p t = run s p t"
  by (simp_all add: run_def)

definition queue_up :: "nat \<Rightarrow> nat \<Rightarrow> nat list \<Rightarrow> nat list \<Rightarrow> nat list list" where
  "queue_up p t q0 q1 = (if p = 0 then [q0 @ [t], q1] else [q0, q1 @ [t]])"

lemma sched_add_eq:
  assumes "ready s = [q0, q1]" "objs s t = Some x" "sc_prior x \<le> 1"
  shows "\<exists>b. sched_add t s =
     Some (if runnable x then s\<lparr>ready := queue_up (sc_prior x) t q0 q1, stip := b\<rparr> else s)"
proof -
  from assms(3) consider "sc_prior x = 0" | "sc_prior x = 1" by linarith
  then show ?thesis
    by cases (use assms(1,2) in \<open>auto simp: sched_add_def runnable_def queue_up_def rd_def wr_def\<close>)
qed

lemma pick_two:
  "pick [q0, q1] = (case q0 of t # r \<Rightarrow> Some (t, [r, q1])
                   | [] \<Rightarrow> (case q1 of t # r \<Rightarrow> Some (t, [[], r]) | [] \<Rightarrow> None))"
  by (cases q0; cases q1) simp_all

text \<open>The queues a switch selects from: those of the state with the current task put back.\<close>

definition requeue :: "Scheduler \<Rightarrow> nat list \<Rightarrow> nat list \<Rightarrow> nat list \<times> nat list" where
  "requeue s q0 q1 =
     (case curtask s of
        None \<Rightarrow> (q0, q1)
      | Some c \<Rightarrow> if run s 0 c then (q0 @ [c], q1) else if run s 1 c then (q0, q1 @ [c]) else (q0, q1))"

lemma schedule_eq:
  assumes "queues s q0 q1" "requeue s q0 q1 = (a0, a1)"
  shows "\<exists>b. schedule s =
     (case a0 of t # r \<Rightarrow> Some (s\<lparr>ready := [r, a1], stip := b, curtask := Some t\<rparr>)
      | [] \<Rightarrow> (case a1 of t # r \<Rightarrow> Some (s\<lparr>ready := [[], r], stip := b, curtask := Some t\<rparr>) | [] \<Rightarrow> None))"
proof -
  have r: "ready s = [q0, q1]" "curtask1 s = None" using assms(1) by (auto simp: queues_def)
  obtain b where "(case curtask s of None \<Rightarrow> Some s | Some t \<Rightarrow> sched_add t s) = Some (s\<lparr>ready := [a0, a1], stip := b\<rparr>)"
  proof (cases "curtask s")
    case None
    then show thesis using that[of "stip s"] assms(2) r by (simp add: requeue_def)
  next
    case (Some c)
    then obtain x where x: "objs s c = Some x" "sc_prior x \<le> 1" using assms(1) by (auto simp: queues_def)
    from sched_add_eq[OF r(1) x] obtain b where
      "sched_add c s = Some (if runnable x then s\<lparr>ready := queue_up (sc_prior x) c q0 q1, stip := b\<rparr> else s)" ..
    then show thesis using that[of "if runnable x then b else stip s"] assms(2) r x Some
      by (auto simp: requeue_def run_def queue_up_def split: if_splits)
  qed
  then show ?thesis
    by (intro exI[of _ b])
       (auto simp: schedule_def sched_next_def pick_two r(2) split: list.splits)
qed

definition switched :: "Scheduler \<Rightarrow> nat \<Rightarrow> nat list \<Rightarrow> nat list \<Rightarrow> Scheduler \<Rightarrow> bool" where
  "switched s t r0 r1 s' \<longleftrightarrow> (\<exists>b. s' = s\<lparr>ready := [r0, r1], stip := b, curtask := Some t\<rparr>)"

lemma schedule_cases:
  assumes "queues s q0 q1" "requeue s q0 q1 = (a0, a1)"
  obtains (first) t r s' where "a0 = t # r" "schedule s = Some s'" "switched s t r a1 s'"
  | (second) t r s' where "a0 = []" "a1 = t # r" "schedule s = Some s'" "switched s t [] r s'"
  | (none) "a0 = []" "a1 = []" "schedule s = None"
proof (cases a0)
  case (Cons t r)
  obtain b where "schedule s = Some (s\<lparr>ready := [r, a1], stip := b, curtask := Some t\<rparr>)"
    using schedule_eq[OF assms] Cons by auto
  then show thesis using first[OF Cons] unfolding switched_def by blast
next
  case a0: Nil
  show thesis
  proof (cases a1)
    case (Cons t r)
    obtain b where "schedule s = Some (s\<lparr>ready := [[], r], stip := b, curtask := Some t\<rparr>)"
      using schedule_eq[OF assms] Cons a0 by auto
    then show thesis using second[OF a0 Cons] unfolding switched_def by blast
  next
    case Nil
    then show thesis using none a0 schedule_eq[OF assms] by auto
  qed
qed

lemma requeue_run:
  assumes "queues s q0 q1" "requeue s q0 q1 = (a0, a1)"
  shows "distinct a0" "\<And>t. t \<in> set a0 \<Longrightarrow> run s 0 t" "\<And>t. t \<in> set a1 \<Longrightarrow> run s 1 t"
    "\<And>t x. objs s t = Some x \<Longrightarrow> runnable x \<Longrightarrow> t \<in> set a0 \<or> t \<in> set a1"
proof -
  have q: "distinct q0" "\<And>t. t \<in> set q0 \<Longrightarrow> run s 0 t" "\<And>t. t \<in> set q1 \<Longrightarrow> run s 1 t"
      "\<And>t x. objs s t = Some x \<Longrightarrow> runnable x \<Longrightarrow> curtask s = Some t \<or> t \<in> set q0 \<or> t \<in> set q1"
      "\<And>t x. objs s t = Some x \<Longrightarrow> sc_prior x \<le> 1" "\<And>c. curtask s = Some c \<Longrightarrow> c \<notin> set q0"
    using assms(1) by (auto simp: queues_def)
  have ca: "a0 = q0 \<and> a1 = q1 \<and> (\<forall>c. curtask s = Some c \<longrightarrow> \<not> run s 0 c \<and> \<not> run s 1 c)
      \<or> (\<exists>c. curtask s = Some c \<and> (a0 = q0 @ [c] \<and> a1 = q1 \<and> run s 0 c \<or> a0 = q0 \<and> a1 = q1 @ [c] \<and> run s 1 c))"
    using assms(2) by (auto simp: requeue_def split: option.splits if_splits)
  show "distinct a0" using ca q(1,6) by auto
  show "run s 0 t" if "t \<in> set a0" for t using that ca q(2)[of t] by auto
  show "run s 1 t" if "t \<in> set a1" for t using that ca q(3)[of t] by auto
  show "t \<in> set a0 \<or> t \<in> set a1" if "objs s t = Some x" "runnable x" for t x
  proof -
    have "run s 0 t \<or> run s 1 t" using that q(5)[OF that(1)] by (auto simp: run_def)
    with ca q(4)[OF that] show ?thesis by auto
  qed
qed

lemma run_unique: "run s p t \<Longrightarrow> run s q t \<Longrightarrow> p = q"
  by (auto simp: run_def)

lemma schedule_inv:
  assumes "queues s q0 q1" "schedule s = Some s'"
  shows "sched_inv s'"
proof -
  obtain a0 a1 where a: "requeue s q0 q1 = (a0, a1)" by fastforce
  note r = requeue_run[OF assms(1) a]
  have base: "curtask1 s = None"
      "\<And>t x. objs s t = Some x \<Longrightarrow> sc_prior x \<le> 1 \<and> (sc_state x = Pending \<longrightarrow> t \<in> pending s)"
    using assms(1) by (auto simp: queues_def)
  from schedule_cases[OF assms(1) a] obtain t r0 r1 where
    sw: "switched s t r0 r1 s'" and c: "a0 = t # r0 \<and> a1 = r1 \<or> a0 = [] \<and> r0 = [] \<and> a1 = t # r1"
    using assms(2) by cases auto
  from sw obtain b where s': "s' = s\<lparr>ready := [r0, r1], stip := b, curtask := Some t\<rparr>"
    by (auto simp: switched_def)
  have "run s 0 t \<or> run s 1 t" using c r(2)[of t] r(3)[of t] by auto
  moreover have "queues s' r0 r1"
    unfolding queues_def
  proof (intro conjI allI ballI impI)
    show "distinct r0" using c r(1) by auto
    show "run s' 0 u" if "u \<in> set r0" for u using that c r(2)[of u] s' by auto
    show "run s' 1 u" if "u \<in> set r1" for u using that c r(3)[of u] s' by auto
    show "curtask s' = Some u \<or> u \<in> set r0 \<or> u \<in> set r1" if "objs s' u = Some x" "runnable x" for u x
      using that c r(4)[of u x] s' by auto
    show "\<exists>x. objs s' u = Some x" if "curtask s' = Some u" for u
      using that s' \<open>run s 0 t \<or> run s 1 t\<close> by (auto simp: run_def)
    show "u \<notin> set r0" if "curtask s' = Some u" for u using that s' c r(1) by auto
    show "ready s' = [r0, r1]" "curtask1 s' = None" using s' base(1) by auto
    show "sc_prior x \<le> 1" if "objs s' u = Some x" for u x using that s' base(2)[of u x] by auto
    show "u \<in> pending s'" if "objs s' u = Some x" "sc_state x = Pending" for u x
      using that s' base(2)[of u x] by auto
  qed
  ultimately show ?thesis unfolding sched_inv_def using s' by auto
qed

lemma schedule_progress:
  assumes "queues s q0 q1" "run s p t"
  shows "\<exists>s'. schedule s = Some s'"
proof -
  obtain a0 a1 where a: "requeue s q0 q1 = (a0, a1)" by fastforce
  from assms(2) have "t \<in> set a0 \<or> t \<in> set a1"
    using requeue_run(4)[OF assms(1) a] by (auto simp: run_def)
  then have "a0 \<noteq> [] \<or> a1 \<noteq> []" by auto
  with schedule_cases[OF assms(1) a] show ?thesis by metis
qed

text \<open>A task that could not run becomes able to and is queued.\<close>

lemma enqueue_inv:
  assumes inv: "sched_inv s" and q: "queues s q0 q1" and nt: "\<And>p. \<not> run s p t"
    and x: "runnable x" "sc_prior x \<le> 1" and P: "\<And>u. u \<noteq> t \<Longrightarrow> u \<in> pending s \<Longrightarrow> u \<in> P"
    and s': "s' = s\<lparr>objs := (objs s)(t \<mapsto> x), pending := P, ready := queue_up (sc_prior x) t q0 q1, stip := b\<rparr>"
  shows "sched_inv s'"
proof -
  obtain r0 r1 where r01: "queue_up (sc_prior x) t q0 q1 = [r0, r1]"
    by (cases "sc_prior x = 0") (auto simp: queue_up_def)
  have old: "distinct q0" "curtask1 s = None" "\<And>u. u \<in> set q0 \<Longrightarrow> run s 0 u" "\<And>u. u \<in> set q1 \<Longrightarrow> run s 1 u"
      "\<And>u y. objs s u = Some y \<Longrightarrow> sc_prior y \<le> 1 \<and> (sc_state y = Pending \<longrightarrow> u \<in> pending s)"
      "\<And>u y. objs s u = Some y \<Longrightarrow> runnable y \<Longrightarrow> curtask s = Some u \<or> u \<in> set q0 \<or> u \<in> set q1"
      "\<And>c. curtask s = Some c \<Longrightarrow> run s 0 c \<or> run s 1 c" "\<And>c. curtask s = Some c \<Longrightarrow> c \<notin> set q0"
    using q inv by (auto simp: queues_def sched_inv_def)
  have ntq: "t \<notin> set q0" "t \<notin> set q1" "curtask s \<noteq> Some t" using nt old(3,4,7) by blast+
  have r: "run s' p u \<longleftrightarrow> (if u = t then p = sc_prior x else run s p u)" for p u
    using s' x by (auto simp: run_def)
  have set01: "set r0 = (if sc_prior x = 0 then insert t (set q0) else set q0)"
      "set r1 = (if sc_prior x = 0 then set q1 else insert t (set q1))" "distinct r0"
    using r01 old(1) ntq by (auto simp: queue_up_def split: if_splits)
  have x01: "sc_prior x = 0 \<or> sc_prior x = 1" using x(2) by linarith
  have "queues s' r0 r1"
    unfolding queues_def
  proof (intro conjI allI ballI impI)
    show "ready s' = [r0, r1]" "curtask1 s' = None" "distinct r0" using s' r01 old(2) set01 by auto
    show "run s' 0 u" if "u \<in> set r0" for u using that old(3)[of u] set01 r ntq by (auto split: if_splits)
    show "run s' 1 u" if "u \<in> set r1" for u using that old(4)[of u] set01 r x01 ntq by (auto split: if_splits)
    show "sc_prior y \<le> 1" if "objs s' u = Some y" for u y
      using that s' x(2) old(5)[of u y] by (auto split: if_splits)
    show "u \<in> pending s'" if "objs s' u = Some y" "sc_state y = Pending" for u y
      using that s' x(1) old(5)[of u y] P[of u] by (auto simp: runnable_def split: if_splits)
    show "curtask s' = Some u \<or> u \<in> set r0 \<or> u \<in> set r1" if "objs s' u = Some y" "runnable y" for u y
      using that s' set01 old(6)[of u y] by (auto split: if_splits)
    show "\<exists>y. objs s' c = Some y" if "curtask s' = Some c" for c
      using that s' old(7)[of c] by (auto simp: run_def)
    show "c \<notin> set r0" if "curtask s' = Some c" for c using that s' old(8)[of c] ntq set01 by auto
  qed
  moreover have "run s' 0 c \<or> run s' 1 c" if "curtask s' = Some c" for c
    using that s' old(7)[of c] ntq unfolding r by auto
  ultimately show ?thesis by (auto simp: sched_inv_def)
qed

lemma wakeup_inv:
  assumes "sched_inv s" "wakeup t s = Some s'"
  shows "sched_inv s'"
proof -
  from assms(1) obtain q0 q1 where q: "queues s q0 q1" by (auto simp: sched_inv_def)
  from assms(2) obtain x where x: "objs s t = Some x" by (auto simp: wakeup_def bind_eq_Some_iff)
  show ?thesis
  proof (cases "sc_state x = Pending")
    case False
    with assms x show ?thesis by (simp add: wakeup_def)
  next
    case True
    let ?x = "x\<lparr>sc_state := Ready\<rparr>"
    let ?s = "s\<lparr>pending := pending s - {t}, objs := (objs s)(t \<mapsto> ?x)\<rparr>"
    have p: "ready ?s = [q0, q1]" "objs ?s t = Some ?x" "sc_prior ?x \<le> 1"
      using q x by (auto simp: queues_def)
    have nq: "\<not> run s p t" for p using x True by (auto simp: run_def runnable_def)
    from sched_add_eq[OF p] obtain b where
      "s' = ?s\<lparr>ready := queue_up (sc_prior x) t q0 q1, stip := b\<rparr>"
      using assms(2) x True by (auto simp: wakeup_def)
    then show ?thesis
      using enqueue_inv[OF assms(1) q nq _ p(3), of "pending s - {t}" s' b] by simp
  qed
qed

lemma new_task_inv:
  assumes "sched_inv s" "objs s t = None" "p \<le> maxPrior" "new_task t p s = Some s'"
  shows "sched_inv s'"
proof -
  from assms(1) obtain q0 q1 where q: "queues s q0 q1" by (auto simp: sched_inv_def)
  let ?x = "\<lparr>sc_prior = p, sc_state = Init\<rparr>"
  let ?s = "s\<lparr>objs := (objs s)(t \<mapsto> ?x)\<rparr>"
  have p: "ready ?s = [q0, q1]" "objs ?s t = Some ?x" "sc_prior ?x \<le> 1"
    using q assms(3) by (auto simp: queues_def maxPrior_def)
  have nq: "\<not> run s p t" for p using assms(2) by (auto simp: run_def)
  from sched_add_eq[OF p] obtain b where "s' = ?s\<lparr>ready := queue_up p t q0 q1, stip := b\<rparr>"
    using assms(4) by (auto simp: new_task_def)
  then show ?thesis
    using enqueue_inv[OF assms(1) q nq _ p(3), of "pending s" s' b] by simp
qed

lemma sched_sleep_queues:
  assumes "sched_inv s" "curtask s = Some c" "sched_sleep c s = Some s'"
  shows "\<exists>q0 q1. queues s' q0 q1" "curtask s' = Some c" "\<And>p t. t \<noteq> c \<Longrightarrow> run s' p t = run s p t"
proof -
  from assms(1) obtain q0 q1 where q: "queues s q0 q1" by (auto simp: sched_inv_def)
  then have rd: "ready s = [q0, q1]" by (simp add: queues_def)
  from assms(3) obtain x where x: "objs s c = Some x" by (auto simp: sched_sleep_def bind_eq_Some_iff)
  from assms(3) x obtain qs where
    s': "s' = s\<lparr>objs := (objs s)(c \<mapsto> x\<lparr>sc_state := Pending\<rparr>), ready := qs, pending := insert c (pending s)\<rparr>"
      "qs = [q0, q1][sc_prior x := removeAll c ([q0, q1] ! sc_prior x)]"
    by (auto simp: sched_sleep_def rd_def wr_def bind_eq_Some_iff rd split: if_splits)
  have pr: "sc_prior x = 0 \<or> sc_prior x = 1" using q x by (auto simp: queues_def le_Suc_eq)
  have "c \<notin> set q0" "sc_prior x = 0 \<longrightarrow> c \<notin> set q1" "distinct q0"
    using q x assms(2) by (force simp: queues_def run_def)+
  then obtain r0 r1 where r01: "qs = [r0, r1]" "set r0 = set q0 - {c}" "set r1 = set q1 - {c}" "distinct r0"
    using s'(2) pr by auto
  show "curtask s' = Some c" "\<And>p t. t \<noteq> c \<Longrightarrow> run s' p t = run s p t" using s' assms(2) by (auto simp: run_def)
  have r: "run s' p u \<longleftrightarrow> u \<noteq> c \<and> run s p u" for p u using s' by (auto simp: run_def)
  have "queues s' r0 r1"
    unfolding queues_def r using q r01 s'(1) x assms(2) by (auto simp: queues_def)
  then show "\<exists>q0 q1. queues s' q0 q1" by blast
qed

lemma task_exit_queues:
  assumes "sched_inv s" "curtask s = Some c" "objs s c = Some x"
    "sched_remove c (s\<lparr>objs := (objs s)(c \<mapsto> x\<lparr>sc_state := Zombie\<rparr>)\<rparr>) = Some s'"
  shows "\<exists>q0 q1. queues s' q0 q1" "\<And>p t. t \<noteq> c \<Longrightarrow> run s' p t = run s p t"
proof -
  from assms(1) obtain q0 q1 where q: "queues s q0 q1" by (auto simp: sched_inv_def)
  then have rd: "ready s = [q0, q1]" by (simp add: queues_def)
  from assms(4) obtain qs where
    s': "s' = s\<lparr>objs := (objs s)(c \<mapsto> x\<lparr>sc_state := Zombie\<rparr>), ready := qs, pending := insert c (pending s)\<rparr>"
      "qs = [q0, q1][sc_prior x := removeAll c ([q0, q1] ! sc_prior x)]"
    by (auto simp: sched_remove_def rd_def wr_def bind_eq_Some_iff rd split: if_splits)
  have pr: "sc_prior x = 0 \<or> sc_prior x = 1" using q assms(3) by (auto simp: queues_def le_Suc_eq)
  have "c \<notin> set q0" "sc_prior x = 0 \<longrightarrow> c \<notin> set q1" "distinct q0"
    using q assms(2,3) by (force simp: queues_def run_def)+
  then obtain r0 r1 where r01: "qs = [r0, r1]" "set r0 = set q0 - {c}" "set r1 = set q1 - {c}" "distinct r0"
    using s'(2) pr by auto
  show "\<And>p t. t \<noteq> c \<Longrightarrow> run s' p t = run s p t" using s' by (auto simp: run_def)
  have r: "run s' p u \<longleftrightarrow> u \<noteq> c \<and> run s p u" for p u using s' by (auto simp: run_def)
  have "queues s' r0 r1"
    unfolding queues_def r using q r01 s'(1) assms(2,3) by (auto simp: queues_def)
  then show "\<exists>q0 q1. queues s' q0 q1" by blast
qed

lemma schedule_objs: "schedule s = Some s' \<Longrightarrow> objs s' = objs s"
  by (auto simp: schedule_def sched_next_def sched_add_def bind_eq_Some_iff Let_def
      split: option.splits if_splits)

lemma run_objs: "objs s' = objs s \<Longrightarrow> run s' p t = run s p t"
  by (simp add: run_def)

lemma kernel_sleep_progress:
  assumes inv: "sched_inv s" and c: "curtask s = Some c" "c \<noteq> kidle" and k: "run s 1 kidle"
  shows "\<exists>s'. kernel_sleep s = Some s' \<and> curtask s' \<noteq> Some c \<and> c \<in> pending s'"
proof -
  from inv obtain q0 q1 where q: "queues s q0 q1" by (auto simp: sched_inv_def)
  from inv c obtain x where x: "objs s c = Some x" "runnable x" by (auto simp: sched_inv_def run_def)
  have "sc_prior x \<le> 1" "ready s = [q0, q1]" using q x(1) by (auto simp: queues_def)
  then obtain u where u: "sched_sleep c s = Some u" "c \<in> pending u" "\<not> run u 0 c" "\<not> run u 1 c"
    using x by (auto simp: sched_sleep_def rd_def wr_def runnable_def run_def le_Suc_eq)
  note sl = sched_sleep_queues[OF inv c(1) u(1)]
  from sl(1) obtain r0 r1 where r: "queues u r0 r1" by blast
  have "run u 1 kidle" using sl(3)[of kidle 1] c(2) k by auto
  with schedule_progress[OF r] obtain s' where s': "schedule u = Some s'" by blast
  have "run s' 0 t \<or> run s' 1 t" if "curtask s' = Some t" for t
    using schedule_inv[OF r s'] that by (auto simp: sched_inv_def)
  then have "curtask s' \<noteq> Some c" using u(3,4) run_objs[OF schedule_objs[OF s']] by blast
  moreover have "pending s' = pending u"
    using s' by (auto simp: schedule_def sched_next_def sched_add_def bind_eq_Some_iff Let_def
        split: option.splits if_splits)
  ultimately show ?thesis using c(1) u(1,2) s' by (auto simp: kernel_sleep_def kernel_yield_def)
qed

lemma wakeup_total: "sched_inv s \<Longrightarrow> objs s t \<noteq> None \<Longrightarrow> \<exists>s'. wakeup t s = Some s'"
  by (fastforce simp: wakeup_def sched_add_def sched_inv_def queues_def rd_def wr_def le_Suc_eq)

subsection \<open>Reachable states\<close>

text \<open>
  The steps of the scheduler: a timer tick or a voluntary switch, the current task going to sleep, a
  task being woken, a task being created and the current task ending.  The idle task is never the one
  that sleeps or ends.
\<close>

inductive sched_step :: "nat \<Rightarrow> Scheduler \<Rightarrow> Scheduler \<Rightarrow> bool" for kidle where
  tick: "schedule s = Some s' \<Longrightarrow> sched_step kidle s s'"
| sleep: "curtask s \<noteq> Some kidle \<Longrightarrow> kernel_sleep s = Some s' \<Longrightarrow> sched_step kidle s s'"
| wake: "wakeup t s = Some s' \<Longrightarrow> sched_step kidle s s'"
| create: "objs s t = None \<Longrightarrow> p \<le> maxPrior \<Longrightarrow> new_task t p s = Some s' \<Longrightarrow> sched_step kidle s s'"
| exit: "curtask s \<noteq> Some kidle \<Longrightarrow> task_exit s = Some s' \<Longrightarrow> sched_step kidle s s'"

inductive sched_reach :: "nat \<Rightarrow> Scheduler \<Rightarrow> bool" for kidle where
  start: "boot kidle Scheduler_init = Some s \<Longrightarrow> sched_reach kidle s"
| step: "sched_reach kidle s \<Longrightarrow> sched_step kidle s s' \<Longrightarrow> sched_reach kidle s'"

lemma wakeup_objs: "wakeup t s = Some s' \<Longrightarrow> run s p u \<Longrightarrow> run s' p u"
  by (auto simp: wakeup_def sched_add_def bind_eq_Some_iff run_def runnable_def split: if_splits)

lemma new_task_objs: "new_task t q s = Some s' \<Longrightarrow> objs s t = None \<Longrightarrow> run s p u \<Longrightarrow> run s' p u"
  by (auto simp: new_task_def sched_add_def bind_eq_Some_iff run_def runnable_def split: if_splits)

lemma boot_inv: "boot kidle Scheduler_init = Some s \<Longrightarrow> sched_inv s \<and> run s 1 kidle"
proof -
  have "boot kidle Scheduler_init = Some (Scheduler_init\<lparr>objs := [kidle \<mapsto> \<lparr>sc_prior = 1, sc_state = Init\<rparr>],
      ready := [[], [kidle]], curtask := Some kidle\<rparr>)"
    by (simp add: boot_def new_task_def sched_add_def Scheduler_init_def maxPrior_def rd_def wr_def cur_prior_def)
  then show "boot kidle Scheduler_init = Some s \<Longrightarrow> ?thesis"
    by (auto simp: sched_inv_def queues_def run_def Scheduler_init_def)
qed

lemma sched_step_inv:
  assumes "sched_step kidle s s'" "sched_inv s" "run s 1 kidle"
  shows "sched_inv s' \<and> run s' 1 kidle"
  using assms
proof (induction rule: sched_step.induct)
  case (tick s s')
  then obtain q0 q1 where "queues s q0 q1" by (auto simp: sched_inv_def)
  from schedule_inv[OF this tick(1)] run_objs[OF schedule_objs[OF tick(1)]] tick(3) show ?case by simp
next
  case (sleep s s')
  then obtain c u where c: "curtask s = Some c" "sched_sleep c s = Some u" "schedule u = Some s'"
    by (auto simp: kernel_sleep_def kernel_yield_def bind_eq_Some_iff)
  from sched_sleep_queues(1)[OF sleep(3) c(1,2)] obtain q0 q1 where q: "queues u q0 q1" by blast
  have "run u 1 kidle" using sched_sleep_queues(3)[OF sleep(3) c(1,2), of kidle 1] sleep(1,4) c(1) by simp
  with schedule_inv[OF q c(3)] run_objs[OF schedule_objs[OF c(3)]] show ?case by simp
next
  case (wake t s s')
  then show ?case using wakeup_inv[of s t s'] wakeup_objs[of t s s'] by simp
next
  case (create s t p s')
  then show ?case using new_task_inv[of s t p s'] new_task_objs[of t p s s'] by simp
next
  case (exit s s')
  then obtain c x u where c: "curtask s = Some c" "objs s c = Some x"
      "sched_remove c (s\<lparr>objs := (objs s)(c \<mapsto> x\<lparr>sc_state := Zombie\<rparr>)\<rparr>) = Some u" "schedule u = Some s'"
    by (auto simp: task_exit_def kernel_yield_def bind_eq_Some_iff)
  from task_exit_queues(1)[OF exit(3) c(1-3)] obtain q0 q1 where q: "queues u q0 q1" by blast
  have "run u 1 kidle" using task_exit_queues(2)[OF exit(3) c(1-3), of kidle 1] exit(1,4) c(1) by simp
  with schedule_inv[OF q c(4)] run_objs[OF schedule_objs[OF c(4)]] show ?case by simp
qed

lemma reach_inv: "sched_reach kidle s \<Longrightarrow> sched_inv s \<and> run s 1 kidle"
proof (induction rule: sched_reach.induct)
  case (start s)
  then show ?case by (rule boot_inv)
next
  case (step s s')
  then show ?case using sched_step_inv[of kidle s s'] by simp
qed

subsection \<open>Properties\<close>

lemma reach_queues: "sched_reach kidle s \<Longrightarrow> \<exists>q0 q1. queues s q0 q1"
  using reach_inv[of kidle s] by (auto simp: sched_inv_def)

text \<open>C12: In every state the scheduler reaches from the start of the kernel, the tasks of the first queue are
  queued once and the running one not at all, every queued task can run, and every task that can run
  is running or queued: no task is lost, however ticks, sleeps, wake-ups, creations and exits interleave.
\<close>

theorem sched_reach_inv:
  assumes "sched_reach kidle s"
  shows "\<exists>q0 q1. ready s = [q0, q1] \<and> distinct q0
     \<and> (\<forall>c. curtask s = Some c \<longrightarrow> c \<notin> set q0 \<and> (run s 0 c \<or> run s 1 c))
     \<and> (\<forall>t \<in> set q0. run s 0 t) \<and> (\<forall>t \<in> set q1. run s 1 t)
     \<and> (\<forall>t x. objs s t = Some x \<longrightarrow> runnable x \<longrightarrow> curtask s = Some t \<or> t \<in> set q0 \<or> t \<in> set q1)
     \<and> (\<forall>t x. objs s t = Some x \<longrightarrow> sc_state x = Pending \<longrightarrow> t \<in> pending s)"
proof -
  from reach_inv[OF assms] obtain q0 q1 where
    "queues s q0 q1" "\<forall>c. curtask s = Some c \<longrightarrow> run s 0 c \<or> run s 1 c" by (auto simp: sched_inv_def)
  then show ?thesis by (intro exI[of _ q0] exI[of _ q1]) (auto simp: queues_def)
qed

text \<open>The start with the idle task 9, the creation of task 4 and a tick.\<close>

definition sched_ex :: Scheduler where
  "sched_ex = \<lparr>ready = [[], [9, 9]], pending = {},
     objs = [9 \<mapsto> \<lparr>sc_prior = 1, sc_state = Init\<rparr>, 4 \<mapsto> \<lparr>sc_prior = 0, sc_state = Init\<rparr>],
     curtask = Some 4, curtask1 = None, stip = True\<rparr>"

lemmas sched_eval = boot_def new_task_def sched_add_def Scheduler_init_def maxPrior_def rd_def wr_def
  cur_prior_def schedule_def sched_next_def kernel_sleep_def kernel_yield_def sched_sleep_def wakeup_def Let_def

lemma sched_ex_reach: "sched_reach 9 sched_ex"
proof -
  obtain s where s: "boot 9 Scheduler_init = Some s" by (simp add: sched_eval)
  obtain u where u: "new_task 4 0 s = Some u" using s by (auto simp: sched_eval)
  have "schedule u = Some sched_ex" using s u by (auto simp: sched_eval sched_ex_def fun_upd_twist)
  moreover have "objs s 4 = None" using s by (auto simp: sched_eval)
  ultimately show ?thesis
    using sched_reach.step[OF sched_reach.step[OF sched_reach.start[OF s]
        sched_step.create[OF _ _ u]] sched_step.tick] by simp
qed

theorem sched_reach_inv_witness:
  "\<exists>q0 q1. ready sched_ex = [q0, q1] \<and> distinct q0 \<and> 4 \<notin> set q0 \<and> run sched_ex 0 4"
proof -
  from sched_reach_inv[OF sched_ex_reach] obtain q0 q1 where
    "ready sched_ex = [q0, q1]" "distinct q0"
    "\<forall>c. curtask sched_ex = Some c \<longrightarrow> c \<notin> set q0 \<and> (run sched_ex 0 c \<or> run sched_ex 1 c)" by blast
  then show ?thesis by (auto simp: sched_ex_def run_def)
qed

text \<open>C35: The switch never fails: in a reachable state \<open>schedule\<close> finds a task, and so does \<open>kernel::sleep\<close>
  called by a task other than the idle task, which then no longer runs.
\<close>

theorem sched_progress:
  assumes "sched_reach kidle s"
  shows "(\<exists>s'. schedule s = Some s')
    \<and> (\<forall>c. curtask s = Some c \<longrightarrow> c \<noteq> kidle \<longrightarrow>
         (\<exists>s'. kernel_sleep s = Some s' \<and> curtask s' \<noteq> Some c \<and> c \<in> pending s'))"
proof -
  note inv = reach_inv[OF assms]
  from inv obtain q0 q1 where q: "queues s q0 q1" by (auto simp: sched_inv_def)
  have "\<exists>s'. schedule s = Some s'" using schedule_progress[OF q] inv by blast
  with kernel_sleep_progress[of s _ kidle] inv show ?thesis by simp
qed

theorem sched_progress_witness:
  "\<exists>s'. kernel_sleep sched_ex = Some s' \<and> curtask s' \<noteq> Some 4 \<and> 4 \<in> pending s'"
  using sched_progress[OF sched_ex_reach] by (simp add: sched_ex_def)

primrec schedules :: "nat \<Rightarrow> Scheduler \<Rightarrow> Scheduler option" where
  "schedules 0 s = Some s"
| "schedules (Suc n) s = do { s \<leftarrow> schedule s; schedules n s }"

lemma queues_ready: "queues s q0 q1 \<Longrightarrow> ready s = [q0, q1]"
  by (simp add: queues_def)

lemma schedules_reach:
  assumes "queues s (xs @ t # ys) q1"
  shows "\<exists>s'. schedules (length xs + 1) s = Some s' \<and> curtask s' = Some t"
  using assms
proof (induction xs arbitrary: s ys q1)
  case Nil
  obtain a0 a1 where a: "requeue s (t # ys) q1 = (a0, a1)" by fastforce
  then have "\<exists>r. a0 = t # r" by (auto simp: requeue_def split: option.splits if_splits)
  with schedule_cases[OF Nil[simplified] a] show ?case by cases (auto simp: switched_def)
next
  case (Cons x xs)
  obtain a0 a1 where a: "requeue s (x # xs @ t # ys) q1 = (a0, a1)" by fastforce
  then obtain zs where z: "a0 = x # xs @ t # zs" by (auto simp: requeue_def split: option.splits if_splits)
  from schedule_cases[OF Cons.prems[simplified] a] z obtain s' where
    s': "schedule s = Some s'" "switched s x (xs @ t # zs) a1 s'" by cases auto
  from schedule_inv[OF Cons.prems s'(1)] obtain r0 r1 where r: "queues s' r0 r1" by (auto simp: sched_inv_def)
  moreover have "ready s' = [xs @ t # zs, a1]" using s'(2) by (auto simp: switched_def)
  ultimately have "queues s' (xs @ t # zs) a1" using queues_ready[OF r] by simp
  from Cons.IH[OF this] s'(1) show ?case by simp
qed

text \<open>C36: Round robin is fair: a task waiting in the first queue runs after as many switches as there are
  tasks in front of it, plus one.
\<close>

theorem sched_fair:
  assumes "sched_reach kidle s" "ready s = [xs @ t # ys, q1]"
  shows "\<exists>s'. schedules (length xs + 1) s = Some s' \<and> curtask s' = Some t"
proof -
  from reach_queues[OF assms(1)] obtain q0 q1' where q: "queues s q0 q1'" by blast
  with assms(2) have "queues s (xs @ t # ys) q1" by (auto simp: queues_def)
  then show ?thesis by (rule schedules_reach)
qed

text \<open>Task 4 runs while the new tasks 5 and 6 wait: 6 runs after two switches.\<close>

theorem sched_fair_witness:
  "\<exists>s s'. sched_reach 9 s \<and> schedules 2 s = Some s' \<and> curtask s' = Some 6"
proof -
  obtain s where s: "new_task 5 0 sched_ex = Some s" "ready s = [[5], [9, 9]]" "objs s 6 = None"
    by (simp add: sched_eval sched_ex_def)
  obtain u where u: "new_task 6 0 s = Some u" "ready u = [[5] @ 6 # [], [9, 9]]"
    using s by (auto simp: sched_eval sched_ex_def)
  have r: "sched_reach 9 u"
    using sched_reach.step[OF sched_reach.step[OF sched_ex_reach sched_step.create[OF _ _ s(1)]]
        sched_step.create[OF _ _ u(1)]] s(3) by (simp add: sched_ex_def)
  from sched_fair[OF r u(2)] obtain s' where "schedules (length [5::nat] + 1) u = Some s'" "curtask s' = Some 6" by blast
  then have "schedules 2 u = Some s'" "curtask s' = Some 6" by (simp_all add: numeral_2_eq_2)
  with r show ?thesis by blast
qed

end
