(* ===== verification/LockSpec.thy ===== *)
theory LockSpec
  imports Lock SchedSpec
begin

text \<open>
  Mutual exclusion of the locks: the plain spin lock has it under every interleaving of the harts, the
  re-entrant one does not, and the semaphore has it under every interleaving of tasks and ticks.
\<close>

subsection \<open>Harts on a spin lock\<close>

datatype hart = Away | Spinning nat | Inside

text \<open>
  The steps of the harts that use one lock: a hart enters \<open>lock()\<close>, runs an iteration of its loop, or
  unlocks.
\<close>

inductive spin_step :: "bool \<Rightarrow> spinlock \<times> (nat \<Rightarrow> hart) \<Rightarrow> spinlock \<times> (nat \<Rightarrow> hart) \<Rightarrow> bool" for re where
  enter: "hs h = Away \<Longrightarrow> spin_step re (l, hs) (l, hs(h := Spinning (if re then threadId h else 1)))"
| stay: "hs h = Spinning k \<Longrightarrow> spin_iter re k l = (True, k', l') \<Longrightarrow>
    spin_step re (l, hs) (l', hs(h := Spinning k'))"
| take_lock: "hs h = Spinning k \<Longrightarrow> spin_iter re k l = (False, k', l') \<Longrightarrow>
    spin_step re (l, hs) (if re then l'\<lparr>sl_count := sl_count l' + 1\<rparr> else l', hs(h := Inside))"
| release: "hs h = Inside \<Longrightarrow> spin_step re (l, hs) (spin_unlock re l, hs(h := Away))"

inductive spin_reach :: "bool \<Rightarrow> spinlock \<times> (nat \<Rightarrow> hart) \<Rightarrow> bool" for re where
  start: "spin_reach re (spinlock_init, \<lambda>_. Away)"
| step: "spin_reach re c \<Longrightarrow> spin_step re c c' \<Longrightarrow> spin_reach re c'"

definition spin_inv :: "spinlock \<Rightarrow> (nat \<Rightarrow> hart) \<Rightarrow> bool" where
  "spin_inv l hs \<longleftrightarrow>
     (\<forall>h k. hs h = Spinning k \<longrightarrow> k = 1)
     \<and> (\<forall>h h'. hs h = Inside \<longrightarrow> hs h' = Inside \<longrightarrow> h = h')
     \<and> (spin l = 0 \<longrightarrow> (\<forall>h. hs h \<noteq> Inside))"

lemma spin_iter_plain:
  "spin_iter False k l = (if spin l = 0 then (False, k, l\<lparr>spin := k\<rparr>) else (True, k, l))"
  by (simp add: spin_iter_def cas_def)

lemma spin_step_inv:
  "spin_step False c c' \<Longrightarrow> spin_inv (fst c) (snd c) \<Longrightarrow> spin_inv (fst c') (snd c')"
proof (induction rule: spin_step.induct)
  case (enter hs h l)
  then show ?case by (auto simp: spin_inv_def split: if_splits)
next
  case (stay hs h k l k' l')
  then have "k' = k" "l' = l" "k = 1" using stay by (auto simp: spin_inv_def spin_iter_plain split: if_splits)
  then have "hs(h := Spinning k') = hs" using stay(1) by (simp add: fun_upd_idem)
  with stay.prems \<open>l' = l\<close> show ?case by simp
next
  case (take_lock hs h k l k' l')
  then have "k = 1" "spin l = 0" "l' = l\<lparr>spin := k\<rparr>" by (auto simp: spin_inv_def spin_iter_plain split: if_splits)
  with take_lock.prems show ?case by (auto simp: spin_inv_def)
next
  case (release hs h l)
  then show ?case by (auto simp: spin_inv_def spin_unlock_def)
qed

lemma spin_reach_inv: "spin_reach False c \<Longrightarrow> spin_inv (fst c) (snd c)"
proof (induction rule: spin_reach.induct)
  case start
  then show ?case by (simp add: spin_inv_def)
next
  case (step c c')
  then show ?case by (blast intro: spin_step_inv)
qed

text \<open>C11: Under every interleaving of the iterations of \<open>lock()\<close> on any number of harts, at most one hart is
  inside a section guarded by a \<open>spinlock<false>\<close>.
\<close>

theorem spinlock_exclusive:
  assumes "spin_reach False (l, hs)" "hs h = Inside" "hs h' = Inside"
  shows "h = h'"
  using spin_reach_inv[OF assms(1)] assms(2,3) by (auto simp: spin_inv_def split: if_splits)

lemma spin_reach_first: "spin_reach False (\<lparr>spin = 1, sl_count = 0\<rparr>, (\<lambda>_. Away)(3 := Inside))"
proof -
  have "spin_reach False (spinlock_init, (\<lambda>_. Away)(3 := Spinning 1))"
    using spin_reach.step[OF spin_reach.start spin_step.enter[of "\<lambda>_. Away" 3 False]] by simp
  from spin_reach.step[OF this spin_step.take_lock[of _ 3 1 False]] show ?thesis
    by (simp add: spin_iter_plain spinlock_init_def)
qed

theorem spinlock_exclusive_witness:
  "\<exists>l hs. spin_reach False (l, hs) \<and> hs 3 = Inside \<and> (\<forall>h. hs h = Inside \<longrightarrow> h = 3)"
proof -
  have "h = 3" if "((\<lambda>_. Away)(3 := Inside)) h = Inside" for h :: nat
    by (rule spinlock_exclusive[OF spin_reach_first that]) simp
  note h = this
  show ?thesis by (intro exI conjI allI impI, rule spin_reach_first) (simp, rule h)
qed

text \<open>The re-entrant spin lock does not exclude: when \<open>lock()\<close> finds the lock held by another thread, its
  second exchange overwrites \<open>lockedby\<close> with the holder, so the second iteration takes the holder for
  the caller and two iterations are enough to get in.
\<close>

theorem reentrant_not_exclusive:
  assumes "spin l \<noteq> 0" "spin l \<noteq> me"
  shows "spin_lock True (Suc (Suc n)) me l = (True, l\<lparr>sl_count := sl_count l + 1\<rparr>)"
  using assms by (simp add: spin_lock_def spin_iter_def cas_def)

theorem reentrant_not_exclusive_witness:
  "\<exists>l1 l2. spin_lock True 2 (threadId 0) spinlock_init = (True, l1)
     \<and> spin_lock True 2 (threadId 1) l1 = (True, l2) \<and> spin l2 = threadId 0"
proof -
  let ?l = "\<lparr>spin = threadId 0, sl_count = 1\<rparr>"
  have "spin_lock True 2 (threadId 0) spinlock_init = (True, ?l)"
    by (simp add: spin_lock_def spin_iter_def cas_def numeral_2_eq_2 spinlock_init_def threadId_def kthreadIdBase_def)
  moreover have "spin_lock True 2 (threadId 1) ?l = (True, ?l\<lparr>sl_count := 2\<rparr>)"
    using reentrant_not_exclusive[of ?l "threadId 1" 0]
    by (simp add: threadId_def kthreadIdBase_def numeral_2_eq_2)
  ultimately show ?thesis by simp
qed

subsection \<open>Tasks on a semaphore\<close>

datatype user = Out | Req | Hold

text \<open>
  The steps of the tasks that use a semaphore of one unit: the running task runs the loop of \<open>req()\<close> once,
  releases what it holds, or the scheduler ticks or is given a new task.
\<close>

inductive sem_step :: "nat \<Rightarrow> Semaphore \<times> Scheduler \<times> (nat \<Rightarrow> user) \<Rightarrow> Semaphore \<times> Scheduler \<times> (nat \<Rightarrow> user) \<Rightarrow> bool"
  for kidle where
  req: "curtask s = Some c \<Longrightarrow> c \<noteq> kidle \<Longrightarrow> st c \<noteq> Hold \<Longrightarrow> Semaphore_req sem s = Some (got, sem', s') \<Longrightarrow>
    sem_step kidle (sem, s, st) (sem', s', st(c := if got then Hold else Req))"
| rel: "curtask s = Some c \<Longrightarrow> st c = Hold \<Longrightarrow> Semaphore_rel sem s = Some (sem', s') \<Longrightarrow>
    sem_step kidle (sem, s, st) (sem', s', st(c := Out))"
| tick: "schedule s = Some s' \<Longrightarrow> sem_step kidle (sem, s, st) (sem, s', st)"
| create: "objs s t = None \<Longrightarrow> p \<le> maxPrior \<Longrightarrow> new_task t p s = Some s' \<Longrightarrow>
    sem_step kidle (sem, s, st) (sem, s', st)"

inductive sem_reach :: "nat \<Rightarrow> Semaphore \<times> Scheduler \<times> (nat \<Rightarrow> user) \<Rightarrow> bool" for kidle where
  start: "boot kidle Scheduler_init = Some s \<Longrightarrow> sem_reach kidle (Semaphore_init 1, s, \<lambda>_. Out)"
| step: "sem_reach kidle c \<Longrightarrow> sem_step kidle c c' \<Longrightarrow> sem_reach kidle c'"

definition asleep :: "Scheduler \<Rightarrow> nat \<Rightarrow> bool" where
  "asleep s t \<longleftrightarrow> (\<exists>x. objs s t = Some x \<and> sc_state x = Pending)"

definition awake :: "Scheduler \<Rightarrow> nat \<Rightarrow> bool" where
  "awake s t \<longleftrightarrow> (\<exists>x. objs s t = Some x \<and> runnable x)"

definition sem_inv :: "Semaphore \<Rightarrow> Scheduler \<Rightarrow> (nat \<Rightarrow> user) \<Rightarrow> bool" where
  "sem_inv sem s st \<longleftrightarrow>
     (\<forall>c. st c = Hold \<longrightarrow> (\<forall>c'. st c' = Hold \<longrightarrow> c' = c))
     \<and> (sem_count sem = 1 \<and> (\<forall>c. st c \<noteq> Hold) \<or> sem_count sem = 0 \<and> (\<exists>c. st c = Hold))
     \<and> distinct (sem_waiting sem) \<and> (\<forall>t \<in> set (sem_waiting sem). st t = Req \<and> asleep s t)
     \<and> (sem_count sem = 1 \<longrightarrow> sem_waiting sem \<noteq> [] \<longrightarrow> (\<exists>t. st t = Req \<and> awake s t))"

lemma asleep_awake: "asleep s t \<Longrightarrow> \<not> awake s t"
  by (auto simp: asleep_def awake_def runnable_def)

lemma kernel_sleep_objs:
  assumes "kernel_sleep s = Some s'" "curtask s = Some c"
  shows "asleep s' c" "\<And>t. asleep s t \<Longrightarrow> asleep s' t"
proof -
  from assms obtain u where "sched_sleep c s = Some u" "schedule u = Some s'"
    by (auto simp: kernel_sleep_def kernel_yield_def bind_eq_Some_iff)
  then obtain x where "objs s' = (objs s)(c \<mapsto> x\<lparr>sc_state := Pending\<rparr>)"
    by (auto simp: schedule_objs sched_sleep_def bind_eq_Some_iff)
  then show "asleep s' c" "\<And>t. asleep s t \<Longrightarrow> asleep s' t" by (auto simp: asleep_def)
qed

lemma wakeup_asleep:
  assumes "wakeup t s = Some s'" "asleep s t"
  shows "awake s' t" "\<And>u. u \<noteq> t \<Longrightarrow> asleep s u \<Longrightarrow> asleep s' u"
proof -
  from assms(2) obtain x where x: "objs s t = Some x" "sc_state x = Pending" by (auto simp: asleep_def)
  with assms(1) have "objs s' = (objs s)(t \<mapsto> x\<lparr>sc_state := Ready\<rparr>)"
    by (auto simp: wakeup_def sched_add_def bind_eq_Some_iff)
  then show "awake s' t" "\<And>u. u \<noteq> t \<Longrightarrow> asleep s u \<Longrightarrow> asleep s' u" by (auto simp: asleep_def awake_def)
qed

lemma new_task_asleep:
  assumes "new_task t p s = Some s'" "objs s t = None"
  shows "asleep s u \<Longrightarrow> asleep s' u" "awake s u \<Longrightarrow> awake s' u"
  using assms by (auto simp: new_task_def sched_add_def asleep_def awake_def bind_eq_Some_iff split: if_splits)

lemma req_inv:
  assumes "sem_inv sem s st" "sched_inv s" "curtask s = Some c" "st c \<noteq> Hold"
    "Semaphore_req sem s = Some (got, sem', s')"
  shows "sem_inv sem' s' (st(c := if got then Hold else Req))"
proof (cases "sem_count sem = 0")
  case True
  then have e: "\<not> got" "sem' = sem\<lparr>sem_waiting := sem_waiting sem @ [c]\<rparr>" "kernel_sleep s = Some s'"
    using assms(3,5) by (auto simp: Semaphore_req_def bind_eq_Some_iff)
  have "c \<notin> set (sem_waiting sem)"
  proof
    assume "c \<in> set (sem_waiting sem)"
    then have "asleep s c" using assms(1) by (auto simp: sem_inv_def)
    moreover have "awake s c" using assms(2,3) by (auto simp: sched_inv_def run_def awake_def)
    ultimately show False by (simp add: asleep_awake)
  qed
  moreover obtain d where "st d = Hold" "d \<noteq> c" using assms(1,4) True by (auto simp: sem_inv_def)
  ultimately show ?thesis
    using assms(1,4) True e kernel_sleep_objs[OF e(3) assms(3)] by (auto simp: sem_inv_def)
next
  case False
  then have e: "got" "sem' = sem\<lparr>sem_count := sem_count sem - 1\<rparr>" "s' = s" "sem_count sem = 1"
    using assms(1,5) by (auto simp: Semaphore_req_def sem_inv_def)
  have "c \<notin> set (sem_waiting sem)"
    using assms(1,2,3) asleep_awake[of s c] by (auto simp: sem_inv_def sched_inv_def run_def awake_def)
  with assms(1,4) e show ?thesis by (auto simp: sem_inv_def)
qed

lemma rel_inv:
  assumes "sem_inv sem s st" "st c = Hold" "Semaphore_rel sem s = Some (sem', s')"
  shows "sem_inv sem' s' (st(c := Out))"
proof -
  have h: "sem_count sem = 0" "\<And>d. st d = Hold \<Longrightarrow> d = c" "c \<notin> set (sem_waiting sem)"
    using assms(1,2) by (auto simp: sem_inv_def)
  show ?thesis
  proof (cases "sem_waiting sem")
    case Nil
    with assms h show ?thesis by (auto simp: sem_inv_def Semaphore_rel_def)
  next
    case (Cons t ts)
    with assms(3) h(1) have e: "sem' = sem\<lparr>sem_count := 1, sem_waiting := ts\<rparr>" "wakeup t s = Some s'"
      by (auto simp: Semaphore_rel_def bind_eq_Some_iff)
    have t: "st t = Req" "asleep s t" using assms(1) Cons by (auto simp: sem_inv_def)
    have ts: "distinct ts" "t \<notin> set ts" "\<And>u. u \<in> set ts \<Longrightarrow> st u = Req \<and> asleep s u"
      using assms(1) Cons by (auto simp: sem_inv_def)
    have "\<And>u. u \<in> set ts \<Longrightarrow> st u = Req \<and> asleep s' u \<and> u \<noteq> c"
      using ts wakeup_asleep(2)[OF e(2) t(2)] assms(2) by (metis user.distinct(5))
    moreover have "c \<noteq> t" "awake s' t" using t(1) assms(2) wakeup_asleep(1)[OF e(2) t(2)] by auto
    ultimately show ?thesis unfolding sem_inv_def e(1) using h(2) ts(1) t(1)
      by (auto intro!: exI[of _ t])
  qed
qed

lemma rel_sched_inv:
  "Semaphore_rel sem s = Some (sem', s') \<Longrightarrow> sched_inv s \<Longrightarrow> run s 1 k \<Longrightarrow> sched_inv s' \<and> run s' 1 k"
  by (auto simp: Semaphore_rel_def bind_eq_Some_iff Let_def wakeup_inv wakeup_objs split: list.splits)

lemma req_sched_inv:
  assumes "Semaphore_req sem s = Some (got, sem', s')" "curtask s = Some c" "c \<noteq> k" "sched_inv s" "run s 1 k"
  shows "sched_inv s' \<and> run s' 1 k"
proof (cases "sem_count sem = 0")
  case True
  then have "kernel_sleep s = Some s'" using assms(1,2) by (auto simp: Semaphore_req_def bind_eq_Some_iff)
  then show ?thesis using sched_step_inv[OF sched_step.sleep assms(4,5)] assms(2,3) by simp
next
  case False
  with assms show ?thesis by (auto simp: Semaphore_req_def)
qed

lemma sem_step_inv:
  assumes "sem_step k c c'" "sem_inv (fst c) (fst (snd c)) (snd (snd c))"
    "sched_inv (fst (snd c))" "run (fst (snd c)) 1 k"
  shows "sem_inv (fst c') (fst (snd c')) (snd (snd c')) \<and> sched_inv (fst (snd c')) \<and> run (fst (snd c')) 1 k"
  using assms
proof (induction rule: sem_step.induct)
  case (req s c st sem got sem' s')
  then show ?case
    unfolding fst_conv snd_conv
    using req_inv[of sem s st c got sem' s'] req_sched_inv[OF req(4,1,2)] by blast
next
  case (rel s c st sem sem' s')
  then show ?case
    unfolding fst_conv snd_conv
    using rel_inv[of sem s st c sem' s'] rel_sched_inv[OF rel(3)] by blast
next
  case (tick s s' sem st)
  then show ?case
    using sched_step_inv[OF sched_step.tick[OF tick(1)], of k] schedule_objs[OF tick(1)]
    by (simp add: sem_inv_def asleep_def awake_def)
next
  case (create s t p s' sem st)
  then show ?case
    using sched_step_inv[OF sched_step.create[OF create(1-3)], of k] new_task_asleep[OF create(3,1)]
    by (auto simp: sem_inv_def)
qed

lemma sem_reach_inv:
  "sem_reach k c \<Longrightarrow>
   sem_inv (fst c) (fst (snd c)) (snd (snd c)) \<and> sched_inv (fst (snd c)) \<and> run (fst (snd c)) 1 k"
proof (induction rule: sem_reach.induct)
  case (start s)
  then show ?case using boot_inv[OF start] by (simp add: sem_inv_def Semaphore_init_def)
next
  case (step c c')
  then show ?case using sem_step_inv[OF step(2)] by blast
qed

text \<open>A semaphore of one unit excludes under every interleaving of its tasks with the scheduler, and loses
  no wake-up: when it is free while tasks wait, some task that asked for it can run.
\<close>

theorem semaphore_exclusive:
  assumes "sem_reach kidle (sem, s, st)"
  shows "(\<forall>c c'. st c = Hold \<longrightarrow> st c' = Hold \<longrightarrow> c = c')
     \<and> (sem_count sem = 0 \<longleftrightarrow> (\<exists>c. st c = Hold))
     \<and> (sem_count sem \<noteq> 0 \<longrightarrow> sem_waiting sem \<noteq> [] \<longrightarrow> (\<exists>t. st t = Req \<and> awake s t))"
  using sem_reach_inv[OF assms] by (auto simp: sem_inv_def)

text \<open>After the start and the creation of task 4, a tick lets it take the semaphore.\<close>

theorem semaphore_exclusive_witness:
  "\<exists>sem s st. sem_reach 9 (sem, s, st) \<and> st 4 = Hold \<and> (\<forall>c. st c = Hold \<longrightarrow> c = 4)"
proof -
  obtain s where s: "boot 9 Scheduler_init = Some s" "objs s 4 = None" by (simp add: sched_eval)
  obtain u where u: "new_task 4 0 s = Some u" using s by (auto simp: sched_eval)
  have x: "schedule u = Some sched_ex" using s u by (auto simp: sched_eval sched_ex_def fun_upd_twist)
  let ?sem = "Semaphore_init 1" and ?st = "(\<lambda>_. Out)(4 := Hold)"
  have "sem_reach 9 (?sem, sched_ex, \<lambda>_. Out)"
    using sem_reach.step[OF sem_reach.step[OF sem_reach.start[OF s(1)]
      sem_step.create[OF s(2) _ u]] sem_step.tick[OF x]] by simp
  from sem_reach.step[OF this sem_step.req[of _ 4 9 _ _ True]]
  have r: "sem_reach 9 (?sem\<lparr>sem_count := 0\<rparr>, sched_ex, ?st)"
    by (simp add: sched_ex_def Semaphore_req_def Semaphore_init_def)
  have h: "c = 4" if "?st c = Hold" for c :: nat
    using semaphore_exclusive[OF r, THEN conjunct1, rule_format, OF that, of 4] by simp
  show ?thesis
    by (intro exI[of _ "?sem\<lparr>sem_count := 0\<rparr>"] exI[of _ sched_ex] exI[of _ ?st] conjI allI impI, rule r, simp, rule h)
qed

end
