(* ===== verification/Pipe.thy ===== *)
theory Pipe
  imports Lock
begin

text \<open>
  The pipe of \<open>include/ipc.hh\<close>: a buffer of 64 bytes between two counters that wrap at 64 bits, the
  numbers of readers and writers, and the condition variables of both sides.
\<close>

record Pipe =
  pp_buf :: "byte list"
  pp_head :: nat
  pp_tail :: nat
  canr :: condition_variable
  canw :: condition_variable
  wcnt :: int
  rcnt :: int

definition bufSize :: nat where
  "bufSize = 64"

definition Pipe_init :: "byte list \<Rightarrow> Pipe" where
  "Pipe_init b = \<lparr>pp_buf = b, pp_head = 0, pp_tail = 0, canr = [], canw = [], wcnt = 0, rcnt = 0\<rparr>"

definition addReader :: "Pipe \<Rightarrow> Pipe" where
  "addReader p = p\<lparr>rcnt := rcnt p + 1\<rparr>"

definition addWriter :: "Pipe \<Rightarrow> Pipe" where
  "addWriter p = p\<lparr>wcnt := wcnt p + 1\<rparr>"

definition decReader :: "Pipe \<times> Scheduler \<Rightarrow> (Pipe \<times> Scheduler) option" where
  "decReader = (\<lambda>(p, s).
     let p = p\<lparr>rcnt := rcnt p - 1\<rparr>
     in if rcnt p = 0 then do { (w, s) \<leftarrow> notify_all (canw p) s; Some (p\<lparr>canw := w\<rparr>, s) } else Some (p, s))"

definition decWriter :: "Pipe \<times> Scheduler \<Rightarrow> (Pipe \<times> Scheduler) option" where
  "decWriter = (\<lambda>(p, s).
     let p = p\<lparr>wcnt := wcnt p - 1\<rparr>
     in if wcnt p = 0 then do { (w, s) \<leftarrow> notify_all (canr p) s; Some (p\<lparr>canr := w\<rparr>, s) } else Some (p, s))"

definition Pipe_full :: "Pipe \<Rightarrow> bool" where
  "Pipe_full p \<longleftrightarrow> pp_tail p = add64 (pp_head p) bufSize"

definition Pipe_empty :: "Pipe \<Rightarrow> bool" where
  "Pipe_empty p \<longleftrightarrow> pp_head p = pp_tail p"

definition writable :: "Pipe \<Rightarrow> bool" where
  "writable p \<longleftrightarrow> \<not> Pipe_full p \<or> rcnt p \<noteq> 0"

definition readable :: "Pipe \<Rightarrow> bool" where
  "readable p \<longleftrightarrow> \<not> Pipe_empty p \<or> wcnt p \<noteq> 0"

definition notify_canr :: "Pipe \<times> Scheduler \<Rightarrow> (Pipe \<times> Scheduler) option" where
  "notify_canr = (\<lambda>(p, s). do { (w, s) \<leftarrow> notify_one (canr p) s; Some (p\<lparr>canr := w\<rparr>, s) })"

definition notify_canw :: "Pipe \<times> Scheduler \<Rightarrow> (Pipe \<times> Scheduler) option" where
  "notify_canw = (\<lambda>(p, s). do { (w, s) \<leftarrow> notify_one (canw p) s; Some (p\<lparr>canw := w\<rparr>, s) })"

definition tryWakeup :: "Pipe \<times> Scheduler \<Rightarrow> (Pipe \<times> Scheduler) option" where
  "tryWakeup st =
     do { st \<leftarrow> (if \<not> Pipe_empty (fst st) then notify_canr st else Some st);
          if \<not> Pipe_full (fst st) then notify_canw st else Some st }"

text \<open>The copy of a block into the buffer at a position.\<close>

definition put_bytes :: "nat \<Rightarrow> byte list \<Rightarrow> byte list \<Rightarrow> byte list option" where
  "put_bytes w xs b =
     (if w + length xs \<le> length b then Some (take w b @ xs @ drop (w + length xs) b) else None)"

definition wlen :: "Pipe \<Rightarrow> nat \<Rightarrow> nat" where
  "wlen p left =
     min (min (sub64 (add64 (pp_head p) bufSize) (pp_tail p)) (bufSize - pp_tail p mod bufSize)) left"

definition rlen :: "Pipe \<Rightarrow> nat \<Rightarrow> nat" where
  "rlen p left = min (min (sub64 (pp_tail p) (pp_head p)) (bufSize - pp_head p mod bufSize)) left"

text \<open>
  A run of \<open>write\<close> from the offset \<open>off\<close> to its end (\<open>Done\<close>) or to a wait for room (\<open>Blocked\<close>), after which
  the task runs it again from the offset returned.
\<close>

datatype outcome = Done | Blocked

function Pipe_write :: "byte list \<Rightarrow> nat \<Rightarrow> Pipe \<times> Scheduler \<Rightarrow> (outcome \<times> nat \<times> Pipe \<times> Scheduler) option" where
  "Pipe_write bytes off (p, s) =
     (if off < length bytes then
        if wlen p (length bytes - off) = 0 then
          if rcnt p = 0 then map_option (\<lambda>st. (Done, off, st)) (tryWakeup (p, s))
          else do { (p, s) \<leftarrow> notify_canr (p, s);
                    (w, s) \<leftarrow> cv_wait (canw p) s;
                    Some (Blocked, off, p\<lparr>canw := w\<rparr>, s) }
        else
          do { b \<leftarrow> put_bytes (pp_tail p mod bufSize)
                     (take (wlen p (length bytes - off)) (drop off bytes)) (pp_buf p);
               Pipe_write bytes (off + wlen p (length bytes - off))
                 (p\<lparr>pp_buf := b, pp_tail := add64 (pp_tail p) (wlen p (length bytes - off))\<rparr>, s) }
      else map_option (\<lambda>st. (Done, off, st)) (tryWakeup (p, s)))"
  by pat_completeness auto
termination
  by (relation "measure (\<lambda>(bytes, off, st). length bytes - off)") auto

text \<open>
  A run of \<open>read\<close> into a buffer of \<open>len\<close> bytes of which \<open>acc\<close> have been filled.
\<close>

function Pipe_read :: "nat \<Rightarrow> byte list \<Rightarrow> Pipe \<times> Scheduler \<Rightarrow> (outcome \<times> byte list \<times> Pipe \<times> Scheduler) option" where
  "Pipe_read len acc (p, s) =
     (if length acc < len then
        if rlen p (len - length acc) = 0 then
          if wcnt p = 0 \<or> length acc > 0 then map_option (\<lambda>st. (Done, acc, st)) (tryWakeup (p, s))
          else do { (p, s) \<leftarrow> notify_canw (p, s);
                    (w, s) \<leftarrow> cv_wait (canr p) s;
                    Some (Blocked, acc, p\<lparr>canr := w\<rparr>, s) }
        else if pp_head p mod bufSize + rlen p (len - length acc) \<le> length (pp_buf p) then
          Pipe_read len (acc @ take (rlen p (len - length acc)) (drop (pp_head p mod bufSize) (pp_buf p)))
            (p\<lparr>pp_head := add64 (pp_head p) (rlen p (len - length acc))\<rparr>, s)
        else None
      else map_option (\<lambda>st. (Done, acc, st)) (tryWakeup (p, s)))"
  by pat_completeness auto
termination
  by (relation "measure (\<lambda>(len, acc, st). len - length acc)") auto

declare Pipe_write.simps [simp del] Pipe_read.simps [simp del]

end
