(* ===== verification/Fifo.thy ===== *)
theory Fifo
  imports Main
begin

text \<open>
  The contract of a byte channel: a writer appends a prefix of what it has left, a reader takes a prefix
  of the contents.  What follows from it for any sequence of the two is proved once here.
\<close>

datatype 'a chan_op = Put "'a list" nat | Get nat

locale fifo =
  fixes contents :: "'s \<Rightarrow> 'a list"
    and ok :: "'s \<Rightarrow> bool"
    and put :: "'a list \<Rightarrow> nat \<Rightarrow> 's \<Rightarrow> (nat \<times> 's) option"
    and get :: "nat \<Rightarrow> 's \<Rightarrow> ('a list \<times> 's) option"
  assumes put_ok: "ok s \<Longrightarrow> off \<le> length xs \<Longrightarrow> put xs off s = Some (off', s') \<Longrightarrow>
      ok s' \<and> off \<le> off' \<and> off' \<le> length xs \<and> contents s' = contents s @ take (off' - off) (drop off xs)"
    and get_ok: "ok s \<Longrightarrow> get n s = Some (ys, s') \<Longrightarrow>
      ok s' \<and> length ys \<le> n \<and> contents s = ys @ contents s'"
begin

text \<open>A sequence of operations, with the bytes accepted and the bytes delivered so far.\<close>

fun chan_run :: "'a chan_op list \<Rightarrow> 'a list \<times> 'a list \<times> 's \<Rightarrow> ('a list \<times> 'a list \<times> 's) option" where
  "chan_run [] c = Some c"
| "chan_run (Put xs off # ops) (sent, got, s) =
     (if off \<le> length xs
      then Option.bind (put xs off s)
             (\<lambda>(off', s). chan_run ops (sent @ take (off' - off) (drop off xs), got, s))
      else None)"
| "chan_run (Get n # ops) (sent, got, s) =
     Option.bind (get n s) (\<lambda>(ys, s). chan_run ops (sent, got @ ys, s))"

lemma chan_run_stream:
  "chan_run ops (sent, got, s) = Some (sent', got', s') \<Longrightarrow> ok s \<Longrightarrow> sent = got @ contents s \<Longrightarrow>
   ok s' \<and> sent' = got' @ contents s'"
proof (induction ops arbitrary: sent got s)
  case Nil
  then show ?case by auto
next
  case (Cons op ops)
  show ?case
  proof (cases op)
    case (Put xs off)
    with Cons.prems(1) obtain off' u where
      u: "off \<le> length xs" "put xs off s = Some (off', u)"
         "chan_run ops (sent @ take (off' - off) (drop off xs), got, u) = Some (sent', got', s')"
      by (auto simp: Option.bind_eq_Some_conv split: if_splits)
    with put_ok[OF Cons.prems(2) u(1,2)] Cons.IH[OF u(3)] Cons.prems(3) show ?thesis by simp
  next
    case (Get n)
    with Cons.prems(1) obtain ys u where
      u: "get n s = Some (ys, u)" "chan_run ops (sent, got @ ys, u) = Some (sent', got', s')"
      by (auto simp: Option.bind_eq_Some_conv)
    with get_ok[OF Cons.prems(2) u(1)] Cons.IH[OF u(2)] Cons.prems(3) show ?thesis by simp
  qed
qed

end

end
