(* ===== verification/PipeSpec.thy ===== *)
theory PipeSpec
  imports Pipe Fifo SchedSpec
begin

text \<open>
  The pipe as a first-in first-out channel: its contents, the effect of a run of \<open>write\<close> and \<open>read\<close> on
  them for any position of the wrapping counters, and when a run blocks.
\<close>

subsection \<open>Contents\<close>

definition used :: "Pipe \<Rightarrow> nat" where
  "used p = sub64 (pp_tail p) (pp_head p)"

definition pipe_contents :: "Pipe \<Rightarrow> byte list" where
  "pipe_contents p = map (\<lambda>i. pp_buf p ! ((pp_head p + i) mod 64)) [0..<used p]"

definition pipe_ok :: "Pipe \<Rightarrow> bool" where
  "pipe_ok p \<longleftrightarrow> length (pp_buf p) = 64 \<and> pp_head p < 2 ^ 64 \<and> pp_tail p < 2 ^ 64 \<and> used p \<le> 64"

lemma length_contents [simp]: "length (pipe_contents p) = used p"
  by (simp add: pipe_contents_def)

lemma mod_once: "x < 2 * M \<Longrightarrow> x mod M = (if x < M then x else x - M)" for x M :: nat
  by (simp add: mod_if)

lemma wrap_sub: "h < M \<Longrightarrow> t < M \<Longrightarrow> (h + (t + M - h) mod M) mod M = t" for h t M :: nat
  by (cases "h \<le> t") (auto simp: mod_once)

lemma wrap_dist: "h < M \<Longrightarrow> n \<le> k \<Longrightarrow> k < M \<Longrightarrow> ((h + k) mod M + M - (h + n) mod M) mod M = k - n"
  for h n k M :: nat
  by (auto simp: mod_once)

lemma wrap_app: "h < M \<Longrightarrow> n + k < M \<Longrightarrow> (((h + n) mod M + k) mod M + M - h) mod M = n + k"
  for h n k M :: nat
  using wrap_dist[of h M 0 "n + k"] by (simp add: mod_add_left_eq add.assoc)

lemma tail_eq: "pipe_ok p \<Longrightarrow> pp_tail p = (pp_head p + used p) mod 2 ^ 64"
  using wrap_sub[of "pp_head p" "2 ^ 64" "pp_tail p"] by (simp add: pipe_ok_def used_def sub64_def)

lemma tail_mod: "pipe_ok p \<Longrightarrow> pp_tail p mod 64 = (pp_head p + used p) mod 64"
  by (subst tail_eq) (simp_all add: mod_mod_cancel)

lemma room: "pipe_ok p \<Longrightarrow> sub64 (add64 (pp_head p) bufSize) (pp_tail p) = 64 - used p"
proof -
  assume a: "pipe_ok p"
  have "((pp_head p + 64) mod 2 ^ 64 + 2 ^ 64 - (pp_head p + used p) mod 2 ^ 64) mod 2 ^ 64 = 64 - used p"
    by (rule wrap_dist) (use a in \<open>simp_all add: pipe_ok_def\<close>)
  then show ?thesis using tail_eq[OF a] unfolding sub64_def add64_def bufSize_def by simp
qed

lemma wlen_eq: "pipe_ok p \<Longrightarrow> wlen p left = min (min (64 - used p) (64 - (pp_head p + used p) mod 64)) left"
  using room[of p] tail_mod[of p] by (simp add: wlen_def bufSize_def)

lemma rlen_eq: "rlen p left = min (min (used p) (64 - pp_head p mod 64)) left"
  by (simp add: rlen_def used_def bufSize_def)

lemma wlen_0_iff: "pipe_ok p \<Longrightarrow> 0 < left \<Longrightarrow> wlen p left = 0 \<longleftrightarrow> used p = 64"
proof -
  assume a: "pipe_ok p" "0 < left"
  have "(pp_head p + used p) mod 64 < 64" by simp
  then show ?thesis using a by (auto simp: wlen_eq pipe_ok_def min_def)
qed

lemma rlen_0_iff: "0 < left \<Longrightarrow> rlen p left = 0 \<longleftrightarrow> used p = 0"
proof -
  assume a: "0 < left"
  have "pp_head p mod 64 < 64" by simp
  then show ?thesis using a by (auto simp: rlen_eq min_def)
qed

lemma wlen_bounds:
  assumes "pipe_ok p"
  shows "wlen p left \<le> left" "wlen p left \<le> 64 - used p" "(pp_head p + used p) mod 64 + wlen p left \<le> 64"
proof -
  have "(pp_head p + used p) mod 64 < 64" by simp
  then show "(pp_head p + used p) mod 64 + wlen p left \<le> 64" unfolding wlen_eq[OF assms] by linarith
qed (simp_all add: wlen_eq[OF assms])

lemma rlen_bounds:
  "rlen p left \<le> left" "rlen p left \<le> used p" "pp_head p mod 64 + rlen p left \<le> 64"
proof -
  have "pp_head p mod 64 < 64" by simp
  then show "pp_head p mod 64 + rlen p left \<le> 64" unfolding rlen_eq by linarith
qed (simp_all add: rlen_eq)

lemma ring_index:
  "(h + n) mod 64 + j < 64 \<Longrightarrow> (h + (n + j)) mod 64 = (h + n) mod 64 + j" for h n j :: nat
  by (metis add.assoc mod_add_left_eq mod_less)

lemma ring_distinct:
  "i < n + k \<Longrightarrow> j < n + k \<Longrightarrow> n + k \<le> 64 \<Longrightarrow> i \<noteq> j \<Longrightarrow> (h + i) mod 64 \<noteq> (h + j) mod 64"
  for h i j n k :: nat
proof -
  assume a: "i < n + k" "j < n + k" "n + k \<le> 64" "i \<noteq> j"
  show ?thesis
  proof
    assume "(h + i) mod 64 = (h + j) mod 64"
    then have "int (h + i) mod 64 = int (h + j) mod 64" by (metis of_nat_numeral of_nat_mod)
    then have "64 dvd int i - int j" by (simp add: mod_eq_dvd_iff)
    then show False using a zdvd_imp_le[of 64 "int i - int j"] zdvd_imp_le[of 64 "int j - int i"]
      by (cases "i < j") (auto simp: dvd_diff_commute)
  qed
qed

text \<open>Writing a block that fits before the end of the buffer appends it.\<close>

lemma write_block:
  assumes ok: "pipe_ok p" and k: "length xs \<le> 64 - used p" "(pp_head p + used p) mod 64 + length xs \<le> 64"
    and p': "p' = p\<lparr>pp_buf := take ((pp_head p + used p) mod 64) (pp_buf p) @ xs @
                drop ((pp_head p + used p) mod 64 + length xs) (pp_buf p),
              pp_tail := add64 (pp_tail p) (length xs)\<rparr>"
  shows "pipe_ok p'" "pipe_contents p' = pipe_contents p @ xs"
proof -
  let ?w = "(pp_head p + used p) mod 64" and ?k = "length xs"
  have lb: "length (pp_buf p) = 64" "used p \<le> 64" using ok by (auto simp: pipe_ok_def)
  have uk: "used p + ?k \<le> 64" using lb(2) k(1) by linarith
  have ht: "pp_tail p' = add64 (pp_tail p) ?k" "pp_head p' = pp_head p" using p' by simp_all
  have u: "used p' = used p + ?k"
  proof -
    have "used p' = (((pp_head p + used p) mod 2 ^ 64 + ?k) mod 2 ^ 64 + 2 ^ 64 - pp_head p) mod 2 ^ 64"
      unfolding used_def[of p'] sub64_def ht add64_def using tail_eq[OF ok] by (simp only:)
    also have "\<dots> = used p + ?k" by (rule wrap_app) (use ok uk in \<open>simp_all add: pipe_ok_def\<close>)
    finally show ?thesis .
  qed
  show "pipe_ok p'" using ok p' u uk k lb add64_lt[of "pp_tail p" ?k] by (simp add: pipe_ok_def)
  show "pipe_contents p' = pipe_contents p @ xs"
  proof (rule nth_equalityI)
    show "length (pipe_contents p') = length (pipe_contents p @ xs)" using u by simp
    fix i assume "i < length (pipe_contents p')"
    then have i: "i < used p + ?k" using u by simp
    show "pipe_contents p' ! i = (pipe_contents p @ xs) ! i"
    proof (cases "i < used p")
      case True
      have nj: "(pp_head p + i) mod 64 \<noteq> ?w + j" if "j < ?k" for j
        using ring_distinct[of i "used p" ?k "used p + j" "pp_head p"] ring_index[of "pp_head p" "used p" j] that k True lb
        by auto
      have "(pp_head p + i) mod 64 < ?w \<or> ?w + ?k \<le> (pp_head p + i) mod 64"
        using nj[of "(pp_head p + i) mod 64 - ?w"] by linarith
      then have "pp_buf p' ! ((pp_head p + i) mod 64) = pp_buf p ! ((pp_head p + i) mod 64)"
        unfolding p' using lb(1) k(2) by (auto simp: nth_append)
      then show ?thesis using True i u ht by (simp add: pipe_contents_def nth_append)
    next
      case False
      then obtain j where j: "i = used p + j" "j < ?k" using i by (metis add_less_cancel_left le_Suc_ex not_le)
      have "(pp_head p + i) mod 64 = ?w + j" using ring_index[of "pp_head p" "used p" j] j k(2) by simp
      moreover have "pp_buf p' ! (?w + j) = xs ! j"
        unfolding p' using lb(1) k(2) j(2) by (simp add: nth_append)
      ultimately show ?thesis using j u ht by (simp add: pipe_contents_def nth_append)
    qed
  qed
qed

text \<open>Reading a block that ends before the end of the buffer takes it from the front.\<close>

lemma read_block:
  assumes ok: "pipe_ok p" and k: "k \<le> used p" "pp_head p mod 64 + k \<le> 64"
    and p': "p' = p\<lparr>pp_head := add64 (pp_head p) k\<rparr>"
  shows "pipe_ok p'" "pipe_contents p = take k (drop (pp_head p mod 64) (pp_buf p)) @ pipe_contents p'"
proof -
  have lb: "length (pp_buf p) = 64" "used p \<le> 64" using ok by (auto simp: pipe_ok_def)
  have ht: "pp_tail p' = pp_tail p" "pp_head p' = (pp_head p + k) mod 2 ^ 64" "pp_buf p' = pp_buf p"
    using p' by (simp_all add: add64_def)
  have u: "used p' = used p - k"
  proof -
    have "used p' = ((pp_head p + used p) mod 2 ^ 64 + 2 ^ 64 - (pp_head p + k) mod 2 ^ 64) mod 2 ^ 64"
      unfolding used_def[of p'] sub64_def ht using tail_eq[OF ok] by (simp only:)
    also have "\<dots> = used p - k" by (rule wrap_dist) (use ok lb k in \<open>simp_all add: pipe_ok_def\<close>)
    finally show ?thesis .
  qed
  show "pipe_ok p'" using ok u lb ht by (simp add: pipe_ok_def)
  have hm: "(pp_head p' + i) mod 64 = (pp_head p + k + i) mod 64" for i
  proof -
    have "pp_head p' mod 64 = (pp_head p + k) mod 64" unfolding ht by (simp add: mod_mod_cancel)
    then show ?thesis by (metis mod_add_left_eq)
  qed
  show "pipe_contents p = take k (drop (pp_head p mod 64) (pp_buf p)) @ pipe_contents p'"
  proof (rule nth_equalityI)
    show l: "length (pipe_contents p) = length (take k (drop (pp_head p mod 64) (pp_buf p)) @ pipe_contents p')"
      using u k lb by simp
    fix i assume "i < length (pipe_contents p)"
    then have i: "i < used p" by simp
    show "pipe_contents p ! i = (take k (drop (pp_head p mod 64) (pp_buf p)) @ pipe_contents p') ! i"
    proof (cases "i < k")
      case True
      then have "(pp_head p + i) mod 64 = pp_head p mod 64 + i" using ring_index[of "pp_head p" 0 i] k by simp
      then show ?thesis using True i k lb by (simp add: pipe_contents_def nth_append)
    next
      case False
      then obtain j where j: "i = k + j" by (metis le_Suc_ex not_le)
      then show ?thesis using i k lb u ht hm[of j] by (simp add: pipe_contents_def nth_append add.assoc)
    qed
  qed
qed

subsection \<open>Runs of \<open>write\<close> and \<open>read\<close>\<close>

lemma notify_keeps:
  "notify_canr (p, s) = Some (p', s') \<Longrightarrow> \<exists>w. p' = p\<lparr>canr := w\<rparr>"
  "notify_canw (p, s) = Some (p', s') \<Longrightarrow> \<exists>w. p' = p\<lparr>canw := w\<rparr>"
  by (auto simp: notify_canr_def notify_canw_def bind_eq_Some_iff)

lemma pipe_upd [simp]:
  "pipe_ok (p\<lparr>canr := w\<rparr>) = pipe_ok p" "pipe_ok (p\<lparr>canw := w\<rparr>) = pipe_ok p"
  "pipe_contents (p\<lparr>canr := w\<rparr>) = pipe_contents p" "pipe_contents (p\<lparr>canw := w\<rparr>) = pipe_contents p"
  by (simp_all add: pipe_ok_def pipe_contents_def used_def)

lemma tryWakeup_keeps:
  assumes "tryWakeup (p, s) = Some (p', s')" "pipe_ok p"
  shows "pipe_ok p'" "pipe_contents p' = pipe_contents p"
proof -
  from assms(1) obtain q u where q: "(if \<not> Pipe_empty p then notify_canr (p, s) else Some (p, s)) = Some (q, u)"
      "(if \<not> Pipe_full q then notify_canw (q, u) else Some (q, u)) = Some (p', s')"
    by (auto simp: tryWakeup_def bind_eq_Some_iff)
  have "pipe_ok q \<and> pipe_contents q = pipe_contents p"
    using q(1) assms(2) notify_keeps(1)[of p s q u] by (auto split: if_splits)
  then show "pipe_ok p'" "pipe_contents p' = pipe_contents p"
    using q(2) notify_keeps(2)[of q u p' s'] by (auto split: if_splits)
qed

text \<open>One pass of the loops that moves bytes: what it leaves and where the loop goes on.\<close>

definition same_ends :: "Pipe \<Rightarrow> Pipe \<Rightarrow> bool" where
  "same_ends p q \<longleftrightarrow> canr q = canr p \<and> canw q = canw p \<and> rcnt q = rcnt p \<and> wcnt q = wcnt p"

lemma Pipe_write_pass:
  assumes ok: "pipe_ok p" and k: "off < length xs" "wlen p (length xs - off) = k" "k \<noteq> 0"
  obtains q where "Pipe_write xs off (p, s) = Pipe_write xs (off + k) (q, s)" "pipe_ok q" "same_ends p q"
    "pipe_contents q = pipe_contents p @ take k (drop off xs)" "off + k \<le> length xs"
proof -
  let ?c = "take k (drop off xs)" and ?w = "(pp_head p + used p) mod 64"
  have len: "length ?c = k" "off + k \<le> length xs"
    using wlen_bounds(1)[OF ok, of "length xs - off"] k by simp_all
  have b: "length ?c \<le> 64 - used p" "?w + length ?c \<le> 64"
    unfolding len using wlen_bounds[OF ok, of "length xs - off"] k(2) by simp_all
  let ?q = "p\<lparr>pp_buf := take ?w (pp_buf p) @ ?c @ drop (?w + length ?c) (pp_buf p),
            pp_tail := add64 (pp_tail p) (length ?c)\<rparr>"
  have "put_bytes (pp_tail p mod bufSize) ?c (pp_buf p)
      = Some (take ?w (pp_buf p) @ ?c @ drop (?w + length ?c) (pp_buf p))"
    using b ok by (simp add: put_bytes_def tail_mod bufSize_def pipe_ok_def)
  then have "Pipe_write xs off (p, s) = Pipe_write xs (off + k) (?q, s)"
    using k len(1) by (subst Pipe_write.simps) simp
  with that[of ?q] write_block[OF ok b, of ?q] len(2) show thesis by (simp add: same_ends_def)
qed

lemma Pipe_read_pass:
  assumes ok: "pipe_ok p" and k: "length acc < len" "rlen p (len - length acc) = k" "k \<noteq> 0"
  obtains q ys where "Pipe_read len acc (p, s) = Pipe_read len (acc @ ys) (q, s)" "pipe_ok q" "same_ends p q"
    "pipe_contents p = ys @ pipe_contents q" "length ys = k" "length acc + k \<le> len"
proof -
  let ?c = "take k (drop (pp_head p mod 64) (pp_buf p))" and ?q = "p\<lparr>pp_head := add64 (pp_head p) k\<rparr>"
  have b: "k \<le> used p" "pp_head p mod 64 + k \<le> 64" "length acc + k \<le> len"
    using rlen_bounds[of p "len - length acc"] k by auto
  have lb: "length (pp_buf p) = 64" using ok by (simp add: pipe_ok_def)
  have "Pipe_read len acc (p, s) = Pipe_read len (acc @ ?c) (?q, s)"
    using k b lb by (subst Pipe_read.simps) (simp add: bufSize_def)
  with that[of ?c ?q] read_block[OF ok b(1,2), of ?q] b lb show thesis by (simp add: same_ends_def)
qed

lemma Pipe_write_fifo:
  "Pipe_write xs off (p, s) = Some (r, off', p', s') \<Longrightarrow> pipe_ok p \<Longrightarrow> off \<le> length xs \<Longrightarrow>
   pipe_ok p' \<and> off \<le> off' \<and> off' \<le> length xs
   \<and> pipe_contents p' = pipe_contents p @ take (off' - off) (drop off xs)"
proof (induction "length xs - off" arbitrary: off p rule: less_induct)
  case less
  let ?k = "wlen p (length xs - off)"
  show ?case
  proof (cases "off < length xs \<and> ?k \<noteq> 0")
    case True
    then obtain q where q: "Pipe_write xs off (p, s) = Pipe_write xs (off + ?k) (q, s)" "pipe_ok q"
        "pipe_contents q = pipe_contents p @ take ?k (drop off xs)" "off + ?k \<le> length xs"
      using Pipe_write_pass[OF less.prems(2) _ refl, of off xs s] by blast
    have lt: "length xs - (off + ?k) < length xs - off" using True by linarith
    have r: "pipe_ok p' \<and> off + ?k \<le> off' \<and> off' \<le> length xs
        \<and> pipe_contents p' = pipe_contents q @ take (off' - (off + ?k)) (drop (off + ?k) xs)"
      using less.hyps[OF lt, of q] less.prems(1) q by simp
    have "off' - off = ?k + (off' - (off + ?k))" using r by simp
    then have "take (off' - off) (drop off xs) = take ?k (drop off xs) @ take (off' - (off + ?k)) (drop (off + ?k) xs)"
      by (simp only: take_add drop_drop add.commute)
    with r q(3) show ?thesis by simp
  next
    case False
    then show ?thesis
      using less.prems tryWakeup_keeps[of p s] notify_keeps(1)[of p s]
      by (subst (asm) Pipe_write.simps) (auto simp: bind_eq_Some_iff cv_wait_def split: if_splits)
  qed
qed

lemma Pipe_read_fifo:
  "Pipe_read len acc (p, s) = Some (r, acc', p', s') \<Longrightarrow> pipe_ok p \<Longrightarrow> length acc \<le> len \<Longrightarrow>
   pipe_ok p' \<and> length acc' \<le> len
   \<and> (\<exists>ys. acc' = acc @ ys \<and> pipe_contents p = ys @ pipe_contents p')"
proof (induction "len - length acc" arbitrary: acc p rule: less_induct)
  case less
  let ?k = "rlen p (len - length acc)"
  show ?case
  proof (cases "length acc < len \<and> ?k \<noteq> 0")
    case True
    then obtain q ys where q: "Pipe_read len acc (p, s) = Pipe_read len (acc @ ys) (q, s)" "pipe_ok q"
        "pipe_contents p = ys @ pipe_contents q" "length ys = ?k" "length acc + ?k \<le> len"
      using Pipe_read_pass[OF less.prems(2) _ refl, of acc len s] by blast
    have lt: "len - length (acc @ ys) < len - length acc" using True q(4) by (simp only: length_append) linarith
    have "pipe_ok p' \<and> length acc' \<le> len
        \<and> (\<exists>zs. acc' = (acc @ ys) @ zs \<and> pipe_contents q = zs @ pipe_contents p')"
      using less.hyps[OF lt, of q] less.prems(1) q by simp
    with q(3) show ?thesis by auto
  next
    case False
    then show ?thesis
      using less.prems tryWakeup_keeps[of p s] notify_keeps(2)[of p s]
      by (subst (asm) Pipe_read.simps) (auto simp: bind_eq_Some_iff cv_wait_def split: if_splits)
  qed
qed

text \<open>The pipe with its scheduler implements the channel contract.\<close>

definition pipe_put :: "byte list \<Rightarrow> nat \<Rightarrow> Pipe \<times> Scheduler \<Rightarrow> (nat \<times> Pipe \<times> Scheduler) option" where
  "pipe_put xs off st = map_option (\<lambda>(r, off, st). (off, st)) (Pipe_write xs off st)"

definition pipe_get :: "nat \<Rightarrow> Pipe \<times> Scheduler \<Rightarrow> (byte list \<times> Pipe \<times> Scheduler) option" where
  "pipe_get n st = map_option (\<lambda>(r, acc, st). (acc, st)) (Pipe_read n [] st)"

interpretation pipe: fifo "\<lambda>st. pipe_contents (fst st)" "\<lambda>st. pipe_ok (fst st)" pipe_put pipe_get
proof unfold_locales
  fix st :: "Pipe \<times> Scheduler" and off off' xs st'
  assume "pipe_ok (fst st)" "off \<le> length xs" "pipe_put xs off st = Some (off', st')"
  then show "pipe_ok (fst st') \<and> off \<le> off' \<and> off' \<le> length xs
      \<and> pipe_contents (fst st') = pipe_contents (fst st) @ take (off' - off) (drop off xs)"
    using Pipe_write_fifo[of xs off "fst st" "snd st"] by (auto simp: pipe_put_def)
next
  fix st :: "Pipe \<times> Scheduler" and n ys st'
  assume "pipe_ok (fst st)" "pipe_get n st = Some (ys, st')"
  then show "pipe_ok (fst st') \<and> length ys \<le> n \<and> pipe_contents (fst st) = ys @ pipe_contents (fst st')"
    using Pipe_read_fifo[of n "[]" "fst st" "snd st"] by (auto simp: pipe_get_def)
qed

subsection \<open>Properties\<close>

text \<open>C13: A pipe is a stream: whatever sequence of runs of \<open>write\<close> and \<open>read\<close> is executed on an empty pipe, and
  whether they complete or block, the bytes accepted from the writers are the bytes delivered to the
  readers followed by the contents of the buffer.
\<close>

theorem pipe_stream:
  assumes "pipe_ok p" "pipe_contents p = []" "pipe.chan_run ops ([], [], (p, s)) = Some (sent, got, (p', s'))"
  shows "sent = got @ pipe_contents p'"
  using pipe.chan_run_stream[OF assms(3)] assms(1,2) by simp

definition pipe_ex :: Pipe where
  "pipe_ex = \<lparr>pp_buf = replicate 64 0, pp_head = 2 ^ 64 - 1, pp_tail = 2 ^ 64 - 1, canr = [], canw = [],
     wcnt = 1, rcnt = 1\<rparr>"

lemma pipe_ex_ok: "pipe_ok pipe_ex" "pipe_contents pipe_ex = []" "used pipe_ex = 0"
  by (simp_all add: pipe_ok_def pipe_contents_def pipe_ex_def used_def sub64_def)

lemma notify_empty [simp]:
  "canr p = [] \<Longrightarrow> notify_canr (p, s) = Some (p, s)" "canw p = [] \<Longrightarrow> notify_canw (p, s) = Some (p, s)"
  by (simp_all add: notify_canr_def notify_canw_def notify_one_def)

lemma tryWakeup_empty: "canr p = [] \<Longrightarrow> canw p = [] \<Longrightarrow> tryWakeup (p, s) = Some (p, s)"
  by (simp add: tryWakeup_def)

lemma notify_canr_total:
  assumes "sched_inv s" "\<forall>t \<in> set (canr p). objs s t \<noteq> None" "run s 1 k"
  shows "\<exists>s' w. notify_canr (p, s) = Some (p\<lparr>canr := w\<rparr>, s') \<and> sched_inv s' \<and> run s' 1 k
     \<and> curtask s' = curtask s \<and> dom (objs s') = dom (objs s)"
proof (cases "canr p")
  case Nil
  then have "notify_canr (p, s) = Some (p\<lparr>canr := []\<rparr>, s)" by (simp add: notify_canr_def notify_one_def)
  with assms show ?thesis by blast
next
  case (Cons t ts)
  then obtain s' where s': "wakeup t s = Some s'" using wakeup_total[OF assms(1), of t] assms(2) by auto
  have "curtask s' = curtask s" "dom (objs s') = dom (objs s)"
    using s' by (auto simp: wakeup_def sched_add_def bind_eq_Some_iff split: if_splits)
  with s' Cons wakeup_inv[OF assms(1) s'] wakeup_objs[OF s' assms(3)] show ?thesis
    by (auto simp: notify_canr_def notify_one_def)
qed

lemma tryWakeup_total:
  assumes "sched_inv s" "\<forall>t \<in> set (canr p) \<union> set (canw p). objs s t \<noteq> None" "run s 1 k"
  shows "tryWakeup (p, s) \<noteq> None"
proof -
  obtain q u where q: "(if \<not> Pipe_empty p then notify_canr (p, s) else Some (p, s)) = Some (q, u)"
      "canw q = canw p" "sched_inv u" "dom (objs u) = dom (objs s)"
    using notify_canr_total[of s p k] assms by (cases "Pipe_empty p") auto
  have "notify_canw (q, u) \<noteq> None"
  proof (cases "canw q")
    case (Cons t ts)
    then have "objs s t \<noteq> None" using q(2) assms(2) by auto
    then have "objs u t \<noteq> None" using q(4) by (auto simp: dom_def)
    with wakeup_total[OF q(3), of t] obtain v where "wakeup t u = Some v" by blast
    with Cons show ?thesis by (simp add: notify_canw_def notify_one_def)
  qed simp
  with q(1) show ?thesis by (simp add: tryWakeup_def)
qed

lemma Pipe_write_total:
  assumes "sched_inv s" "run s 1 k" "curtask s = Some c" "c \<noteq> k"
  shows "pipe_ok p \<Longrightarrow> \<forall>t \<in> set (canr p) \<union> set (canw p). objs s t \<noteq> None \<Longrightarrow>
    Pipe_write xs off (p, s) \<noteq> None"
proof (induction "length xs - off" arbitrary: off p rule: less_induct)
  case less
  let ?k = "wlen p (length xs - off)"
  note tw = tryWakeup_total[OF assms(1) less.prems(2) assms(2)]
  consider "\<not> off < length xs" | "off < length xs" "?k = 0" | "off < length xs" "?k \<noteq> 0" by blast
  then show ?case
  proof cases
    case 1
    then show ?thesis using tw by (subst Pipe_write.simps) simp
  next
    case 2
    obtain s' w where n: "notify_canr (p, s) = Some (p\<lparr>canr := w\<rparr>, s')" "sched_inv s'" "run s' 1 k"
        "curtask s' = curtask s"
      using notify_canr_total[of s p k] assms(1,2) less.prems(2) by auto
    obtain u where "kernel_sleep s' = Some u" using kernel_sleep_progress[of s' c k] n assms(3,4) by auto
    then show ?thesis using 2 tw n assms(3) by (subst Pipe_write.simps) (auto simp: cv_wait_def)
  next
    case 3
    then obtain q where "Pipe_write xs off (p, s) = Pipe_write xs (off + ?k) (q, s)" "pipe_ok q" "same_ends p q"
      using Pipe_write_pass[OF less.prems(1) _ refl, of off xs s] by blast
    moreover have "length xs - (off + ?k) < length xs - off" using 3 by linarith
    ultimately show ?thesis using less.hyps[of "off + ?k" q] less.prems(2) by (simp add: same_ends_def)
  qed
qed

lemma Pipe_write_ends:
  "Pipe_write xs off (p, s) = Some (r, off', p', s') \<Longrightarrow> pipe_ok p \<Longrightarrow> off \<le> length xs \<Longrightarrow>
   (case r of Done \<Rightarrow> off' = length xs \<or> used p' = 64 \<and> rcnt p = 0
            | Blocked \<Rightarrow> off' < length xs \<and> used p' = 64 \<and> rcnt p \<noteq> 0)"
proof (induction "length xs - off" arbitrary: off p rule: less_induct)
  case less
  let ?k = "wlen p (length xs - off)"
  show ?case
  proof (cases "off < length xs \<and> ?k \<noteq> 0")
    case True
    then obtain q where "Pipe_write xs off (p, s) = Pipe_write xs (off + ?k) (q, s)" "pipe_ok q" "same_ends p q"
        "off + ?k \<le> length xs"
      using Pipe_write_pass[OF less.prems(2) _ refl, of off xs s] by blast
    moreover have "length xs - (off + ?k) < length xs - off" using True by linarith
    ultimately show ?thesis using less.hyps[of "off + ?k" q] less.prems(1) by (cases r) (auto simp: same_ends_def)
  next
    case False
    then have "off = length xs \<or> off < length xs \<and> ?k = 0 \<and> used p = 64"
      using wlen_0_iff[OF less.prems(2), of "length xs - off"] less.prems(3) by auto
    moreover have "used p' = used p" if "tryWakeup (p, s) = Some (p', s')"
      using tryWakeup_keeps(2)[OF that less.prems(2)] by (metis length_contents)
    moreover have "used (p\<lparr>canr := a, canw := b\<rparr>) = used p" for a b by (simp add: used_def)
    ultimately show ?thesis
      using less.prems(1) notify_keeps(1)[of p s]
      by (subst (asm) Pipe_write.simps) (auto simp: bind_eq_Some_iff cv_wait_def split: if_splits)
  qed
qed

text \<open>C37: A run of \<open>write\<close> by a task other than the idle task always returns.  It ends with everything written,
  or with a full buffer and no reader left, or it blocks with a full buffer while there is a reader; in
  each case exactly the bytes it reports are in the pipe behind the old contents.
\<close>

theorem pipe_write_result:
  assumes "pipe_ok p" "off \<le> length xs" "\<forall>t \<in> set (canr p) \<union> set (canw p). objs s t \<noteq> None"
    "sched_reach kidle s" "curtask s = Some c" "c \<noteq> kidle"
  shows "\<exists>r off' p' s'. Pipe_write xs off (p, s) = Some (r, off', p', s')
     \<and> off \<le> off' \<and> pipe_contents p' = pipe_contents p @ take (off' - off) (drop off xs)
     \<and> (case r of Done \<Rightarrow> off' = length xs \<or> length (pipe_contents p') = 64 \<and> rcnt p = 0
                | Blocked \<Rightarrow> off' < length xs \<and> length (pipe_contents p') = 64 \<and> rcnt p \<noteq> 0)"
proof -
  obtain r off' p' s' where w: "Pipe_write xs off (p, s) = Some (r, off', p', s')"
    using Pipe_write_total[of s kidle c p xs off] reach_inv[OF assms(4)] assms by fastforce
  have "length (pipe_contents p') = used p'" by simp
  with Pipe_write_fifo[OF w assms(1,2)] Pipe_write_ends[OF w assms(1,2)] w show ?thesis by metis
qed

text \<open>70 bytes written into an empty pipe whose counters are about to wrap: the task blocks after 64.\<close>

theorem pipe_write_result_witness:
  "\<exists>off' p' s'. Pipe_write (replicate 70 7) 0 (pipe_ex, sched_ex) = Some (Blocked, off', p', s')
     \<and> off' = 64 \<and> length (pipe_contents p') = 64"
proof -
  obtain r off' p' s' where w: "Pipe_write (replicate 70 7) 0 (pipe_ex, sched_ex) = Some (r, off', p', s')"
      "pipe_contents p' = pipe_contents pipe_ex @ take (off' - 0) (drop 0 (replicate 70 7))"
      "case r of Done \<Rightarrow> off' = length (replicate 70 (7::byte)) \<or> length (pipe_contents p') = 64 \<and> rcnt pipe_ex = 0
                | Blocked \<Rightarrow> off' < length (replicate 70 (7::byte)) \<and> length (pipe_contents p') = 64 \<and> rcnt pipe_ex \<noteq> 0"
    using pipe_write_result[OF pipe_ex_ok(1), of 0 "replicate 70 7" sched_ex 9 4] sched_ex_reach
    by (auto simp: sched_ex_def pipe_ex_def)
  have c: "length (pipe_contents p') = min 70 off'" using w(2) pipe_ex_ok(2) by simp
  have ok: "pipe_ok p'" using Pipe_write_fifo[OF w(1) pipe_ex_ok(1)] by simp
  have "length (pipe_contents p') \<le> 64" using ok by (simp add: pipe_ok_def)
  with w(3) c have "r = Blocked \<and> off' = 64" by (cases r) (auto simp: pipe_ex_def)
  with w(1,3) show ?thesis by auto
qed

text \<open>Without waiting tasks, a write that has room and a read that has bytes complete.\<close>

lemma Pipe_write_room:
  "pipe_ok p \<Longrightarrow> canr p = [] \<Longrightarrow> canw p = [] \<Longrightarrow> off \<le> length xs \<Longrightarrow> used p + (length xs - off) \<le> 64 \<Longrightarrow>
   \<exists>q. Pipe_write xs off (p, s) = Some (Done, length xs, q, s) \<and> canr q = [] \<and> canw q = []"
proof (induction "length xs - off" arbitrary: off p rule: less_induct)
  case less
  let ?k = "wlen p (length xs - off)"
  show ?case
  proof (cases "off < length xs")
    case True
    then have nz: "?k \<noteq> 0" using wlen_0_iff[OF less.prems(1), of "length xs - off"] less.prems(5) by auto
    then obtain q where q: "Pipe_write xs off (p, s) = Pipe_write xs (off + ?k) (q, s)" "pipe_ok q" "same_ends p q"
        "off + ?k \<le> length xs" "pipe_contents q = pipe_contents p @ take ?k (drop off xs)"
      using Pipe_write_pass[OF less.prems(1) True refl, of s] by blast
    have "used q = used p + ?k" using arg_cong[OF q(5), of length] q(4) by simp
    moreover have "length xs - (off + ?k) < length xs - off" using True nz by linarith
    ultimately show ?thesis using less.hyps[of "off + ?k" q] q less.prems(2,3,5) by (simp add: same_ends_def)
  next
    case False
    with less.prems tryWakeup_empty[of p s] show ?thesis by (subst Pipe_write.simps) auto
  qed
qed

lemma Pipe_read_avail:
  "pipe_ok p \<Longrightarrow> canr p = [] \<Longrightarrow> canw p = [] \<Longrightarrow> length acc \<le> len \<Longrightarrow> len - length acc \<le> used p \<Longrightarrow>
   \<exists>acc' q. Pipe_read len acc (p, s) = Some (Done, acc', q, s) \<and> length acc' = len"
proof (induction "len - length acc" arbitrary: acc p rule: less_induct)
  case less
  let ?k = "rlen p (len - length acc)"
  show ?case
  proof (cases "length acc < len")
    case True
    then have nz: "?k \<noteq> 0" using rlen_0_iff[of "len - length acc" p] less.prems(5) by auto
    then obtain q ys where q: "Pipe_read len acc (p, s) = Pipe_read len (acc @ ys) (q, s)" "pipe_ok q" "same_ends p q"
        "pipe_contents p = ys @ pipe_contents q" "length ys = ?k" "length acc + ?k \<le> len"
      using Pipe_read_pass[OF less.prems(1) True refl, of s] by blast
    have "used p = ?k + used q" using arg_cong[OF q(4), of length] q(5) by simp
    moreover from this have "len - length (acc @ ys) \<le> used q" using less.prems(5) q(5) by simp
    moreover have "len - length (acc @ ys) < len - length acc" using True nz q(5) by simp
    ultimately show ?thesis using less.hyps[of "acc @ ys" q] q less.prems(2,3,5) by (simp add: same_ends_def)
  next
    case False
    with less.prems tryWakeup_empty[of p s] show ?thesis by (subst Pipe_read.simps) auto
  qed
qed

text \<open>Three bytes written across the wrap of the counters and two of them read back.\<close>

theorem pipe_stream_witness:
  "\<exists>sent got p' s'. pipe.chan_run [Put [1, 2, 3] 0, Get 2] ([], [], (pipe_ex, sched_ex)) = Some (sent, got, (p', s'))
     \<and> sent = got @ pipe_contents p' \<and> length got = 2"
proof -
  have e: "canr pipe_ex = []" "canw pipe_ex = []" by (simp_all add: pipe_ex_def)
  obtain q where w: "Pipe_write [1, 2, 3] 0 (pipe_ex, sched_ex) = Some (Done, 3, q, sched_ex)"
      "canr q = []" "canw q = []"
    using Pipe_write_room[OF pipe_ex_ok(1) e, of 0 "[1, 2, 3]" sched_ex] pipe_ex_ok(3) by auto
  have q: "pipe_ok q" "length (pipe_contents q) = 3"
    using Pipe_write_fifo[OF w(1) pipe_ex_ok(1)] pipe_ex_ok(2) by simp_all
  obtain acc u where g: "Pipe_read 2 [] (q, sched_ex) = Some (Done, acc, u, sched_ex)" "length acc = 2"
    using Pipe_read_avail[OF q(1) w(2,3), of "[]" 2 sched_ex] q(2) by auto
  have r: "pipe.chan_run [Put [1, 2, 3] 0, Get 2] ([], [], (pipe_ex, sched_ex)) = Some ([1, 2, 3], acc, (u, sched_ex))"
    using w(1) g by (simp add: pipe_put_def pipe_get_def)
  from pipe_stream[OF pipe_ex_ok(1,2) r] r g(2) show ?thesis by blast
qed

end
