(* ===== verification/PageMgr.thy ===== *)
theory PageMgr
  imports Klib
begin

text \<open>
  The physical page allocator \<open>alloc::PageMgr\<close> (\<open>include/alloc.hh\<close>, \<open>kernel/alloc.cc\<close>): a buddy
  allocator whose binary tree is stored as an array of bytes.  The root is node 0, the children of
  node \<open>x\<close> are \<open>2x+1\<close> and \<open>2x+2\<close>, and a node of height \<open>h\<close> covers \<open>2^h\<close> pages.  A byte is the
  \<open>biased\<close> order (order + 1) of the largest free block below the node, 0 if there is none.

  Every array access is checked: an access outside the array, a failed \<open>assert\<close> and the out of
  memory panic are the value \<^term>\<open>None\<close>.  Node numbers and orders are natural numbers; the byte
  of a node holds at most \<open>rootOrder\<close>, and the tree of the physical memory has far fewer than
  \<open>2^31\<close> nodes, so that the \<open>int\<close> variables of \<open>free\<close> hold them.  The \<open>DBG\<close> lines are
  compiled out.
\<close>

subsection \<open>State and operations\<close>

record PageMgr =
  pm_start :: PageNum
  pm_end :: PageNum
  rootOrder :: nat
  buddyTreeSize :: nat
  buddyNodes :: "nat list"
  pagesAllocated :: nat
  pagesFreed :: nat

definition lsub :: "nat \<Rightarrow> nat" where
  "lsub x = (x + 1) * 2 - 1"

definition rsub :: "nat \<Rightarrow> nat" where
  "rsub x = (x + 1) * 2"

definition prnt :: "nat \<Rightarrow> nat" where
  "prnt x = (x + 1) div 2 - 1"

fun pos2node_loop :: "nat \<Rightarrow> nat \<Rightarrow> nat \<Rightarrow> nat \<Rightarrow> nat" where
  "pos2node_loop pos order 0 nd = nd"
| "pos2node_loop pos order (Suc sz) nd =
     (if sz \<ge> order
      then pos2node_loop pos order sz (if (pos div 2 ^ sz) mod 2 = 1 then rsub nd else lsub nd)
      else nd)"

definition pos2node :: "nat \<Rightarrow> nat \<Rightarrow> nat \<Rightarrow> nat" where
  "pos2node R pos order = pos2node_loop pos order R 0"

text \<open>
  The search loop of \<open>alloc\<close>: \<open>size\<close> counts down from \<open>rootOrder + 1\<close> to \<open>rounded\<close>; the result
  is the array after the splits and the node found (0 if none).
\<close>

fun alloc_find :: "nat \<Rightarrow> nat \<Rightarrow> nat list \<Rightarrow> nat \<Rightarrow> nat \<Rightarrow> (nat list \<times> nat) option" where
  "alloc_find rounded 0 nodes nd node = Some (nodes, node)"
| "alloc_find rounded (Suc s) nodes nd node =
     (if rounded \<le> Suc s then do {
        v \<leftarrow> rd nodes nd;
        if v = Suc s \<and> v = rounded then alloc_find rounded s nodes nd nd
        else if v = Suc s then do {
          nodes1 \<leftarrow> wr nodes (rsub nd) s;
          nodes2 \<leftarrow> wr nodes1 (lsub nd) s;
          alloc_find rounded s nodes2 (lsub nd) node
        } else do {
          l \<leftarrow> rd nodes (lsub nd);
          r \<leftarrow> rd nodes (rsub nd);
          alloc_find rounded s nodes
            (if min l r \<ge> rounded
             then (if l < r then lsub nd else rsub nd)
             else (if l > r then lsub nd else rsub nd)) node
        }
      } else Some (nodes, node))"

definition set_max :: "nat list \<Rightarrow> nat \<Rightarrow> nat list option" where
  "set_max nodes nd = do {
     l \<leftarrow> rd nodes (lsub nd);
     r \<leftarrow> rd nodes (rsub nd);
     wr nodes nd (max l r)
   }"

lemma prnt_less [simp]: "0 < nd \<Longrightarrow> prnt nd < nd"
  by (simp add: prnt_def)

fun alloc_up :: "nat list \<Rightarrow> nat \<Rightarrow> nat list option" where
  "alloc_up nodes nd =
     (if nd > 0 then do { nodes' \<leftarrow> set_max nodes nd; alloc_up nodes' (prnt nd) } else Some nodes)"

declare alloc_up.simps [simp del]

definition alloc :: "nat \<Rightarrow> PageMgr \<Rightarrow> (PageNum \<times> PageMgr) option" where
  "alloc pages pm = (
     let rounded = log2up pages + 1; R = rootOrder pm in do {
       v \<leftarrow> rd (buddyNodes pm) 0;
       ensure (\<not> v < rounded);
       (nodes, node) \<leftarrow> alloc_find rounded (R + 1) (buddyNodes pm) 0 0;
       ensure (node > 0);
       nodes \<leftarrow> wr nodes node 0;
       nodes \<leftarrow> alloc_up nodes (prnt node);
       nodes \<leftarrow> set_max nodes 0;
       let ppn = pm_start pm + (node + 1 - 2 ^ (R + 1 - rounded)) * 2 ^ (rounded - 1);
       ensure (ppn < pm_end pm);
       ensure (ppn > 0);
       Some (ppn, pm\<lparr>buddyNodes := nodes,
                     pagesAllocated := add64 (pagesAllocated pm) (2 ^ (rounded - 1))\<rparr>)
     })"

fun free_up :: "nat list \<Rightarrow> nat \<Rightarrow> nat \<Rightarrow> nat list option" where
  "free_up nodes idx order =
     (if idx > 0 then do {
        l \<leftarrow> rd nodes (lsub idx);
        r \<leftarrow> rd nodes (rsub idx);
        nodes' \<leftarrow> wr nodes idx (if l = r \<and> l = order then l + 1 else max l r);
        free_up nodes' (prnt idx) (order + 1)
      } else Some nodes)"

declare free_up.simps [simp del]

definition free :: "PageNum \<Rightarrow> nat \<Rightarrow> PageMgr \<Rightarrow> PageMgr option" where
  "free ppn order pm = (
     let idx = pos2node (rootOrder pm) (sub64 ppn (pm_start pm)) order in do {
       v \<leftarrow> rd (buddyNodes pm) idx;
       ensure (v = 0);
       nodes \<leftarrow> wr (buddyNodes pm) idx (order + 1);
       nodes \<leftarrow> free_up nodes (prnt idx) (order + 1);
       nodes \<leftarrow> set_max nodes 0;
       Some (pm\<lparr>buddyNodes := nodes, pagesFreed := add64 (pagesFreed pm) (2 ^ order)\<rparr>)
     })"

text \<open>The argument \<open>n\<close> is \<open>i + 1\<close> for the loop variable \<open>i\<close> of \<open>freeUnaligned\<close>.\<close>

fun freeUnaligned_loop :: "nat \<Rightarrow> PageNum \<Rightarrow> nat \<Rightarrow> PageMgr \<Rightarrow> PageMgr option" where
  "freeUnaligned_loop 0 ppn pages pm = Some pm"
| "freeUnaligned_loop (Suc i) ppn pages pm =
     (if (pages div 2 ^ i) mod 2 = 1
      then do { pm' \<leftarrow> free ppn i pm; freeUnaligned_loop i (add64 ppn (2 ^ i)) pages pm' }
      else freeUnaligned_loop i ppn pages pm)"

definition freeUnaligned :: "PageNum \<Rightarrow> nat \<Rightarrow> PageMgr \<Rightarrow> PageMgr option" where
  "freeUnaligned ppn pages pm = freeUnaligned_loop (rootOrder pm + 1) ppn pages pm"

text \<open>
  The constructor: \<open>buddyNodes[0]\<close> is left as the heap gave it (the parameter \<open>g\<close>), the other
  nodes are cleared, and the range is released block by block.
\<close>

definition PageMgr_init :: "nat \<Rightarrow> PageNum \<Rightarrow> PageNum \<Rightarrow> PageMgr option" where
  "PageMgr_init g s e = (
     let pages = sub64 e s; R = log2up pages; sz = 2 ^ R * 2 - 1 in
     freeUnaligned s pages
       \<lparr>pm_start = s, pm_end = e, rootOrder = R, buddyTreeSize = sz,
        buddyNodes = g # replicate (sz - 1) 0, pagesAllocated = 0, pagesFreed = 0\<rparr>)"

end
