(* ===== verification/PageMgrTree.thy ===== *)
theory PageMgrTree
  imports PageMgr
begin

text \<open>
  Correctness of the buddy allocator.  The byte array is related to a ghost tree by \<open>rep\<close>; the
  path from the root to a node is a list of siblings (\<open>rep_ctx\<close>), because the loops of \<open>alloc\<close>
  and \<open>free\<close> walk from a node to the root.  From the tree are read the set of free pages
  (\<open>free_at\<close>) and the set of allocated blocks (\<open>used_at\<close>), the abstract state of the allocator.
\<close>

subsection \<open>Node numbers\<close>

definition desc :: "nat \<Rightarrow> nat \<Rightarrow> bool" where
  "desc n i \<longleftrightarrow> (\<exists>d. (i + 1) div 2 ^ d = n + 1)"

definition sib :: "nat \<Rightarrow> nat" where
  "sib n = (if odd n then n + 1 else n - 1)"

lemma desc_refl [simp]: "desc n n"
  unfolding desc_def by (rule exI[of _ 0]) simp

lemma lsub_plus1: "lsub x + 1 = 2 * (x + 1)" and rsub_plus1: "rsub x + 1 = 2 * (x + 1) + 1"
  by (simp_all add: lsub_def rsub_def)

lemma desc_ge: "desc n i \<Longrightarrow> n \<le> i"
  unfolding desc_def using div_le_dividend by (metis add_le_cancel_right)

lemma desc_child: "desc (lsub n) i \<Longrightarrow> desc n i" "desc (rsub n) i \<Longrightarrow> desc n i"
proof -
  have step: "(i + 1) div 2 ^ Suc d = n + 1" if "(i + 1) div 2 ^ d = m + 1" "(m + 1) div 2 = n + 1" for d m
    using that by (simp add: div_mult2_eq[symmetric] flip: div_exp_eq) (metis div_mult2_eq mult.commute)
  show "desc (lsub n) i \<Longrightarrow> desc n i"
    unfolding desc_def by (metis step lsub_plus1 nonzero_mult_div_cancel_left zero_neq_numeral)
  show "desc (rsub n) i \<Longrightarrow> desc n i"
    unfolding desc_def by (metis step rsub_plus1 Suc_eq_plus1 even_mult_iff even_Suc_div_two
        nonzero_mult_div_cancel_left zero_neq_numeral dvd_refl)
qed

lemma desc_children_disjoint: "desc (lsub n) i \<Longrightarrow> \<not> desc (rsub n) i"
proof
  assume "desc (lsub n) i" "desc (rsub n) i"
  then obtain d e where de: "(i + 1) div 2 ^ d = 2 * (n + 1)" "(i + 1) div 2 ^ e = 2 * (n + 1) + 1"
    unfolding desc_def using lsub_plus1 rsub_plus1 by metis
  consider "d = e" | k where "d = e + Suc k" | k where "e = d + Suc k"
    by (metis add_Suc_right less_imp_Suc_add linorder_neqE_nat)
  then show False
  proof cases
    case 1
    with de show False by simp
  next
    case (2 k)
    then have "2 * (n + 1) = (2 * (n + 1) + 1) div 2 ^ Suc k"
      using de by (metis div_exp_eq)
    also have "\<dots> \<le> (2 * (n + 1) + 1) div 2" by (rule div_le_mono2) simp_all
    finally show False by simp
  next
    case (3 k)
    then have "2 * (n + 1) + 1 = (2 * (n + 1)) div 2 ^ Suc k"
      using de by (metis div_exp_eq)
    also have "\<dots> \<le> (2 * (n + 1)) div 2" by (rule div_le_mono2) simp_all
    finally show False by simp
  qed
qed

lemma prnt_sub [simp]: "prnt (lsub n) = n" "prnt (rsub n) = n"
  by (simp_all add: prnt_def lsub_def rsub_def)

lemma sib_sub [simp]: "sib (lsub n) = rsub n" "sib (rsub n) = lsub n"
  by (simp_all add: sib_def lsub_def rsub_def)

lemma sub_pos [simp]: "0 < lsub n" "0 < rsub n" "n < lsub n" "n < rsub n" "lsub n \<noteq> rsub n"
  "lsub n \<noteq> n" "rsub n \<noteq> n" "rsub n \<noteq> lsub n" "n \<noteq> lsub n" "n \<noteq> rsub n"
  by (simp_all add: lsub_def rsub_def)

lemma not_desc_sub [simp]: "\<not> desc (lsub n) n" "\<not> desc (rsub n) n"
  using desc_ge sub_pos(3,4) by (metis leD)+

lemma not_desc_sib [simp]: "\<not> desc (lsub n) (rsub n)" "\<not> desc (rsub n) (lsub n)"
  using desc_children_disjoint desc_refl by blast+

lemma node_cases: obtains "n = 0" | m where "n = lsub m" | m where "n = rsub m"
proof -
  have "n = 0 \<or> n = lsub (prnt n) \<or> n = rsub (prnt n)"
    by (cases "odd n") (auto simp: lsub_def rsub_def prnt_def elim!: oddE evenE)
  with that show thesis by blast
qed

subsection \<open>The ghost tree\<close>

datatype bt = BFree | BUsed | BNode bt bt

fun rep :: "nat list \<Rightarrow> nat \<Rightarrow> nat \<Rightarrow> bt \<Rightarrow> bool" where
  "rep ns n h BFree \<longleftrightarrow> ns ! n = h + 1"
| "rep ns n h BUsed \<longleftrightarrow> ns ! n = 0"
| "rep ns n h (BNode l r) \<longleftrightarrow>
     0 < h \<and> ns ! n = max (ns ! lsub n) (ns ! rsub n) \<and>
     rep ns (lsub n) (h - 1) l \<and> rep ns (rsub n) (h - 1) r"

type_synonym ctx = "(bool \<times> bt) list"

definition node_of :: "bool \<Rightarrow> bt \<Rightarrow> bt \<Rightarrow> bt" where
  "node_of d s t = (if d then BNode s t else BNode t s)"

fun fill :: "bt \<Rightarrow> ctx \<Rightarrow> bt" where
  "fill t [] = t"
| "fill t ((d, s) # c) = fill (node_of d s t) c"

text \<open>The tree that the merging loop of \<open>free\<close> builds: buddies merge below the root.\<close>

fun mfill :: "bt \<Rightarrow> ctx \<Rightarrow> bt" where
  "mfill t [] = t"
| "mfill t [(d, s)] = node_of d s t"
| "mfill t ((d, s) # c) = mfill (if t = BFree \<and> s = BFree then BFree else node_of d s t) c"

fun rep_ctx :: "nat \<Rightarrow> nat list \<Rightarrow> nat \<Rightarrow> nat \<Rightarrow> ctx \<Rightarrow> bool" where
  "rep_ctx R ns n h [] \<longleftrightarrow> n = 0 \<and> h = R"
| "rep_ctx R ns n h ((d, s) # c) \<longleftrightarrow>
     n = (if d then rsub (prnt n) else lsub (prnt n)) \<and>
     rep ns (sib n) h s \<and> rep_ctx R ns (prnt n) (h + 1) c"

lemma rep_cong: "(\<And>i. desc n i \<Longrightarrow> ns ! i = ns' ! i) \<Longrightarrow> rep ns n h t = rep ns' n h t"
proof (induction ns n h t rule: rep.induct)
  case (3 ns n h l r)
  have "rep ns (lsub n) (h - 1) l = rep ns' (lsub n) (h - 1) l"
       "rep ns (rsub n) (h - 1) r = rep ns' (rsub n) (h - 1) r"
    using 3 desc_child by blast+
  moreover have "ns ! n = ns' ! n" "ns ! lsub n = ns' ! lsub n" "ns ! rsub n = ns' ! rsub n"
    using 3(3) desc_child desc_refl by blast+
  ultimately show ?case by simp
qed simp_all

lemma rep_upd: "\<not> desc n i \<Longrightarrow> rep (ns[i := v]) n h t = rep ns n h t"
  by (rule rep_cong) (metis nth_list_update_neq)

lemma rep_ctx_cong:
  "(\<And>i. \<not> desc n i \<Longrightarrow> ns ! i = ns' ! i) \<Longrightarrow> rep_ctx R ns n h c = rep_ctx R ns' n h c"
proof (induction R ns n h c rule: rep_ctx.induct)
  case (2 R ns n h d s c)
  show ?case
  proof (cases "n = (if d then rsub (prnt n) else lsub (prnt n))")
    case True
    then have *: "desc (sib n) i \<Longrightarrow> \<not> desc n i" "\<not> desc (prnt n) i \<Longrightarrow> \<not> desc n i" for i
      using desc_children_disjoint desc_child sib_sub by (metis (full_types))+
    have "rep ns (sib n) h s = rep ns' (sib n) h s" by (rule rep_cong) (use * 2 in blast)
    moreover have "rep_ctx R ns (prnt n) (h + 1) c = rep_ctx R ns' (prnt n) (h + 1) c"
      by (rule 2(1)) (use * 2 in blast)
    ultimately show ?thesis by simp
  qed simp
qed simp

lemma rep_ctx_upd: "desc n i \<Longrightarrow> rep_ctx R (ns[i := v]) n h c = rep_ctx R ns n h c"
  by (rule rep_ctx_cong) (metis nth_list_update_neq)

text \<open>The part of the shape of a context that does not depend on the array.\<close>

fun ctx_at :: "nat \<Rightarrow> nat \<Rightarrow> nat \<Rightarrow> ctx \<Rightarrow> bool" where
  "ctx_at R n h [] \<longleftrightarrow> n = 0 \<and> h = R"
| "ctx_at R n h ((d, s) # c) \<longleftrightarrow>
     n = (if d then rsub (prnt n) else lsub (prnt n)) \<and> ctx_at R (prnt n) (h + 1) c"

lemma rep_ctx_at: "rep_ctx R ns n h c \<Longrightarrow> ctx_at R n h c"
  by (induction R ns n h c rule: rep_ctx.induct) auto

lemma ctx_at_bounds:
  "ctx_at R n h c \<Longrightarrow> (n + 2) * 2 ^ h \<le> 2 ^ (R + 1) \<and> 2 ^ R \<le> (n + 1) * 2 ^ h \<and> h \<le> R"
proof (induction R n h c rule: ctx_at.induct)
  case (2 R n h d s c)
  then have IH: "(prnt n + 2) * 2 ^ (h + 1) \<le> 2 ^ (R + 1)" "2 ^ R \<le> (prnt n + 1) * 2 ^ (h + 1)" "h + 1 \<le> R"
    and n: "n = (if d then rsub (prnt n) else lsub (prnt n))" by auto
  have a: "n + 2 \<le> 2 * (prnt n + 2)" "2 * (prnt n + 1) \<le> n + 1"
    using n by (auto simp: lsub_def rsub_def split: if_splits)
  have "(n + 2) * 2 ^ h \<le> 2 * (prnt n + 2) * 2 ^ h" "2 * (prnt n + 1) * 2 ^ h \<le> (n + 1) * 2 ^ h"
    using a mult_le_mono1 by blast+
  moreover have "2 * (prnt n + 2) * 2 ^ h = (prnt n + 2) * 2 ^ (h + 1)"
    "2 * (prnt n + 1) * 2 ^ h = (prnt n + 1) * 2 ^ (h + 1)" by simp_all
  ultimately show ?case using IH by linarith
qed simp

lemmas rep_ctx_bounds = ctx_at_bounds[OF rep_ctx_at]

lemma rep_ctx_in:
  assumes "rep_ctx R ns n h c" "length ns = 2 ^ (R + 1) - 1"
  shows "n < length ns"
proof -
  have "(n + 2) * 1 \<le> (n + 2) * 2 ^ h" by (rule mult_le_mono2) simp
  also have "\<dots> \<le> 2 ^ (R + 1)" using rep_ctx_bounds[OF assms(1)] by blast
  finally show ?thesis using assms(2) by simp
qed

lemma rep_ctx_in_children:
  assumes "rep_ctx R ns n h c" "length ns = 2 ^ (R + 1) - 1" "0 < h"
  shows "lsub n < length ns" "rsub n < length ns"
proof -
  have "(n + 2) * 2 ^ 1 \<le> (n + 2) * 2 ^ h"
    using assms(3) by (intro mult_le_mono2 power_increasing) auto
  also have "\<dots> \<le> 2 ^ (R + 1)" using rep_ctx_bounds[OF assms(1)] by blast
  finally show "lsub n < length ns" "rsub n < length ns" using assms(2) by (auto simp: lsub_def rsub_def)
qed

text \<open>The value stored at a node.\<close>

lemma rep_le: "rep ns n h t \<Longrightarrow> ns ! n \<le> h + 1"
  by (induction ns n h t rule: rep.induct) auto

lemma rep_full_iff: "rep ns n h t \<Longrightarrow> ns ! n = h + 1 \<longleftrightarrow> t = BFree"
proof (cases t)
  case (BNode l r)
  assume "rep ns n h t"
  with BNode have "0 < h" "ns ! n = max (ns ! lsub n) (ns ! rsub n)"
    "ns ! lsub n \<le> h - 1 + 1" "ns ! rsub n \<le> h - 1 + 1"
    using rep_le[of ns "lsub n" "h - 1" l] rep_le[of ns "rsub n" "h - 1" r] by auto
  with BNode show ?thesis by auto
qed auto

subsection \<open>The loops from a node to the root\<close>

lemma rep_node_of:
  assumes "rep ns n h t" "rep_ctx R ns n h ((d, s) # c)" "length ns = 2 ^ (R + 1) - 1"
    and v: "v = max (ns ! lsub (prnt n)) (ns ! rsub (prnt n))"
  shows "rep (ns[prnt n := v]) (prnt n) (h + 1) (node_of d s t)"
    and "rep_ctx R (ns[prnt n := v]) (prnt n) (h + 1) c"
proof -
  obtain m where m: "prnt n = m" by simp
  with assms(2) have n: "n = (if d then rsub m else lsub m)"
    and s: "rep ns (sib n) h s" and c: "rep_ctx R ns m (h + 1) c" by auto
  have sn: "sib n = (if d then lsub m else rsub m)" by (cases d) (simp_all add: n)
  show "rep_ctx R (ns[prnt n := v]) (prnt n) (h + 1) c" using c m by (simp add: rep_ctx_upd)
  have ml: "m < length ns" using rep_ctx_in[OF c assms(3)] .
  have "rep (ns[m := v]) n h t" "rep (ns[m := v]) (sib n) h s"
    using assms(1) s unfolding sn unfolding n by (auto simp: rep_upd)
  then show "rep (ns[prnt n := v]) (prnt n) (h + 1) (node_of d s t)"
    unfolding m sn v unfolding n using ml by (cases d) (simp_all add: node_of_def)
qed

lemma rep_merge:
  assumes "rep_ctx R ns n h ((d, s) # c)" "length ns = 2 ^ (R + 1) - 1"
  shows "rep (ns[prnt n := h + 2]) (prnt n) (h + 1) BFree"
    and "rep_ctx R (ns[prnt n := h + 2]) (prnt n) (h + 1) c"
  using assms rep_ctx_in[of R ns "prnt n" "h + 1" c] by (auto simp: rep_ctx_upd)

lemma rep_ctx_prnt_bounds:
  assumes "rep_ctx R ns n h ((d, s) # c)" "length ns = 2 ^ (R + 1) - 1"
  shows "prnt n < length ns" "lsub (prnt n) < length ns" "rsub (prnt n) < length ns"
  using assms rep_ctx_in[of R ns "prnt n" "h + 1" c] rep_ctx_in_children[of R ns "prnt n" "h + 1" c]
  by auto

lemma rep_ctx_pos: "rep_ctx R ns n h c \<Longrightarrow> 0 < n \<longleftrightarrow> c \<noteq> []"
  by (cases "(R, ns, n, h, c)" rule: rep_ctx.cases) (auto, metis sub_pos(1,2))

lemma set_max_in:
  "\<lbrakk>nd < length ns; lsub nd < length ns; rsub nd < length ns\<rbrakk> \<Longrightarrow>
   set_max ns nd = Some (ns[nd := max (ns ! lsub nd) (ns ! rsub nd)])"
  by (simp add: set_max_def rd_in wr_in)

lemma alloc_up_ok:
  assumes "rep ns n h t" "rep_ctx R ns n h c" "c \<noteq> []" "length ns = 2 ^ (R + 1) - 1"
  shows "\<exists>ns1 ns2. alloc_up ns (prnt n) = Some ns1 \<and> set_max ns1 0 = Some ns2 \<and>
           length ns2 = length ns \<and> rep ns2 0 R (fill t c)"
  using assms
proof (induction c arbitrary: ns n h t)
  case (Cons ds c)
  obtain d s where ds: "ds = (d, s)" by force
  let ?m = "prnt n" and ?ns = "ns[prnt n := max (ns ! lsub (prnt n)) (ns ! rsub (prnt n))]"
  note step = rep_node_of[OF Cons.prems(1) Cons.prems(2)[unfolded ds] Cons.prems(4) refl]
  note inb = rep_ctx_prnt_bounds[OF Cons.prems(2)[unfolded ds] Cons.prems(4)]
  have sm: "set_max ns ?m = Some ?ns" using inb by (simp add: set_max_in)
  show ?case
  proof (cases "c = []")
    case True
    then have "?m = 0" "h + 1 = R" using step(2) by auto
    then show ?thesis using sm step(1) ds True
      by (subst alloc_up.simps) (auto simp: alloc_up.simps)
  next
    case False
    then have "0 < ?m" using rep_ctx_pos[OF step(2)] by simp
    moreover from Cons.IH[OF step False] Cons.prems(4) obtain ns1 ns2 where
      "alloc_up ?ns (prnt ?m) = Some ns1" "set_max ns1 0 = Some ns2"
      "length ns2 = length ns" "rep ns2 0 R (fill (node_of d s t) c)" by auto
    ultimately show ?thesis using sm ds by (subst alloc_up.simps) auto
  qed
qed simp

lemma free_up_ok:
  assumes "rep ns n h t" "rep_ctx R ns n h c" "c \<noteq> []" "length ns = 2 ^ (R + 1) - 1"
  shows "\<exists>ns1 ns2. free_up ns (prnt n) (h + 1) = Some ns1 \<and> set_max ns1 0 = Some ns2 \<and>
           length ns2 = length ns \<and> rep ns2 0 R (mfill t c)"
  using assms
proof (induction c arbitrary: ns n h t)
  case (Cons ds c)
  obtain d s where ds: "ds = (d, s)" by force
  let ?m = "prnt n" and ?l = "ns ! lsub (prnt n)" and ?r = "ns ! rsub (prnt n)"
  note ctx = Cons.prems(2)[unfolded ds]
  note step = rep_node_of[OF Cons.prems(1) ctx Cons.prems(4) refl]
  note mstep = rep_merge[OF ctx Cons.prems(4)]
  note inb = rep_ctx_prnt_bounds[OF ctx Cons.prems(4)]
  show ?case
  proof (cases "c = []")
    case True
    then have "?m = 0" "h + 1 = R" using step(2) by auto
    then show ?thesis using set_max_in[OF inb] step(1) ds True
      by (subst free_up.simps) (auto simp: free_up.simps)
  next
    case False
    let ?t = "if t = BFree \<and> s = BFree then BFree else node_of d s t"
    let ?v = "if ?l = ?r \<and> ?l = h + 1 then ?l + 1 else max ?l ?r"
    have both: "?l = ?r \<and> ?l = h + 1 \<longleftrightarrow> t = BFree \<and> s = BFree"
      using rep_full_iff[OF Cons.prems(1)] rep_full_iff[of ns "sib n" h s] ctx
      by (cases d) (auto, (metis sib_sub)+)
    then have "rep (ns[?m := ?v]) ?m (h + 1) ?t" "rep_ctx R (ns[?m := ?v]) ?m (h + 1) c"
      using step mstep by (auto split: if_splits)
    from Cons.IH[OF this False] Cons.prems(4) obtain ns1 ns2 where
      *: "free_up (ns[?m := ?v]) (prnt ?m) (h + 1 + 1) = Some ns1" "set_max ns1 0 = Some ns2"
      "length ns2 = length ns" "rep ns2 0 R (mfill ?t c)" by auto
    have "0 < ?m" using rep_ctx_pos[OF step(2)] False by simp
    then have "free_up ns ?m (h + 1) = Some ns1"
      by (subst free_up.simps) (use inb * in \<open>simp add: rd_in wr_in\<close>)
    moreover have "mfill t (ds # c) = mfill ?t c" using False ds by (cases c) auto
    ultimately show ?thesis using * by auto
  qed
qed simp

subsection \<open>Free pages and allocated blocks of a tree\<close>

definition bpos :: "nat \<Rightarrow> nat \<Rightarrow> nat \<Rightarrow> nat" where
  "bpos R n h = (n + 1) * 2 ^ h - 2 ^ R"

definition block :: "nat \<Rightarrow> nat \<Rightarrow> nat set" where
  "block p k = {p ..< p + 2 ^ k}"

fun free_at :: "nat \<Rightarrow> nat \<Rightarrow> nat \<Rightarrow> bt \<Rightarrow> nat set" where
  "free_at R n h BFree = block (bpos R n h) h"
| "free_at R n h BUsed = {}"
| "free_at R n h (BNode l r) = free_at R (lsub n) (h - 1) l \<union> free_at R (rsub n) (h - 1) r"

fun used_at :: "nat \<Rightarrow> nat \<Rightarrow> nat \<Rightarrow> bt \<Rightarrow> (nat \<times> nat) set" where
  "used_at R n h BFree = {}"
| "used_at R n h BUsed = {(bpos R n h, h)}"
| "used_at R n h (BNode l r) = used_at R (lsub n) (h - 1) l \<union> used_at R (rsub n) (h - 1) r"

fun free_ctx :: "nat \<Rightarrow> nat \<Rightarrow> nat \<Rightarrow> ctx \<Rightarrow> nat set" where
  "free_ctx R n h [] = {}"
| "free_ctx R n h ((d, s) # c) = free_at R (sib n) h s \<union> free_ctx R (prnt n) (h + 1) c"

fun used_ctx :: "nat \<Rightarrow> nat \<Rightarrow> nat \<Rightarrow> ctx \<Rightarrow> (nat \<times> nat) set" where
  "used_ctx R n h [] = {}"
| "used_ctx R n h ((d, s) # c) = used_at R (sib n) h s \<union> used_ctx R (prnt n) (h + 1) c"

lemma node_of_at:
  assumes "n = (if d then rsub (prnt n) else lsub (prnt n))"
  shows "free_at R (prnt n) (h + 1) (node_of d s t) = free_at R n h t \<union> free_at R (sib n) h s"
    and "used_at R (prnt n) (h + 1) (node_of d s t) = used_at R n h t \<union> used_at R (sib n) h s"
proof -
  obtain m where m: "prnt n = m" by simp
  then have n: "n = (if d then rsub m else lsub m)" using assms by metis
  have sn: "sib n = (if d then lsub m else rsub m)" by (cases d) (simp_all add: n)
  show "free_at R (prnt n) (h + 1) (node_of d s t) = free_at R n h t \<union> free_at R (sib n) h s"
    unfolding m sn unfolding n by (cases d) (auto simp: node_of_def)
  show "used_at R (prnt n) (h + 1) (node_of d s t) = used_at R n h t \<union> used_at R (sib n) h s"
    unfolding m sn unfolding n by (cases d) (auto simp: node_of_def)
qed

lemma fill_at:
  assumes "ctx_at R n h c"
  shows "free_at R 0 R (fill t c) = free_at R n h t \<union> free_ctx R n h c"
    and "used_at R 0 R (fill t c) = used_at R n h t \<union> used_ctx R n h c"
  using assms
proof (induction c arbitrary: n h t)
  case (Cons ds c)
  obtain d s where ds: "ds = (d, s)" by force
  { case 1 with Cons.IH(1)[of "prnt n" "h + 1" "node_of d s t"] show ?case
      using node_of_at(1)[of n d R h s t] by (simp add: ds Un_assoc) }
  { case 2 with Cons.IH(2)[of "prnt n" "h + 1" "node_of d s t"] show ?case
      using node_of_at(2)[of n d R h s t] by (simp add: ds Un_assoc) }
qed simp_all

lemma bpos_sub:
  assumes "0 < h" "2 ^ R \<le> (n + 1) * 2 ^ h"
  shows "bpos R (lsub n) (h - 1) = bpos R n h" "bpos R (rsub n) (h - 1) = bpos R n h + 2 ^ (h - 1)"
  using assms by (cases h; simp add: bpos_def lsub_def rsub_def algebra_simps)+

lemma block_split:
  assumes "0 < h" "2 ^ R \<le> (n + 1) * 2 ^ h"
  shows "block (bpos R (lsub n) (h - 1)) (h - 1) \<union> block (bpos R (rsub n) (h - 1)) (h - 1) = block (bpos R n h) h"
    and "block (bpos R (lsub n) (h - 1)) (h - 1) \<inter> block (bpos R (rsub n) (h - 1)) (h - 1) = {}"
  using assms bpos_sub[OF assms] by (cases h; auto simp: block_def)+

lemma base_sub:
  assumes "0 < h" "2 ^ R \<le> (n + 1) * 2 ^ h"
  shows "2 ^ R \<le> (lsub n + 1) * 2 ^ (h - 1)" "2 ^ R \<le> (rsub n + 1) * 2 ^ (h - 1)"
  using assms by (cases h; simp add: lsub_def rsub_def algebra_simps)+

fun wfh :: "nat \<Rightarrow> bt \<Rightarrow> bool" where
  "wfh h (BNode l r) \<longleftrightarrow> 0 < h \<and> wfh (h - 1) l \<and> wfh (h - 1) r"
| "wfh h _ \<longleftrightarrow> True"

lemma rep_wfh: "rep ns n h t \<Longrightarrow> wfh h t"
  by (induction ns n h t rule: rep.induct) auto

definition pages_of :: "(nat \<times> nat) set \<Rightarrow> nat set" where
  "pages_of U = (\<Union>(p, k)\<in>U. block p k)"

lemma pages_of_simps [simp]:
  "pages_of {} = {}" "pages_of (insert (p, k) U) = block p k \<union> pages_of U"
  "pages_of (U \<union> V) = pages_of U \<union> pages_of V"
  by (auto simp: pages_of_def)

lemma block_nonempty [simp]: "block p k \<noteq> {}" "p \<in> block p k"
  by (auto simp: block_def)

lemma used_at_block:
  "\<lbrakk>wfh h t; 2 ^ R \<le> (n + 1) * 2 ^ h; (p, k) \<in> used_at R n h t\<rbrakk> \<Longrightarrow> block p k \<subseteq> block (bpos R n h) h"
proof (induction R n h t rule: used_at.induct)
  case (3 R n h l r)
  then show ?case using block_split(1)[of h R n] base_sub[of h R n] by auto
qed auto

lemma free_at_block:
  "\<lbrakk>wfh h t; 2 ^ R \<le> (n + 1) * 2 ^ h\<rbrakk> \<Longrightarrow> free_at R n h t \<subseteq> block (bpos R n h) h"
proof (induction R n h t rule: free_at.induct)
  case (3 R n h l r)
  then show ?case using block_split(1)[of h R n] base_sub[of h R n] by auto
qed auto

lemma pages_at_block:
  "\<lbrakk>wfh h t; 2 ^ R \<le> (n + 1) * 2 ^ h\<rbrakk> \<Longrightarrow> pages_of (used_at R n h t) \<subseteq> block (bpos R n h) h"
  using used_at_block by (fastforce simp: pages_of_def)

lemma cover_at:
  "\<lbrakk>wfh h t; 2 ^ R \<le> (n + 1) * 2 ^ h\<rbrakk> \<Longrightarrow>
   free_at R n h t \<union> pages_of (used_at R n h t) = block (bpos R n h) h"
proof (induction R n h t rule: free_at.induct)
  case (3 R n h l r)
  then show ?case using block_split(1)[of h R n] base_sub[of h R n] by auto
qed auto

lemma disjoint_at:
  "\<lbrakk>wfh h t; 2 ^ R \<le> (n + 1) * 2 ^ h\<rbrakk> \<Longrightarrow> free_at R n h t \<inter> pages_of (used_at R n h t) = {}"
proof (induction R n h t rule: free_at.induct)
  case (3 R n h l r)
  then have h: "0 < h" "2 ^ R \<le> (n + 1) * 2 ^ h" by auto
  note b = base_sub[OF h] block_split(2)[OF h]
  show ?case using 3 b free_at_block[of "h - 1" l R "lsub n"] free_at_block[of "h - 1" r R "rsub n"]
      pages_at_block[of "h - 1" l R "lsub n"] pages_at_block[of "h - 1" r R "rsub n"]
    by simp blast
qed auto

lemma used_disjoint_at:
  "\<lbrakk>wfh h t; 2 ^ R \<le> (n + 1) * 2 ^ h; (p, k) \<in> used_at R n h t; (q, j) \<in> used_at R n h t; (p, k) \<noteq> (q, j)\<rbrakk>
   \<Longrightarrow> block p k \<inter> block q j = {}"
proof (induction R n h t rule: used_at.induct)
  case (3 R n h l r)
  then have h: "0 < h" "2 ^ R \<le> (n + 1) * 2 ^ h" by auto
  note b = base_sub[OF h] block_split(2)[OF h]
  show ?case using 3 b used_at_block[of "h - 1" l R "lsub n"] used_at_block[of "h - 1" r R "rsub n"]
    by simp blast
qed auto

lemma bpos_dvd: "h \<le> R \<Longrightarrow> 2 ^ h dvd bpos R n h"
  by (simp add: bpos_def le_imp_power_dvd dvd_diff_nat)

lemma used_at_aligned:
  "\<lbrakk>wfh h t; h \<le> R; (p, k) \<in> used_at R n h t\<rbrakk> \<Longrightarrow> 2 ^ k dvd p \<and> k \<le> h"
proof (induction R n h t rule: used_at.induct)
  case (3 R n h l r)
  then have "2 ^ k dvd p \<and> k \<le> h - 1" by auto
  then show ?case by linarith
qed (auto simp: bpos_dvd)

lemma rep_zero_iff:
  "rep ns n h t \<Longrightarrow> ns ! n = 0 \<longleftrightarrow> free_at R n h t = {}"
  by (induction ns n h t rule: rep.induct) auto

lemma aligned_le: "\<lbrakk>2 ^ k dvd p; 2 ^ k dvd q; p < q\<rbrakk> \<Longrightarrow> p + 2 ^ k \<le> (q::nat)"
  by (metis (no_types) add_le_cancel_left dvd_diff_nat dvd_imp_le le_add_diff_inverse less_imp_le zero_less_diff)

text \<open>An aligned block inside a node lies in one of its halves.\<close>

lemma block_half:
  assumes "block p k \<subseteq> block (bpos R n h) h" "2 ^ k dvd p" "k < h" "h \<le> R" "2 ^ R \<le> (n + 1) * 2 ^ h"
  shows "block p k \<subseteq> block (bpos R (lsub n) (h - 1)) (h - 1) \<or>
         block p k \<subseteq> block (bpos R (rsub n) (h - 1)) (h - 1)"
proof -
  note b = bpos_sub[of h R n]
  have d: "2 ^ k dvd bpos R n h + 2 ^ (h - 1)"
    using bpos_dvd[of "h - 1" R "rsub n"] b assms by (metis le_imp_power_dvd dvd_trans less_imp_diff_less
        Suc_pred' gr_implies_not_zero less_Suc_eq_le neq0_conv less_imp_le order_less_le_trans)
  have two: "(2::nat) ^ h = 2 ^ (h - 1) + 2 ^ (h - 1)" using assms(3) by (cases h) auto
  show ?thesis
  proof (cases "p < bpos R n h + 2 ^ (h - 1)")
    case True
    with aligned_le[OF assms(2) d] assms(1) b assms show ?thesis by (auto simp: block_def subset_iff)
  next
    case False
    with assms b two show ?thesis by (auto simp: block_def subset_iff)
  qed
qed

subsection \<open>Maximally merged trees\<close>

fun norm :: "bt \<Rightarrow> bool" where
  "norm (BNode l r) \<longleftrightarrow> norm l \<and> norm r \<and> \<not> (l = BFree \<and> r = BFree)"
| "norm _ \<longleftrightarrow> True"

definition normc :: "ctx \<Rightarrow> bool" where
  "normc c \<longleftrightarrow> (\<forall>x \<in> set c. norm (snd x))"

fun norm_root :: "bt \<Rightarrow> bool" where
  "norm_root (BNode l r) \<longleftrightarrow> norm l \<and> norm r"
| "norm_root _ \<longleftrightarrow> False"

lemma normc_simps [simp]: "normc []" "normc (x # c) \<longleftrightarrow> norm (snd x) \<and> normc c"
  by (auto simp: normc_def)

lemma norm_all_free:
  "\<lbrakk>wfh h t; norm t; 2 ^ R \<le> (n + 1) * 2 ^ h; block (bpos R n h) h \<subseteq> free_at R n h t\<rbrakk> \<Longrightarrow> t = BFree"
proof (induction R n h t rule: free_at.induct)
  case (3 R n h l r)
  then have h: "0 < h" "2 ^ R \<le> (n + 1) * 2 ^ h" by auto
  note b = base_sub[OF h] block_split[OF h]
  have "block (bpos R (lsub n) (h - 1)) (h - 1) \<subseteq> free_at R (lsub n) (h - 1) l"
       "block (bpos R (rsub n) (h - 1)) (h - 1) \<subseteq> free_at R (rsub n) (h - 1) r"
    using 3(3,6) b free_at_block[of "h - 1" l R "lsub n"] free_at_block[of "h - 1" r R "rsub n"]
    by simp_all blast+
  with 3 b show ?case by simp
qed auto

lemma norm_largest:
  "\<lbrakk>rep ns n h t; norm t; 2 ^ R \<le> (n + 1) * 2 ^ h; h \<le> R; 2 ^ k dvd p; k \<le> h; block p k \<subseteq> free_at R n h t\<rbrakk>
   \<Longrightarrow> k + 1 \<le> ns ! n"
proof (induction ns n h t rule: rep.induct)
  case (3 ns n h l r)
  then have h: "0 < h" "2 ^ R \<le> (n + 1) * 2 ^ h" and w: "wfh h (BNode l r)" "wfh (h - 1) l" "wfh (h - 1) r"
    using rep_wfh by auto
  note b = base_sub[OF h] block_split[OF h]
  note f = free_at_block[OF w(2) b(1)] free_at_block[OF w(3) b(2)]
  have sub: "block p k \<subseteq> block (bpos R n h) h" using 3(9) free_at_block[OF w(1) h(2)] by (rule order_trans)
  have "k \<noteq> h"
  proof
    assume "k = h"
    with sub have "block p k = block (bpos R n h) h" by (auto simp: block_def)
    with norm_all_free[OF w(1) 3(4,5)] 3(9) show False by simp
  qed
  with 3(8) have k: "k < h" by simp
  have *: "block p k \<subseteq> free_at R (lsub n) (h - 1) l \<or> block p k \<subseteq> free_at R (rsub n) (h - 1) r"
    using block_half[OF sub 3(7) k 3(6) h(2)] 3(9) b(3,4) f by (simp only: free_at.simps) blast
  have "k + 1 \<le> ns ! lsub n \<or> k + 1 \<le> ns ! rsub n"
  proof -
    have le: "h - 1 \<le> R" "k \<le> h - 1" using k 3(6) by linarith+
    show ?thesis using * 3(1)[OF _ _ b(1) le(1) 3(7) le(2)] 3(2)[OF _ _ b(2) le(1) 3(7) le(2)] 3(3,4)
      by auto
  qed
  then show ?case using 3(3) by auto
next
  case (2 ns n h)
  then show ?case using block_nonempty by auto
qed auto

lemma norm_fill: "\<lbrakk>norm t; t \<noteq> BFree; normc c; c \<noteq> []\<rbrakk> \<Longrightarrow> norm_root (fill t c)"
proof (induction c arbitrary: t)
  case (Cons x c)
  then show ?case by (cases x; cases c) (auto simp: node_of_def)
qed simp

lemma norm_mfill: "\<lbrakk>norm t; normc c; c \<noteq> []\<rbrakk> \<Longrightarrow> norm_root (mfill t c)"
  by (induction t c rule: mfill.induct) (auto simp: node_of_def)

lemma mfill_at:
  assumes "ctx_at R n h c"
  shows "free_at R 0 R (mfill t c) = free_at R n h t \<union> free_ctx R n h c"
    and "used_at R 0 R (mfill t c) = used_at R n h t \<union> used_ctx R n h c"
proof -
  have "free_at R 0 R (mfill t c) = free_at R 0 R (fill t c) \<and>
        used_at R 0 R (mfill t c) = used_at R 0 R (fill t c)" using assms
  proof (induction t c arbitrary: n h rule: mfill.induct)
    case (3 t d s ds c)
    then have n: "n = (if d then rsub (prnt n) else lsub (prnt n))"
      and c: "ctx_at R (prnt n) (h + 1) (ds # c)" by auto
    then have b: "2 ^ R \<le> (prnt n + 1) * 2 ^ (h + 1)" using ctx_at_bounds by blast
    have "free_at R (prnt n) (h + 1) (node_of d BFree BFree) = block (bpos R (prnt n) (h + 1)) (h + 1)"
      using block_split(1)[OF _ b] by (auto simp: node_of_def)
    then show ?case
      using 3(1)[OF c] fill_at[OF c, of BFree] fill_at[OF c, of "node_of d BFree BFree"]
      by (auto simp: node_of_def)
  qed simp_all
  with fill_at[OF assms] show "free_at R 0 R (mfill t c) = free_at R n h t \<union> free_ctx R n h c"
    "used_at R 0 R (mfill t c) = used_at R n h t \<union> used_ctx R n h c" by simp_all
qed

subsection \<open>The search loop of \<open>alloc\<close>\<close>

lemma alloc_find_stop: "h < r \<Longrightarrow> alloc_find r h ns nd node = Some (ns, node)"
  by (cases h) auto

text \<open>What the search establishes: a free node of the requested order and its context.\<close>

definition found :: "nat \<Rightarrow> nat \<Rightarrow> bt \<Rightarrow> nat \<Rightarrow> (nat list \<times> nat) option \<Rightarrow> bool" where
  "found R k T L res \<longleftrightarrow> (\<exists>ns nd c. res = Some (ns, nd) \<and> length ns = L \<and> rep ns nd k BFree \<and>
     rep_ctx R ns nd k c \<and> normc c \<and> c \<noteq> [] \<and>
     free_at R 0 R (fill BFree c) = free_at R 0 R T \<and> used_at R 0 R (fill BFree c) = used_at R 0 R T)"

lemma rep_down:
  assumes "rep ns n h (BNode l r)" "rep_ctx R ns n h c"
  shows "rep ns (lsub n) (h - 1) l" "rep_ctx R ns (lsub n) (h - 1) ((False, r) # c)"
    "rep ns (rsub n) (h - 1) r" "rep_ctx R ns (rsub n) (h - 1) ((True, l) # c)"
  using assms by auto

lemma rep_split:
  assumes "rep_ctx R ns n h c" "0 < h" "length ns = 2 ^ (R + 1) - 1"
  defines "ns' \<equiv> ns[rsub n := h, lsub n := h]"
  shows "rep ns' (lsub n) (h - 1) BFree" "rep_ctx R ns' (lsub n) (h - 1) ((False, BFree) # c)"
proof -
  have "lsub n < length ns" "rsub n < length ns" using rep_ctx_in_children assms by blast+
  then have v: "ns' ! lsub n = h" "ns' ! rsub n = h" by (auto simp: ns'_def)
  have "rep_ctx R ns' n h c" unfolding ns'_def
    using assms(1) desc_child desc_refl by (simp add: rep_ctx_upd)
  with v assms(2) show "rep ns' (lsub n) (h - 1) BFree" "rep_ctx R ns' (lsub n) (h - 1) ((False, BFree) # c)"
    by auto
qed

lemma alloc_find_ok:
  "\<lbrakk>rep ns nd h t; rep_ctx R ns nd h c; length ns = 2 ^ (R + 1) - 1; k + 1 \<le> ns ! nd;
    t = BFree \<longrightarrow> c \<noteq> []; normc c; c = [] \<longrightarrow> norm_root t; c \<noteq> [] \<longrightarrow> norm t\<rbrakk>
   \<Longrightarrow> found R k (fill t c) (length ns) (alloc_find (k + 1) (h + 1) ns nd node)"
proof (induction h arbitrary: ns nd t c)
  case (0 ns nd t c)
  then have "ns ! nd = 1" using rep_le[OF 0(1)] by simp
  then have "t = BFree" "k = 0" using rep_full_iff[OF 0(1)] 0(4) by auto
  then show ?case using 0 rep_ctx_in[OF 0(2,3)] by (auto simp: found_def rd_in)
next
  case (Suc h ns nd t c)
  note inb = rep_ctx_in[OF Suc.prems(2,3)] rep_ctx_in_children[OF Suc.prems(2,3) zero_less_Suc]
  have kh: "k \<le> Suc h" using rep_le[OF Suc.prems(1)] Suc.prems(4) by simp
  consider "t = BFree" "k = Suc h" | "t = BFree" "k \<le> h" | l r where "t = BNode l r" "ns ! nd \<noteq> Suc (Suc h)"
    using kh Suc.prems(1,4) rep_full_iff[OF Suc.prems(1)] by (cases t) force+
  then show ?case
  proof cases
    case 1
    then show ?thesis using Suc.prems inb by (auto simp: found_def rd_in alloc_find_stop)
  next
    case 2
    let ?ns = "ns[rsub nd := Suc h, lsub nd := Suc h]"
    have v: "ns ! nd = Suc (Suc h)" using 2 Suc.prems(1) by simp
    note sp = rep_split[OF Suc.prems(2) zero_less_Suc Suc.prems(3), simplified]
    have "found R k (fill BFree ((False, BFree) # c)) (length ?ns) (alloc_find (k + 1) (h + 1) ?ns (lsub nd) node)"
      by (rule Suc.IH) (use sp 2 Suc.prems in auto)
    moreover have b: "2 ^ R \<le> (nd + 1) * 2 ^ Suc h" using rep_ctx_bounds[OF Suc.prems(2)] by blast
    have "free_at R 0 R (fill BFree ((False, BFree) # c)) = free_at R 0 R (fill BFree c)"
         "used_at R 0 R (fill BFree ((False, BFree) # c)) = used_at R 0 R (fill BFree c)"
      using fill_at[OF rep_ctx_at[OF Suc.prems(2)]] block_split(1)[OF _ b] by (auto simp: node_of_def)
    ultimately show ?thesis using v inb 2 by (simp add: found_def rd_in wr_in)
  next
    case (3 l r)
    define n' where "n' = (if min (ns ! lsub nd) (ns ! rsub nd) \<ge> k + 1
             then (if ns ! lsub nd < ns ! rsub nd then lsub nd else rsub nd)
             else (if ns ! lsub nd > ns ! rsub nd then lsub nd else rsub nd))"
    have af: "alloc_find (k + 1) (Suc h + 1) ns nd node = alloc_find (k + 1) (h + 1) ns n' node"
      using 3 inb kh by (simp add: rd_in n'_def)
    have n': "n' = lsub nd \<or> n' = rsub nd" "k + 1 \<le> ns ! n'"
      using Suc.prems(1,4) 3 by (auto simp: n'_def)
    note dn = rep_down[OF Suc.prems(1)[unfolded 3(1)] Suc.prems(2), unfolded diff_Suc_1]
    have nlr: "norm l" "norm r" using Suc.prems 3 by (cases "c = []"; simp)+
    have "found R k (fill t c) (length ns) (alloc_find (k + 1) (h + 1) ns n' node)"
      using n'(1)
    proof
      assume "n' = lsub nd"
      with Suc.IH[OF dn(1,2) Suc.prems(3)] n' nlr Suc.prems 3 show ?thesis by (simp add: node_of_def)
    next
      assume "n' = rsub nd"
      with Suc.IH[OF dn(3,4) Suc.prems(3)] n' nlr Suc.prems 3 show ?thesis by (simp add: node_of_def)
    qed
    then show ?thesis using af by simp
  qed
qed

subsection \<open>Reaching the node of a block\<close>

lemma pos2node_loop_eq:
  "order \<le> s \<Longrightarrow>
   pos2node_loop pos order s nd + 1 = (nd + 1) * 2 ^ (s - order) + (pos mod 2 ^ s) div 2 ^ order"
proof (induction s arbitrary: nd)
  case (Suc s)
  show ?case
  proof (cases "order \<le> s")
    case True
    let ?b = "(pos div 2 ^ s) mod 2"
    obtain d where d: "s = order + d" using True le_Suc_ex by blast
    have m: "pos mod 2 ^ Suc s = 2 ^ s * ?b + pos mod 2 ^ s"
      by (rule mod_pow_Suc)
    have "(2 ^ s * ?b + pos mod 2 ^ s) div 2 ^ order = 2 ^ (s - order) * ?b + pos mod 2 ^ s div 2 ^ order"
      using d by (simp add: power_add mult.assoc)
    with m have eq: "pos mod 2 ^ Suc s div 2 ^ order = 2 ^ (s - order) * ?b + pos mod 2 ^ s div 2 ^ order" by simp
    have nd: "(if ?b = 1 then rsub nd else lsub nd) + 1 = 2 * (nd + 1) + ?b"
      by (auto simp: lsub_def rsub_def)
    show ?thesis unfolding eq
      using True Suc.IH[OF True, of "if ?b = 1 then rsub nd else lsub nd"] 
      unfolding nd by (simp add: Suc_diff_le algebra_simps)
  next
    case False
    then have "order = Suc s" using Suc.prems by simp
    then show ?thesis by simp
  qed
qed simp

lemma pos2node_bpos:
  assumes "k \<le> R" "2 ^ R \<le> (n + 1) * 2 ^ k" "(n + 2) * 2 ^ k \<le> 2 ^ (R + 1)"
  shows "pos2node R (bpos R n k) k = n"
proof -
  obtain d where d: "R = k + d" using assms(1) le_Suc_ex by blast
  have *: "2 ^ d \<le> n + 1" "n + 2 \<le> 2 * 2 ^ d"
    using assms(2,3) by (simp_all add: d power_add mult.commute[of _ "2 ^ k"] mult.left_commute[of _ "2 ^ k"] del: mult_Suc_right mult_Suc)
  have b: "bpos R n k = (n + 1 - 2 ^ d) * 2 ^ k"
    by (simp add: bpos_def d power_add algebra_simps)
  have "bpos R n k < 2 ^ R" using * unfolding b by (simp add: d power_add)
  moreover have "bpos R n k div 2 ^ k = n + 1 - 2 ^ d" by (simp add: b)
  ultimately have "pos2node R (bpos R n k) k + 1 = 2 ^ d + (n + 1 - 2 ^ d)"
    using pos2node_loop_eq[OF assms(1), of "bpos R n k" 0] by (simp add: pos2node_def) (simp add: d)
  with * show ?thesis by simp
qed

text \<open>
  A block that is made of used blocks no larger than itself is a node of the tree without free
  pages.
\<close>

definition covered :: "(nat \<times> nat) set \<Rightarrow> nat \<Rightarrow> nat \<Rightarrow> bool" where
  "covered U p k \<longleftrightarrow> block p k \<subseteq> pages_of {(q, j) \<in> U. j \<le> k}"

lemma covered_half:
  assumes "covered (used_at R n h (BNode l r)) p k" "wfh h (BNode l r)" "2 ^ R \<le> (n + 1) * 2 ^ h"
  shows "block p k \<subseteq> block (bpos R (lsub n) (h - 1)) (h - 1) \<Longrightarrow> covered (used_at R (lsub n) (h - 1) l) p k"
    and "block p k \<subseteq> block (bpos R (rsub n) (h - 1)) (h - 1) \<Longrightarrow> covered (used_at R (rsub n) (h - 1) r) p k"
proof -
  have h: "0 < h" using assms(2) by simp
  note b = base_sub[OF h assms(3)] block_split(2)[OF h assms(3)]
  have l: "pages_of {(q, j) \<in> used_at R (lsub n) (h - 1) l. j \<le> k} \<subseteq> block (bpos R (lsub n) (h - 1)) (h - 1)"
    using pages_at_block[OF _ b(1), of l] assms(2) by (fastforce simp: pages_of_def)
  have r: "pages_of {(q, j) \<in> used_at R (rsub n) (h - 1) r. j \<le> k} \<subseteq> block (bpos R (rsub n) (h - 1)) (h - 1)"
    using pages_at_block[OF _ b(2), of r] assms(2) by (fastforce simp: pages_of_def)
  have "{(q, j) \<in> used_at R n h (BNode l r). j \<le> k} =
    {(q, j) \<in> used_at R (lsub n) (h - 1) l. j \<le> k} \<union> {(q, j) \<in> used_at R (rsub n) (h - 1) r. j \<le> k}" by auto
  then have u: "block p k \<subseteq> pages_of {(q, j) \<in> used_at R (lsub n) (h - 1) l. j \<le> k} \<union>
     pages_of {(q, j) \<in> used_at R (rsub n) (h - 1) r. j \<le> k}"
    using assms(1) unfolding covered_def by simp
  show "block p k \<subseteq> block (bpos R (lsub n) (h - 1)) (h - 1) \<Longrightarrow> covered (used_at R (lsub n) (h - 1) l) p k"
    unfolding covered_def using u r b(3) by blast
  show "block p k \<subseteq> block (bpos R (rsub n) (h - 1)) (h - 1) \<Longrightarrow> covered (used_at R (rsub n) (h - 1) r) p k"
    unfolding covered_def using u l b(3) by blast
qed

lemma block_eqD:
  assumes "block p k \<subseteq> block q k"
  shows "p = q"
proof -
  have one: "1 \<le> (2::nat) ^ k" by simp
  have "p + (2 ^ k - 1) \<in> block p k" unfolding block_def atLeastLessThan_iff
    using one by (intro conjI) linarith+
  then have "p \<in> block q k" "p + (2 ^ k - 1) \<in> block q k" using assms block_nonempty(2) by blast+
  then have "q \<le> p" "p + (2 ^ k - 1) < q + 2 ^ k" by (simp_all add: block_def)
  then show ?thesis using one by linarith
qed

lemma covered_subset: "covered U p k \<Longrightarrow> block p k \<subseteq> pages_of U"
  unfolding covered_def pages_of_def by blast

lemma reach_block:
  "\<lbrakk>rep ns n h t; rep_ctx R ns n h c; 2 ^ k dvd p; k \<le> h; normc c; c = [] \<longrightarrow> norm_root t; c \<noteq> [] \<longrightarrow> norm t;
    block p k \<subseteq> block (bpos R n h) h; covered (used_at R n h t) p k\<rbrakk>
   \<Longrightarrow> \<exists>n' t' c'. rep ns n' k t' \<and> rep_ctx R ns n' k c' \<and> bpos R n' k = p \<and> fill t' c' = fill t c \<and>
        normc c' \<and> ns ! n' = 0"
proof (induction ns n h t arbitrary: c rule: rep.induct)
  case (1 ns n h)
  then show ?case by (simp add: covered_def)
next
  case (2 ns n h)
  have "k = h"
  proof (rule ccontr)
    assume "k \<noteq> h"
    with 2(4) have "{(q, j) \<in> used_at R n h BUsed. j \<le> k} = {}" by auto
    with 2(9) have "block p k \<subseteq> pages_of {}" unfolding covered_def by (simp only:)
    then show False by simp
  qed
  with 2 block_eqD[of p k "bpos R n h"] show ?case by (metis rep.simps(2))
next
  case (3 ns n h l r)
  have w: "wfh h (BNode l r)" using rep_wfh[OF 3(3)] .
  have h: "0 < h" using w by simp
  have b: "2 ^ R \<le> (n + 1) * 2 ^ h" "h \<le> R" using rep_ctx_bounds[OF 3(4)] by auto
  show ?case
  proof (cases "k = h")
    case True
    with 3(10) have p: "p = bpos R n h" using block_eqD by blast
    have "free_at R n h (BNode l r) = {}"
      using disjoint_at[OF w b(1)] free_at_block[OF w b(1)] covered_subset[OF 3(11)] p True by blast
    then have "ns ! n = 0" using rep_zero_iff[OF 3(3)] by blast
    with True p 3 show ?thesis by metis
  next
    case False
    then have k: "k < h" "k \<le> h - 1" using 3(6) by auto
    note dn = rep_down[OF 3(3,4)]
    have nlr: "norm l" "norm r" using 3(8,9) by (cases "c = []"; simp)+
    from block_half[OF 3(10) 3(5) k(1) b(2,1)] show ?thesis
    proof
      assume s: "block p k \<subseteq> block (bpos R (lsub n) (h - 1)) (h - 1)"
      have "fill l ((False, r) # c) = fill (BNode l r) c" by (simp add: node_of_def)
      with 3(1)[OF dn(1,2) 3(5) k(2) _ _ _ s covered_half(1)[OF 3(11) w b(1) s]] nlr 3(7) show ?thesis by simp
    next
      assume s: "block p k \<subseteq> block (bpos R (rsub n) (h - 1)) (h - 1)"
      have "fill r ((True, l) # c) = fill (BNode l r) c" by (simp add: node_of_def)
      with 3(2)[OF dn(3,4) 3(5) k(2) _ _ _ s covered_half(2)[OF 3(11) w b(1) s]] nlr 3(7) show ?thesis by simp
    qed
  qed
qed

end
