(* ===== verification/FrameAlloc.thy ===== *)
theory FrameAlloc
  imports Prelude
begin

text \<open>
  The interface between the page allocator and the code that takes single page frames from it (the
  page tables, the page and block buffers).  \<open>inv s F A\<close> says that in the allocator state \<open>s\<close> the
  pages of \<open>F\<close> are free and the pages of \<open>A\<close> were handed out one by one.
\<close>

locale frame_alloc =
  fixes alloc1 :: "'s \<Rightarrow> (PageNum \<times> 's) option"
    and free1 :: "PageNum \<Rightarrow> 's \<Rightarrow> 's option"
    and inv :: "'s \<Rightarrow> PageNum set \<Rightarrow> PageNum set \<Rightarrow> bool"
  assumes disjoint: "inv s F A \<Longrightarrow> F \<inter> A = {}"
    and alloc1_Some: "\<lbrakk>inv s F A; alloc1 s = Some (p, s')\<rbrakk> \<Longrightarrow> p \<in> F \<and> inv s' (F - {p}) (insert p A)"
    and alloc1_total: "\<lbrakk>inv s F A; F \<noteq> {}\<rbrakk> \<Longrightarrow> alloc1 s \<noteq> None"
    and free1_Some: "\<lbrakk>inv s F A; p \<in> A\<rbrakk> \<Longrightarrow> \<exists>s'. free1 p s = Some s' \<and> inv s' (insert p F) (A - {p})"
begin

lemma alloc1_fresh: "\<lbrakk>inv s F A; alloc1 s = Some (p, s')\<rbrakk> \<Longrightarrow> p \<notin> A"
  using alloc1_Some disjoint by blast

lemma alloc1_Ex:
  assumes "inv s F A" "F \<noteq> {}"
  obtains p s' where "alloc1 s = Some (p, s')" "p \<in> F" "p \<notin> A" "inv s' (F - {p}) (insert p A)"
  using alloc1_Some alloc1_total[OF assms] alloc1_fresh assms(1) by (cases "alloc1 s") auto

lemma alloc1_None: "inv s F A \<Longrightarrow> alloc1 s = None \<Longrightarrow> F = {}"
  using alloc1_total by blast

lemma alloc1_free1:
  assumes "inv s F A" "alloc1 s = Some (p, s')"
  shows "\<exists>s''. free1 p s' = Some s'' \<and> inv s'' F A"
proof -
  from alloc1_Some[OF assms] have p: "p \<in> F" "inv s' (F - {p}) (insert p A)" by auto
  from free1_Some[OF p(2)] obtain s'' where "free1 p s' = Some s''" "inv s'' (insert p (F - {p})) (insert p A - {p})"
    by blast
  then show ?thesis using p(1) alloc1_fresh[OF assms] by (auto simp: insert_absorb)
qed

end

end
