(* ===== verification/PageMgrSpec.thy ===== *)
theory PageMgrSpec
  imports PageMgrTree FrameAlloc
begin

text \<open>
  The contract of the page allocator over its abstract state: the set \<open>F\<close> of free pages and the
  set \<open>U\<close> of the blocks \<open>(first page, order)\<close> that are allocated or were never released to it.
\<close>

definition shift_blocks :: "nat \<Rightarrow> (nat \<times> nat) set \<Rightarrow> (nat \<times> nat) set" where
  "shift_blocks s B = (\<lambda>(p, k). (s + p, k)) ` B"

definition pm_inv :: "PageMgr \<Rightarrow> nat set \<Rightarrow> (nat \<times> nat) set \<Rightarrow> bool" where
  "pm_inv pm F U \<longleftrightarrow>
     (let R = rootOrder pm; s = pm_start pm in
      (\<exists>t. rep (buddyNodes pm) 0 R t \<and> norm_root t \<and>
           F = (+) s ` free_at R 0 R t \<and> U = shift_blocks s (used_at R 0 R t)) \<and>
      length (buddyNodes pm) = 2 ^ (R + 1) - 1 \<and> 1 \<le> R \<and> 0 < s \<and> s + 2 ^ R \<le> 2 ^ 64 \<and>
      F \<subseteq> {..< pm_end pm})"

lemma pm_invE:
  assumes "pm_inv pm F U"
  obtains t where "rep (buddyNodes pm) 0 (rootOrder pm) t" "norm_root t"
    "F = (+) (pm_start pm) ` free_at (rootOrder pm) 0 (rootOrder pm) t"
    "U = shift_blocks (pm_start pm) (used_at (rootOrder pm) 0 (rootOrder pm) t)"
    "length (buddyNodes pm) = 2 ^ (rootOrder pm + 1) - 1" "1 \<le> rootOrder pm" "0 < pm_start pm"
    "pm_start pm + 2 ^ rootOrder pm \<le> 2 ^ 64" "F \<subseteq> {..< pm_end pm}"
  using assms unfolding pm_inv_def Let_def by blast

lemma block_shift: "block (s + p) k = (+) s ` block p k"
  by (simp add: block_def ac_simps)

lemma pages_of_shift: "pages_of (shift_blocks s B) = (+) s ` pages_of B"
  by (force simp: pages_of_def shift_blocks_def block_shift)

lemma root_base [simp]: "2 ^ R \<le> (0 + 1) * (2::nat) ^ R" "bpos R 0 R = 0"
  by (simp_all add: bpos_def)

text \<open>The invariant makes the abstract state a partition of the managed range.\<close>

lemma pm_inv_partition:
  assumes "pm_inv pm F U"
  shows "F \<union> pages_of U = {pm_start pm ..< pm_start pm + 2 ^ rootOrder pm}"
    and "F \<inter> pages_of U = {}"
    and "\<lbrakk>(p, k) \<in> U; (q, j) \<in> U; (p, k) \<noteq> (q, j)\<rbrakk> \<Longrightarrow> block p k \<inter> block q j = {}"
    and "(p, k) \<in> U \<Longrightarrow> pm_start pm \<le> p \<and> 2 ^ k dvd (p - pm_start pm) \<and> k \<le> rootOrder pm"
proof -
  let ?s = "pm_start pm" and ?R = "rootOrder pm"
  from assms obtain t where t: "rep (buddyNodes pm) 0 ?R t" "F = (+) ?s ` free_at ?R 0 ?R t"
    "U = shift_blocks ?s (used_at ?R 0 ?R t)" by (rule pm_invE)
  note w = rep_wfh[OF t(1)]
  have c: "free_at ?R 0 ?R t \<union> pages_of (used_at ?R 0 ?R t) = {0 ..< 2 ^ ?R}"
    using cover_at[OF w, of ?R 0] by (simp add: block_def)
  have "(+) ?s ` {0 ..< 2 ^ ?R} = {?s ..< ?s + 2 ^ ?R}" by (simp add: ac_simps)
  then show "F \<union> pages_of U = {?s ..< ?s + 2 ^ ?R}"
    unfolding t pages_of_shift using c by (metis image_Un)
  show "F \<inter> pages_of U = {}"
    unfolding t pages_of_shift using disjoint_at[OF w, of ?R 0] by auto
  show "\<lbrakk>(p, k) \<in> U; (q, j) \<in> U; (p, k) \<noteq> (q, j)\<rbrakk> \<Longrightarrow> block p k \<inter> block q j = {}"
    unfolding t shift_blocks_def using used_disjoint_at[OF w, of ?R 0] by (fastforce simp: block_shift)
  show "(p, k) \<in> U \<Longrightarrow> ?s \<le> p \<and> 2 ^ k dvd (p - ?s) \<and> k \<le> ?R"
    unfolding t shift_blocks_def using used_at_aligned[OF w, of ?R _ _ 0] by auto
qed

subsection \<open>Allocation\<close>

definition free_block :: "PageMgr \<Rightarrow> nat set \<Rightarrow> nat \<Rightarrow> nat \<Rightarrow> bool" where
  "free_block pm F p k \<longleftrightarrow> pm_start pm \<le> p \<and> 2 ^ k dvd (p - pm_start pm) \<and> block p k \<subseteq> F"

lemma norm_root_largest:
  assumes "rep ns 0 R t" "norm_root t" "2 ^ k dvd p" "k < R" "block p k \<subseteq> free_at R 0 R t"
  shows "k + 1 \<le> ns ! 0"
proof -
  obtain l r where t: "t = BNode l r" "norm l" "norm r" using assms(2) by (cases t) auto
  have w: "wfh R t" using rep_wfh assms(1) by blast
  have R: "0 < R" using assms(4) by simp
  note b = base_sub[OF R root_base(1)] block_split(2)[OF R root_base(1)]
  have sub: "block p k \<subseteq> block (bpos R 0 R) R" using assms(5) free_at_block[OF w root_base(1)] by (rule order_trans)
  have f: "free_at R (lsub 0) (R - 1) l \<subseteq> block (bpos R (lsub 0) (R - 1)) (R - 1)"
          "free_at R (rsub 0) (R - 1) r \<subseteq> block (bpos R (rsub 0) (R - 1)) (R - 1)"
    using free_at_block b w t by auto
  have rp: "rep ns (lsub 0) (R - 1) l" "rep ns (rsub 0) (R - 1) r" "ns ! 0 = max (ns ! lsub 0) (ns ! rsub 0)"
    using assms(1) t by auto
  have "block p k \<subseteq> free_at R (lsub 0) (R - 1) l \<or> block p k \<subseteq> free_at R (rsub 0) (R - 1) r"
    using block_half[OF sub assms(3,4) le_refl root_base(1)] assms(5)[unfolded t free_at.simps] b(3) f
    by blast
  then have "k + 1 \<le> ns ! lsub 0 \<or> k + 1 \<le> ns ! rsub 0"
    using norm_largest[OF rp(1) t(2) b(1) _ assms(3)] norm_largest[OF rp(2) t(3) b(2) _ assms(3)] assms(4)
    by fastforce
  then show ?thesis using rp(3) by auto
qed

lemma bpos_ppn: "k \<le> R \<Longrightarrow> (n + 1 - 2 ^ (R + 1 - (k + 1))) * 2 ^ k = bpos R n k"
  by (simp add: bpos_def diff_mult_distrib flip: power_add)

lemma pm_invI:
  assumes "rep ns 0 R t" "norm_root t" "length ns = 2 ^ (R + 1) - 1" "1 \<le> R" "0 < s" "s + 2 ^ R \<le> 2 ^ 64"
    "F = (+) s ` free_at R 0 R t" "U = shift_blocks s (used_at R 0 R t)" "F \<subseteq> {..< pm_end pm}"
    "rootOrder pm = R" "pm_start pm = s" "buddyNodes pm = ns"
  shows "pm_inv pm F U"
  using assms unfolding pm_inv_def Let_def by blast

lemma alloc_Some:
  assumes inv: "pm_inv pm F U" and v: "log2up pages + 1 \<le> buddyNodes pm ! 0"
  defines "k \<equiv> log2up pages"
  shows "\<exists>ppn pm'. alloc pages pm = Some (ppn, pm') \<and> free_block pm F ppn k \<and>
           pm_inv pm' (F - block ppn k) (insert (ppn, k) U) \<and> k < rootOrder pm \<and>
           pm_start pm' = pm_start pm \<and> pm_end pm' = pm_end pm \<and> rootOrder pm' = rootOrder pm"
proof -
  let ?s = "pm_start pm" and ?R = "rootOrder pm" and ?ns = "buddyNodes pm"
  from inv obtain t where t: "rep ?ns 0 ?R t" "norm_root t" "F = (+) ?s ` free_at ?R 0 ?R t"
    "U = shift_blocks ?s (used_at ?R 0 ?R t)" "length ?ns = 2 ^ (?R + 1) - 1"
    and R: "1 \<le> ?R" "0 < ?s" "?s + 2 ^ ?R \<le> 2 ^ 64" and Fe: "F \<subseteq> {..< pm_end pm}" by (rule pm_invE)
  have "found ?R k (fill t []) (length ?ns) (alloc_find (k + 1) (?R + 1) ?ns 0 0)"
    using v t by (intro alloc_find_ok) (auto simp: k_def)
  then obtain ns nd c where f: "alloc_find (k + 1) (?R + 1) ?ns 0 0 = Some (ns, nd)" "length ns = length ?ns"
    "rep ns nd k BFree" "rep_ctx ?R ns nd k c" "normc c" "c \<noteq> []"
    "free_at ?R 0 ?R (fill BFree c) = free_at ?R 0 ?R t" "used_at ?R 0 ?R (fill BFree c) = used_at ?R 0 ?R t"
    unfolding found_def by auto
  note len = f(2)[unfolded t(5)]
  have nd: "nd < length ns" "0 < nd" using rep_ctx_in[OF f(4) len] rep_ctx_pos[OF f(4)] f(6) by auto
  have kR: "k < ?R" using f(4,6) rep_ctx_bounds[of ?R ns "prnt nd" "k + 1" "tl c"] by (cases c) auto
  have u: "rep (ns[nd := 0]) nd k BUsed" "rep_ctx ?R (ns[nd := 0]) nd k c"
    using nd f(4) by (simp_all add: rep_ctx_upd)
  from alloc_up_ok[OF u f(6)] len obtain ns1 ns2 where
    up: "alloc_up (ns[nd := 0]) (prnt nd) = Some ns1" "set_max ns1 0 = Some ns2"
      "length ns2 = length ns" "rep ns2 0 ?R (fill BUsed c)" by auto
  let ?b = "block (bpos ?R nd k) k" and ?ppn = "?s + bpos ?R nd k"
  note at = fill_at[OF rep_ctx_at[OF f(4)]]
  have Fc: "free_at ?R 0 ?R t = ?b \<union> free_ctx ?R nd k c" "free_at ?R 0 ?R (fill BUsed c) = free_ctx ?R nd k c"
    using at(1)[of BFree] at(1)[of BUsed] f(7) by auto
  have Uc: "used_at ?R 0 ?R (fill BUsed c) = insert (bpos ?R nd k, k) (used_at ?R 0 ?R t)"
    using at(2)[of BFree] at(2)[of BUsed] f(8) by auto
  have dis: "?b \<inter> free_ctx ?R nd k c = {}"
    using disjoint_at[OF rep_wfh[OF up(4)], of ?R 0] unfolding Fc Uc by auto
  have bF: "block ?ppn k \<subseteq> F" unfolding t(3) Fc block_shift by blast
  have "?ppn \<in> F" using bF block_nonempty(2) by blast
  then have ppn: "?ppn < pm_end pm" "0 < ?ppn" using Fe R by auto
  have eq: "(nd + 1 - 2 ^ (?R + 1 - (k + 1))) * 2 ^ (k + 1 - 1) = bpos ?R nd k"
    using bpos_ppn[of k ?R nd] kR by simp
  let ?pm = "pm\<lparr>buddyNodes := ns2, pagesAllocated := add64 (pagesAllocated pm) (2 ^ k)\<rparr>"
  have "0 < length ?ns" using rep_ctx_in[of ?R ?ns 0 ?R "[]"] t(5) by simp
  then have "alloc pages pm = Some (?ppn, ?pm)"
    using v f(1) nd up ppn eq R(2) by (simp add: alloc_def rd_in wr_in k_def Let_def del: alloc_find.simps)
  moreover have "pm_inv ?pm (F - block ?ppn k) (insert (?ppn, k) U)"
  proof (rule pm_invI[OF up(4) norm_fill])
    show "F - block ?ppn k = (+) ?s ` free_at ?R 0 ?R (fill BUsed c)"
      unfolding t(3) Fc block_shift using dis by auto
    show "insert (?ppn, k) U = shift_blocks ?s (used_at ?R 0 ?R (fill BUsed c))"
      unfolding t(4) Uc by (simp add: shift_blocks_def)
  qed (use f len up R Fe in auto)
  moreover have "free_block pm F ?ppn k" using bF kR bpos_dvd[of k ?R nd] by (simp add: free_block_def)
  ultimately show ?thesis using kR by auto
qed

lemma alloc_None:
  assumes inv: "pm_inv pm F U" and v: "\<not> log2up pages + 1 \<le> buddyNodes pm ! 0"
  shows "alloc pages pm = None" and "log2up pages < rootOrder pm \<Longrightarrow> \<not> free_block pm F p (log2up pages)"
proof -
  let ?s = "pm_start pm" and ?R = "rootOrder pm" and ?ns = "buddyNodes pm"
  from inv obtain t where t: "rep ?ns 0 ?R t" "norm_root t" "F = (+) ?s ` free_at ?R 0 ?R t"
    "length ?ns = 2 ^ (?R + 1) - 1" by (rule pm_invE)
  show "alloc pages pm = None"
    using v by (auto simp: alloc_def Let_def rd_def)
  show "\<not> free_block pm F p (log2up pages)" if "log2up pages < ?R"
  proof
    assume fb: "free_block pm F p (log2up pages)"
    then obtain q where q: "p = ?s + q" unfolding free_block_def using le_Suc_ex by blast
    with fb have "block q (log2up pages) \<subseteq> free_at ?R 0 ?R t" "2 ^ log2up pages dvd q"
      unfolding free_block_def t(3) q block_shift by (auto simp: inj_image_subset_iff)
    with norm_root_largest[OF t(1,2) _ that] v show False by blast
  qed
qed

subsection \<open>Release\<close>

lemma covered_shift: "covered (shift_blocks s B) (s + p) k \<Longrightarrow> covered B p k"
proof -
  assume "covered (shift_blocks s B) (s + p) k"
  moreover have "{(q, j) \<in> shift_blocks s B. j \<le> k} = shift_blocks s {(q, j) \<in> B. j \<le> k}"
    by (auto simp: shift_blocks_def)
  ultimately show ?thesis
    by (simp add: covered_def block_shift pages_of_shift inj_image_subset_iff)
qed

lemma used_outside:
  assumes T: "wfh R T" and at: "ctx_at R n k c" and t: "wfh k t"
    and F: "free_at R 0 R T = block (bpos R n k) k \<union> free_ctx R n k c" and U: "used_at R 0 R T = used_ctx R n k c"
  shows "used_ctx R n k c = {(q, j) \<in> used_at R 0 R (fill t c). q \<notin> block (bpos R n k) k}"
proof -
  have b: "2 ^ R \<le> (n + 1) * 2 ^ k" using ctx_at_bounds[OF at] by blast
  have "q \<in> block (bpos R n k) k" if "(q, j) \<in> used_at R n k t" for q j
    using used_at_block[OF t b that] block_nonempty(2) by blast
  moreover have "q \<notin> block (bpos R n k) k" if q: "(q, j) \<in> used_ctx R n k c" for q j
  proof -
    have "q \<in> pages_of (used_ctx R n k c)" unfolding pages_of_def using q block_nonempty(2) by blast
    then show ?thesis using disjoint_at[OF T root_base(1)] unfolding F U by blast
  qed
  ultimately show ?thesis unfolding fill_at[OF at] by blast
qed

lemma free_Some:
  assumes inv: "pm_inv pm F U" and k: "k < rootOrder pm" and p: "pm_start pm \<le> ppn"
    and al: "2 ^ k dvd (ppn - pm_start pm)" and cov: "covered U ppn k" and e: "ppn + 2 ^ k \<le> pm_end pm"
  shows "\<exists>pm'. free ppn k pm = Some pm' \<and>
           pm_inv pm' (F \<union> block ppn k) {(q, j) \<in> U. q \<notin> block ppn k} \<and>
           pm_start pm' = pm_start pm \<and> pm_end pm' = pm_end pm \<and> rootOrder pm' = rootOrder pm"
proof -
  let ?s = "pm_start pm" and ?R = "rootOrder pm" and ?ns = "buddyNodes pm"
  from inv obtain t where t: "rep ?ns 0 ?R t" "norm_root t" "F = (+) ?s ` free_at ?R 0 ?R t"
    "U = shift_blocks ?s (used_at ?R 0 ?R t)" "length ?ns = 2 ^ (?R + 1) - 1"
    and R: "1 \<le> ?R" "0 < ?s" "?s + 2 ^ ?R \<le> 2 ^ 64" and Fe: "F \<subseteq> {..< pm_end pm}" by (rule pm_invE)
  obtain q where q: "ppn = ?s + q" using p le_Suc_ex by blast
  have cq: "covered (used_at ?R 0 ?R t) q k" using cov covered_shift unfolding t(4) q by blast
  have bq: "block q k \<subseteq> block (bpos ?R 0 ?R) ?R"
    using covered_subset[OF cq] pages_at_block[OF rep_wfh[OF t(1)] root_base(1)] by (rule order_trans)
  have "rep_ctx ?R ?ns 0 ?R []" by simp
  from reach_block[OF t(1) this _ _ _ _ _ bq cq] al k t(2) q obtain n t' c where
    r: "rep ?ns n k t'" "rep_ctx ?R ?ns n k c" "bpos ?R n k = q" "fill t' c = t" "normc c" "?ns ! n = 0" by auto
  note cb = rep_ctx_bounds[OF r(2)] and ca = rep_ctx_at[OF r(2)]
  have c: "c \<noteq> []" using k r(2) by auto
  have n: "n < length ?ns" using rep_ctx_in[OF r(2) t(5)] .
  have "q \<in> block (bpos ?R 0 ?R) ?R" using bq block_nonempty(2) by blast
  then have "q < 2 ^ ?R" by (simp add: block_def)
  then have "sub64 ppn ?s = q" using R q by (simp add: sub64_in_range)
  then have idx: "pos2node ?R (sub64 ppn ?s) k = n" using pos2node_bpos[of k ?R n] cb r(3) by simp
  have u: "rep (?ns[n := k + 1]) n k BFree" "rep_ctx ?R (?ns[n := k + 1]) n k c"
    using n r(2) by (simp_all add: rep_ctx_upd)
  from free_up_ok[OF u c] t(5) obtain ns1 ns2 where
    up: "free_up (?ns[n := k + 1]) (prnt n) (k + 1) = Some ns1" "set_max ns1 0 = Some ns2"
      "length ns2 = length ?ns" "rep ns2 0 ?R (mfill BFree c)" by auto
  let ?T = "mfill BFree c"
  have F0: "free_at ?R n k t' = {}" using rep_zero_iff[OF r(1)] r(6) by blast
  have FT: "free_at ?R 0 ?R ?T = block q k \<union> free_ctx ?R n k c" "used_at ?R 0 ?R ?T = used_ctx ?R n k c"
    using mfill_at[OF ca, of BFree] r(3) by auto
  have F1: "free_at ?R 0 ?R t = free_ctx ?R n k c" using fill_at(1)[OF ca, of t'] F0 r(4) by simp
  have U1: "used_ctx ?R n k c = {(q', j) \<in> used_at ?R 0 ?R t. q' \<notin> block q k}"
    using used_outside[OF rep_wfh[OF up(4)] ca rep_wfh[OF r(1)]] FT r(3,4) by simp
  let ?pm = "pm\<lparr>buddyNodes := ns2, pagesFreed := add64 (pagesFreed pm) (2 ^ k)\<rparr>"
  have "free ppn k pm = Some ?pm"
    using idx n r(6) up by (simp add: free_def rd_in wr_in Let_def)
  moreover have "pm_inv ?pm (F \<union> block ppn k) {(q, j) \<in> U. q \<notin> block ppn k}"
  proof (rule pm_invI[OF up(4) norm_mfill])
    show "F \<union> block ppn k = (+) ?s ` free_at ?R 0 ?R ?T"
      unfolding t(3) F1 FT q block_shift by auto
    show "{(q, j) \<in> U. q \<notin> block ppn k} = shift_blocks ?s (used_at ?R 0 ?R ?T)"
      unfolding t(4) FT U1 q block_shift by (auto simp: shift_blocks_def)
    show "F \<union> block ppn k \<subseteq> {..< pm_end ?pm}" using Fe e by (auto simp: block_def)
  qed (use r c t up R in auto)
  ultimately show ?thesis by auto
qed

lemma covered_member: "(p, k) \<in> U \<Longrightarrow> covered U p k"
  unfolding covered_def pages_of_def by blast

lemma pm_inv_other_blocks:
  assumes "pm_inv pm F U" "(p, k) \<in> U"
  shows "{(q, j) \<in> U. q \<notin> block p k} = U - {(p, k)}"
  using pm_inv_partition(3)[OF assms(1) assms(2)] block_nonempty(2)
  by (auto, metis disjoint_iff, blast)

subsection \<open>The constructor\<close>

fun full_tree :: "nat \<Rightarrow> bt" where
  "full_tree 0 = BUsed"
| "full_tree (Suc h) = BNode (full_tree h) (full_tree h)"

lemma rep_full_tree: "(\<And>i. desc n i \<Longrightarrow> ns ! i = 0) \<Longrightarrow> rep ns n h (full_tree h)"
proof (induction h arbitrary: n)
  case (Suc h)
  have "rep ns (lsub n) h (full_tree h)" "rep ns (rsub n) h (full_tree h)"
    using Suc.IH Suc.prems desc_child by blast+
  moreover have "ns ! n = 0" "ns ! lsub n = 0" "ns ! rsub n = 0"
    using Suc.prems desc_refl desc_child by blast+
  ultimately show ?case by simp
qed simp

lemma full_tree_at:
  "2 ^ R \<le> (n + 1) * 2 ^ h \<Longrightarrow> used_at R n h (full_tree h) = (\<lambda>q. (q, 0)) ` block (bpos R n h) h"
  "free_at R n h (full_tree h) = {}"
proof (induction h arbitrary: n)
  case (Suc h)
  { case 1
    note b = base_sub[OF zero_less_Suc 1] and sp = block_split(1)[OF zero_less_Suc 1]
    show ?case using Suc.IH(1)[of "lsub n"] Suc.IH(1)[of "rsub n"] b sp by (simp flip: image_Un) }
  { case 2 show ?case using Suc.IH(2) by simp }
qed (simp_all add: block_def)

lemma norm_full: "norm (full_tree h)" "1 \<le> h \<Longrightarrow> norm_root (full_tree h)"
proof -
  have nf: "full_tree h \<noteq> BFree" for h by (cases h) auto
  show n: "norm (full_tree h)" for h by (induction h) (auto simp: nf)
  show "1 \<le> h \<Longrightarrow> norm_root (full_tree h)" using n by (cases h) auto
qed

text \<open>No step below the root reads the root byte.\<close>

lemma free_up_root: "free_up (ns[0 := g]) idx k = map_option (\<lambda>x. x[0 := g]) (free_up ns idx k)"
proof (induction ns idx k rule: free_up.induct)
  case (1 ns idx k)
  show ?case
  proof (cases "idx = 0")
    case True
    then show ?thesis by (simp add: free_up.simps)
  next
    case False
    then have "ns[0 := g, idx := v] = ns[idx := v, 0 := g]" for v by (metis list_update_swap)
    with False 1 show ?thesis
      by (subst (1 2) free_up.simps) (auto simp: rd_def wr_def bind_eq_Some_iff)
  qed
qed

lemma set_max_root: "set_max (ns[0 := g]) 0 = set_max ns 0"
  by (simp add: set_max_def rd_def wr_def)

lemma free_root:
  assumes "pos2node (rootOrder pm) (sub64 ppn (pm_start pm)) k \<noteq> 0"
  shows "free ppn k (pm\<lparr>buddyNodes := (buddyNodes pm)[0 := g]\<rparr>) = free ppn k pm"
proof -
  let ?i = "pos2node (rootOrder pm) (sub64 ppn (pm_start pm)) k"
  have "(buddyNodes pm)[0 := g, ?i := v] = (buddyNodes pm)[?i := v, 0 := g]" for v
    using assms by (metis list_update_swap)
  then show ?thesis using assms
    by (auto simp: free_def Let_def rd_def wr_def ensure_def free_up_root set_max_root
        split: option.splits)
qed

lemma pos2node_pos:
  assumes "k < R"
  shows "pos2node R p k \<noteq> 0"
proof -
  have "2 ^ 1 \<le> (2::nat) ^ (R - k)" using assms by (intro power_increasing) auto
  then show ?thesis using pos2node_loop_eq[of k R p 0] assms by (auto simp: pos2node_def)
qed

lemma freeUnaligned_loop_root:
  "\<lbrakk>pages mod 2 ^ i \<noteq> 0; i \<le> rootOrder pm\<rbrakk> \<Longrightarrow>
   freeUnaligned_loop i ppn pages (pm\<lparr>buddyNodes := (buddyNodes pm)[0 := g]\<rparr>) =
   freeUnaligned_loop i ppn pages pm"
proof (induction i)
  case (Suc i)
  show ?case
  proof (cases "(pages div 2 ^ i) mod 2 = 1")
    case True
    then show ?thesis using free_root[OF pos2node_pos] Suc.prems by simp
  next
    case False
    then have "pages mod 2 ^ i \<noteq> 0" using Suc.prems(1) mod_pow_Suc[of pages i] by auto
    with False Suc show ?thesis by simp
  qed
qed simp

definition single_pages :: "nat \<Rightarrow> nat \<Rightarrow> (nat \<times> nat) set" where
  "single_pages a b = (\<lambda>q. (q, 0)) ` {a ..< b}"

lemma covered_single: "\<lbrakk>a \<le> p; p + 2 ^ k \<le> b\<rbrakk> \<Longrightarrow> covered (single_pages a b) p k"
  unfolding covered_def
proof
  fix x
  assume "a \<le> p" "p + 2 ^ k \<le> b" "x \<in> block p k"
  then have "(x, 0) \<in> {(q, j) \<in> single_pages a b. j \<le> k}" by (auto simp: single_pages_def block_def)
  then show "x \<in> pages_of {(q, j) \<in> single_pages a b. j \<le> k}"
    unfolding pages_of_def using block_nonempty(2)[of x 0] by blast
qed

lemma single_pages_rest: "{(q, j) \<in> single_pages p b. q \<notin> block p k} = single_pages (p + 2 ^ k) b"
  by (auto simp: single_pages_def block_def)

lemma freeUnaligned_loop_ok:
  assumes "i \<le> rootOrder pm" "pages < 2 ^ rootOrder pm" "pm_end pm = pm_start pm + pages" "pm_end pm < 2 ^ 64"
    and "pm_inv pm {pm_start pm ..< pm_end pm - pages mod 2 ^ i}
           (single_pages (pm_end pm - pages mod 2 ^ i) (pm_start pm + 2 ^ rootOrder pm))"
  shows "\<exists>pm'. freeUnaligned_loop i (pm_end pm - pages mod 2 ^ i) pages pm = Some pm' \<and>
    pm_inv pm' {pm_start pm ..< pm_end pm} (single_pages (pm_end pm) (pm_start pm + 2 ^ rootOrder pm)) \<and>
    pm_start pm' = pm_start pm \<and> pm_end pm' = pm_end pm \<and> rootOrder pm' = rootOrder pm"
  using assms
proof (induction i arbitrary: pm)
  case (Suc i)
  let ?b = "(pages div 2 ^ i) mod 2"
  have m: "pages mod 2 ^ Suc i = 2 ^ i * ?b + pages mod 2 ^ i"
    by (rule mod_pow_Suc)
  have le: "pages mod 2 ^ Suc i \<le> pages" by simp
  show ?case
  proof (cases "?b = 1")
    case True
    let ?p = "pm_end pm - pages mod 2 ^ Suc i"
    have p: "pm_start pm \<le> ?p" "?p + 2 ^ i = pm_end pm - pages mod 2 ^ i" "?p + 2 ^ i \<le> pm_end pm"
      using m True Suc.prems(3) le by simp_all
    have dvd: "2 ^ i dvd ?p - pm_start pm"
    proof -
      have "?p - pm_start pm = pages - pages mod 2 ^ Suc i" using Suc.prems(3) by simp
      also have "\<dots> = 2 ^ Suc i * (pages div 2 ^ Suc i)" by (simp add: minus_mod_eq_mult_div)
      finally show ?thesis by simp
    qed
    have "covered (single_pages ?p (pm_start pm + 2 ^ rootOrder pm)) ?p i"
      using Suc.prems(2,3) p(3) by (intro covered_single) auto
    from free_Some[OF Suc.prems(5) _ p(1) dvd this p(3)] Suc.prems(1) obtain pm' where
      f: "free ?p i pm = Some pm'" "pm_start pm' = pm_start pm" "pm_end pm' = pm_end pm" "rootOrder pm' = rootOrder pm"
      and inv: "pm_inv pm' ({pm_start pm ..< ?p} \<union> block ?p i)
                  (single_pages (?p + 2 ^ i) (pm_start pm + 2 ^ rootOrder pm))"
      unfolding single_pages_rest by auto
    have "{pm_start pm ..< ?p} \<union> block ?p i = {pm_start pm ..< pm_end pm - pages mod 2 ^ i}"
      using p by (auto simp: block_def)
    then have inv': "pm_inv pm' {pm_start pm' ..< pm_end pm' - pages mod 2 ^ i}
       (single_pages (pm_end pm' - pages mod 2 ^ i) (pm_start pm' + 2 ^ rootOrder pm'))"
      using inv f p by simp
    have "add64 ?p (2 ^ i) = pm_end pm - pages mod 2 ^ i" using p Suc.prems(4) by (simp add: add64_in_range)
    then show ?thesis using Suc.IH[OF _ _ _ _ inv'] Suc.prems f True by simp
  next
    case False
    then have "pages mod 2 ^ Suc i = pages mod 2 ^ i" using m by simp
    then show ?thesis using Suc.IH Suc.prems False by simp
  qed
qed simp

lemma rep_zeros: "rep (replicate (2 ^ (R + 1) - 1) 0) 0 R (full_tree R)"
proof -
  have "rep ns n h (full_tree h)" if "\<And>i. i < length ns \<Longrightarrow> ns ! i = 0" "(n + 2) * 2 ^ h \<le> length ns + 1"
    for ns n h using that
  proof (induction h arbitrary: n)
    case (Suc h)
    have "rep ns (lsub n) h (full_tree h)" "rep ns (rsub n) h (full_tree h)"
      using Suc by (auto simp: lsub_def rsub_def)
    moreover have "(n + 2) * 2 ^ 1 \<le> (n + 2) * 2 ^ Suc h" by (intro mult_le_mono2 power_increasing) auto
    then have "n < length ns" "lsub n < length ns" "rsub n < length ns"
      using Suc.prems(2) by (auto simp: lsub_def rsub_def)
    ultimately show ?case using Suc.prems(1) by simp
  qed simp
  from this[of "replicate (2 ^ (R + 1) - 1) 0" 0 R] show ?thesis by simp
qed

lemma single_pages_shift: "single_pages s (s + 2 ^ R) = shift_blocks s ((\<lambda>q. (q, 0)) ` block 0 R)"
proof -
  have "{s ..< s + 2 ^ R} = (+) s ` block 0 R" by (simp add: block_def ac_simps)
  then show ?thesis by (simp add: single_pages_def shift_blocks_def image_image)
qed

lemma PageMgr_init_ok:
  assumes s: "0 < s" "s + pages < 2 ^ 64" "s + 2 ^ log2up pages \<le> 2 ^ 64"
    and np: "\<And>k. pages \<noteq> 2 ^ k" and pos: "0 < pages"
  shows "\<exists>pm. PageMgr_init g s (s + pages) = Some pm \<and>
     pm_inv pm {s ..< s + pages} (single_pages (s + pages) (s + 2 ^ log2up pages)) \<and>
     pm_start pm = s \<and> pm_end pm = s + pages \<and> rootOrder pm = log2up pages"
proof -
  define R where "R = log2up pages"
  have lt: "pages < 2 ^ R" using log2up_le[of pages] np[of R] pos unfolding R_def by linarith
  have R1: "1 \<le> R" using lt pos by (cases R) simp_all
  define sz where "sz = 2 ^ R * 2 - (1::nat)"
  define pm where "pm = \<lparr>pm_start = s, pm_end = s + pages, rootOrder = R, buddyTreeSize = sz,
        buddyNodes = replicate sz 0, pagesAllocated = 0, pagesFreed = 0\<rparr>"
  have "0 < sz" unfolding sz_def by (simp add: Suc_lessI)
  then have g: "(replicate sz 0)[0 := g] = g # replicate (sz - 1) (0::nat)" by (cases sz) simp_all
  have sz: "sz = 2 ^ (R + 1) - 1" by (simp add: sz_def mult.commute)
  have sub: "sub64 (s + pages) s = pages" using s by (simp add: sub64_in_range)
  have "pm_inv pm {} (single_pages s (s + 2 ^ R))"
  proof (rule pm_invI[of "replicate sz 0" R "full_tree R" s])
    show "rep (replicate sz 0) 0 R (full_tree R)" unfolding sz by (rule rep_zeros)
    show "single_pages s (s + 2 ^ R) = shift_blocks s (used_at R 0 R (full_tree R))"
      unfolding full_tree_at(1)[OF root_base(1)] root_base(2)
      by (rule single_pages_shift)
  qed (use R1 s norm_full full_tree_at(2) in \<open>simp_all add: pm_def sz R_def\<close>)
  moreover have "pages mod 2 ^ R = pages" using lt by simp
  ultimately have "\<exists>pm'. freeUnaligned_loop R s pages pm = Some pm' \<and>
    pm_inv pm' {s ..< s + pages} (single_pages (s + pages) (s + 2 ^ R)) \<and>
    pm_start pm' = s \<and> pm_end pm' = s + pages \<and> rootOrder pm' = R"
    using freeUnaligned_loop_ok[of R pm pages] lt s by (simp add: pm_def)
  moreover have "PageMgr_init g s (s + pages) = freeUnaligned_loop R s pages (pm\<lparr>buddyNodes := (buddyNodes pm)[0 := g]\<rparr>)"
    unfolding PageMgr_init_def Let_def sub freeUnaligned_def R_def[symmetric] sz_def[symmetric]
    using lt by (simp add: pm_def g)
  ultimately show ?thesis
    using freeUnaligned_loop_root[of pages R pm s g] lt pos by (simp add: pm_def R_def)
qed


subsection \<open>Runs of the allocator\<close>

text \<open>
  A run keeps the set of live blocks: what was allocated and not yet released.  Clients release
  exactly the blocks they were given.
\<close>

inductive pm_run :: "PageMgr \<Rightarrow> (nat \<times> nat) set \<Rightarrow> PageMgr \<Rightarrow> (nat \<times> nat) set \<Rightarrow> bool" where
  pm_run_start: "pm_run pm L pm L"
| pm_run_alloc: "\<lbrakk>pm_run pm L pm' L'; alloc pages pm' = Some (ppn, pm'')\<rbrakk>
    \<Longrightarrow> pm_run pm L pm'' (insert (ppn, log2up pages) L')"
| pm_run_free: "\<lbrakk>pm_run pm L pm' L'; (ppn, k) \<in> L'; free ppn k pm' = Some pm''\<rbrakk>
    \<Longrightarrow> pm_run pm L pm'' (L' - {(ppn, k)})"

definition pm_ledger :: "PageMgr \<Rightarrow> nat set \<Rightarrow> (nat \<times> nat) set \<Rightarrow> bool" where
  "pm_ledger pm S L \<longleftrightarrow>
     (\<exists>F U. pm_inv pm F U \<and> L \<subseteq> U \<and> F \<union> pages_of L = S \<and> (\<forall>(p, k)\<in>L. k < rootOrder pm))"

lemma alloc_cases:
  assumes "pm_inv pm F U" "alloc pages pm = Some (ppn, pm')"
  shows "free_block pm F ppn (log2up pages)"
    "pm_inv pm' (F - block ppn (log2up pages)) (insert (ppn, log2up pages) U)"
    "log2up pages < rootOrder pm" "pm_start pm' = pm_start pm" "pm_end pm' = pm_end pm" "rootOrder pm' = rootOrder pm"
  using alloc_Some[OF assms(1), of pages] alloc_None(1)[OF assms(1), of pages] assms(2)
  by (cases "log2up pages + 1 \<le> buddyNodes pm ! 0"; auto)+

lemma pages_of_remove:
  assumes "pm_inv pm F U" "(p, k) \<in> U" "L \<subseteq> U" "(p, k) \<in> L"
  shows "pages_of L = block p k \<union> pages_of (L - {(p, k)})" "block p k \<inter> pages_of (L - {(p, k)}) = {}"
proof -
  show "pages_of L = block p k \<union> pages_of (L - {(p, k)})"
    using assms(4) pages_of_simps(2)[of p k "L - {(p, k)}"] by (simp add: insert_absorb)
  show "block p k \<inter> pages_of (L - {(p, k)}) = {}"
    using pm_inv_partition(3)[OF assms(1,2)] assms(3) by (fastforce simp: pages_of_def)
qed

lemma pm_ledger_alloc:
  assumes "pm_ledger pm S L" "alloc pages pm = Some (ppn, pm')"
  shows "pm_ledger pm' S (insert (ppn, log2up pages) L)" and "pm_end pm' = pm_end pm"
proof -
  let ?k = "log2up pages"
  from assms(1) obtain F U where i: "pm_inv pm F U" "L \<subseteq> U" "F \<union> pages_of L = S" "\<forall>(p, k)\<in>L. k < rootOrder pm"
    unfolding pm_ledger_def by blast
  note a = alloc_cases[OF i(1) assms(2)]
  have "block ppn ?k \<subseteq> F" using a(1) by (simp add: free_block_def)
  then have "(F - block ppn ?k) \<union> pages_of (insert (ppn, ?k) L) = S" using i(3) by auto
  then show "pm_ledger pm' S (insert (ppn, ?k) L)" unfolding pm_ledger_def using a(2,3,6) i(2,4)
    by (intro exI[of _ "F - block ppn ?k"] exI[of _ "insert (ppn, ?k) U"]) auto
  show "pm_end pm' = pm_end pm" using a(5) .
qed

lemma free_live:
  assumes "pm_inv pm F U" "(p, k) \<in> U" "k < rootOrder pm" "p + 2 ^ k \<le> pm_end pm"
  shows "\<exists>pm'. free p k pm = Some pm' \<and> pm_inv pm' (F \<union> block p k) (U - {(p, k)}) \<and>
           pm_start pm' = pm_start pm \<and> pm_end pm' = pm_end pm \<and> rootOrder pm' = rootOrder pm"
  using free_Some[OF assms(1,3) _ _ covered_member[OF assms(2)] assms(4)] pm_inv_partition(4)[OF assms(1,2)]
  unfolding pm_inv_other_blocks[OF assms(1,2)] by blast

lemma block_le_end: "block p k \<subseteq> {..< e} \<Longrightarrow> p + 2 ^ k \<le> (e::nat)"
proof -
  assume b: "block p k \<subseteq> {..< e}"
  have "1 \<le> (2::nat) ^ k" by simp
  then have "p + (2 ^ k - 1) \<in> block p k" unfolding block_def atLeastLessThan_iff by (intro conjI) linarith+
  then have "p + (2 ^ k - 1) < e" using b by blast
  then show ?thesis by linarith
qed

lemma pm_ledger_free:
  assumes "pm_ledger pm S L" "(p, k) \<in> L" "S \<subseteq> {..< pm_end pm}"
  shows "\<exists>pm'. free p k pm = Some pm' \<and> pm_ledger pm' S (L - {(p, k)}) \<and> pm_end pm' = pm_end pm"
proof -
  from assms(1) obtain F U where i: "pm_inv pm F U" "L \<subseteq> U" "F \<union> pages_of L = S" "\<forall>(p, k)\<in>L. k < rootOrder pm"
    unfolding pm_ledger_def by blast
  have U: "(p, k) \<in> U" using i(2) assms(2) by blast
  note pr = pages_of_remove[OF i(1) U i(2) assms(2)]
  have "block p k \<subseteq> {..< pm_end pm}" using assms(3) i(3) pr(1) by blast
  then obtain pm' where f: "free p k pm = Some pm'" "pm_inv pm' (F \<union> block p k) (U - {(p, k)})"
    "pm_end pm' = pm_end pm" "rootOrder pm' = rootOrder pm"
    using free_live[OF i(1) U] i(4) assms(2) block_le_end by blast
  have "pm_ledger pm' S (L - {(p, k)})" unfolding pm_ledger_def
    using f(2,4) i(2-4) pr by (intro exI[of _ "F \<union> block p k"] exI[of _ "U - {(p, k)}"]) auto
  with f show ?thesis by blast
qed

lemma pm_run_ledger:
  assumes "pm_run pm L pm' L'" "pm_ledger pm S L" "S \<subseteq> {..< pm_end pm}"
  shows "pm_ledger pm' S L' \<and> pm_end pm' = pm_end pm"
  using assms
proof (induction rule: pm_run.induct)
  case (pm_run_alloc pm L pm' L' pages ppn pm'')
  then show ?case using pm_ledger_alloc[of pm' S L' pages ppn pm''] by auto
next
  case (pm_run_free pm L pm' L' ppn k pm'')
  then show ?case using pm_ledger_free[of pm' S L' ppn k] by auto
qed simp

lemma pm_ledger_disjoint:
  assumes "pm_ledger pm S L" "(p, k) \<in> L" "(q, j) \<in> L" "(p, k) \<noteq> (q, j)"
  shows "block p k \<inter> block q j = {}"
  using assms pm_inv_partition(3) unfolding pm_ledger_def by blast

lemma pm_ledger_init:
  assumes "0 < s" "s + pages < 2 ^ 64" "s + 2 ^ log2up pages \<le> 2 ^ 64" "\<And>k. pages \<noteq> 2 ^ k" "0 < pages"
    "PageMgr_init g s (s + pages) = Some pm"
  shows "pm_ledger pm {s ..< s + pages} {}" "pm_end pm = s + pages" "pm_start pm = s"
  using PageMgr_init_ok[OF assms(1-5), of g] assms(6) unfolding pm_ledger_def by auto


subsection \<open>The allocator as a source of single frames\<close>

definition frames_inv :: "PageMgr \<Rightarrow> PageNum set \<Rightarrow> PageNum set \<Rightarrow> bool" where
  "frames_inv pm F A \<longleftrightarrow> (\<exists>U. pm_inv pm F U \<and> A \<subseteq> {..< pm_end pm} \<and> (\<forall>p \<in> A. (p, 0) \<in> U))"

lemma single_free_block: "pm_inv pm F U \<Longrightarrow> p \<in> F \<Longrightarrow> free_block pm F p 0"
  using pm_inv_partition(1)[of pm F U] by (auto simp: free_block_def block_def)

interpretation frames: frame_alloc "alloc 1" "\<lambda>p. free p 0" frames_inv
proof
  fix pm F A p pm'
  show "F \<inter> A = {}" if "frames_inv pm F A"
    using that pm_inv_partition(2) unfolding frames_inv_def pages_of_def by fastforce
  show "alloc 1 pm \<noteq> None" if i: "frames_inv pm F A" "F \<noteq> {}"
  proof -
    from i obtain U q where U: "pm_inv pm F U" "q \<in> F" unfolding frames_inv_def by blast
    then have "0 < rootOrder pm" by (auto elim: pm_invE)
    then show ?thesis
      using single_free_block[OF U] alloc_None(2)[OF U(1), of 1] alloc_Some[OF U(1), of 1] by force
  qed
  show "p \<in> F \<and> frames_inv pm' (F - {p}) (insert p A)" if i: "frames_inv pm F A" "alloc 1 pm = Some (p, pm')"
  proof -
    from i obtain U where U: "pm_inv pm F U" "A \<subseteq> {..< pm_end pm}" "\<forall>p \<in> A. (p, 0) \<in> U"
      unfolding frames_inv_def by blast
    note a = alloc_cases[OF U(1) i(2)]
    have p: "p \<in> F" using a(1) by (simp add: free_block_def block_def)
    then have "p < pm_end pm" using U(1) by (auto elim: pm_invE)
    with p a(2,5) U show ?thesis unfolding frames_inv_def by (auto simp: block_def)
  qed
  show "\<exists>pm'. free p 0 pm = Some pm' \<and> frames_inv pm' (insert p F) (A - {p})" if i: "frames_inv pm F A" "p \<in> A"
  proof -
    from i obtain U where U: "pm_inv pm F U" "A \<subseteq> {..< pm_end pm}" "\<forall>p \<in> A. (p, 0) \<in> U"
      unfolding frames_inv_def by blast
    have "0 < rootOrder pm" "p + 2 ^ 0 \<le> pm_end pm" using U(1,2) i(2) by (auto elim: pm_invE)
    with free_live[OF U(1), of p 0] i(2) U obtain pm' where "free p 0 pm = Some pm'"
      "pm_inv pm' (F \<union> block p 0) (U - {(p, 0)})" "pm_end pm' = pm_end pm" by auto
    with U show ?thesis unfolding frames_inv_def by (auto simp: block_def)
  qed
qed

subsection \<open>A concrete allocator\<close>

lemmas pm_loop_numerals =
  freeUnaligned_loop.simps(2)[of "pred_numeral v", folded numeral_eq_Suc]
  pos2node_loop.simps(2)[of _ _ "pred_numeral v", folded numeral_eq_Suc]
  alloc_find.simps(2)[of _ "pred_numeral v", folded numeral_eq_Suc] for v

lemmas pm_eval = eval_lists pm_loop_numerals PageMgr_init_def sub64_def add64_def log2up_def
  log2up_loop.simps freeUnaligned_def Let_def free_def pos2node_def lsub_def rsub_def prnt_def
  set_max_def free_up.simps alloc_up.simps alloc_def

text \<open>The allocator of seven pages from page 1, and the same after \<open>alloc(2)\<close>.\<close>

definition pm_ex :: PageMgr where
  "pm_ex = \<lparr>pm_start = 1, pm_end = 8, rootOrder = 3, buddyTreeSize = 15,
     buddyNodes = [3, 3, 2, 0, 0, 2, 1, 0, 0, 0, 0, 0, 0, 1, 0], pagesAllocated = 0, pagesFreed = 7\<rparr>"

definition pm_ex2 :: PageMgr where
  "pm_ex2 = pm_ex\<lparr>buddyNodes := [3, 3, 1, 0, 0, 0, 1, 0, 0, 0, 0, 0, 0, 1, 0], pagesAllocated := 2\<rparr>"

lemma pm_ex_init: "PageMgr_init 0 1 (1 + 7) = Some pm_ex"
  by (simp add: pm_eval pm_ex_def cong: eval_congs)

lemma pm_ex_alloc: "alloc 2 pm_ex = Some (5, pm_ex2)"
  by (simp add: pm_eval pm_ex_def pm_ex2_def cong: eval_congs)

lemma log2up_ex: "log2up 7 = 3" "log2up 2 = 1" "log2up 3 = 2"
  by (simp_all add: log2up_def log2up_loop.simps)

lemma seven_not_pow2: "(7::nat) \<noteq> 2 ^ k"
proof
  assume k: "(7::nat) = 2 ^ k"
  have "odd (7::nat)" by simp
  then have "k = 0" unfolding k by simp
  with k show False by simp
qed

lemma pm_ex_inv: "pm_inv pm_ex {1 ..< 8} (single_pages 8 9)"
  using PageMgr_init_ok[OF _ _ _ seven_not_pow2, of 1 0] by (simp add: pm_ex_init[simplified] log2up_ex)

lemma pm_ex2_inv: "pm_inv pm_ex2 ({1 ..< 8} - block 5 1) (insert (5, 1) (single_pages 8 9))"
  using alloc_cases(2)[OF pm_ex_inv pm_ex_alloc] by (simp add: log2up_ex)

subsection \<open>Properties\<close>

text \<open>C1: \<open>alloc\<close> finds an aligned block of the requested order exactly when one is free below the root,
  removes its pages from the free set and adds it to the blocks in use; otherwise it panics.\<close>

theorem alloc_correct:
  assumes "pm_inv pm F U"
  shows "case alloc pages pm of
      None \<Rightarrow> \<not> (log2up pages < rootOrder pm \<and> (\<exists>p. free_block pm F p (log2up pages)))
    | Some (ppn, pm') \<Rightarrow> log2up pages < rootOrder pm \<and> free_block pm F ppn (log2up pages) \<and>
        pm_inv pm' (F - block ppn (log2up pages)) (insert (ppn, log2up pages) U)"
proof (cases "alloc pages pm")
  case None
  then have "\<not> log2up pages + 1 \<le> buddyNodes pm ! 0" using alloc_Some[OF assms] by fastforce
  then show ?thesis using alloc_None(2)[OF assms] None by auto
next
  case (Some r)
  then show ?thesis using alloc_cases[OF assms] by (cases r) simp
qed

theorem alloc_correct_witness:
  "alloc 2 pm_ex = Some (5, pm_ex2) \<and> free_block pm_ex {1 ..< 8} 5 1 \<and>
   pm_inv pm_ex2 ({1 ..< 8} - block 5 1) (insert (5, 1) (single_pages 8 9))"
  using alloc_correct[OF pm_ex_inv, of 2] by (simp add: pm_ex_alloc log2up_ex)

text \<open>C2: \<open>free\<close> accepts every aligned block that consists of blocks in use, makes its pages free, merges
  buddies (the invariant is kept) and touches no other block.\<close>

theorem free_correct:
  assumes "pm_inv pm F U" "k < rootOrder pm" "pm_start pm \<le> ppn" "2 ^ k dvd (ppn - pm_start pm)"
    and "covered U ppn k" "ppn + 2 ^ k \<le> pm_end pm"
  shows "\<exists>pm'. free ppn k pm = Some pm' \<and> pm_inv pm' (F \<union> block ppn k) {(q, j) \<in> U. q \<notin> block ppn k}"
  using free_Some[OF assms] by blast

theorem free_correct_witness:
  "\<exists>pm'. free 5 1 pm_ex2 = Some pm' \<and>
     pm_inv pm' ({1 ..< 8} - block 5 1 \<union> block 5 1) {(q, j) \<in> insert (5, 1) (single_pages 8 9). q \<notin> block 5 1}"
  by (rule free_correct[OF pm_ex2_inv]) (auto simp: pm_ex2_def pm_ex_def intro: covered_member)

text \<open>C4: the constructor hands out exactly the pages of its range, whatever the uninitialised root
  byte holds, when the number of pages is not a power of two.\<close>

theorem PageMgr_init_correct:
  assumes "0 < s" "s + pages < 2 ^ 64" "s + 2 ^ log2up pages \<le> 2 ^ 64" "\<And>k. pages \<noteq> 2 ^ k" "0 < pages"
  shows "\<exists>pm. PageMgr_init g s (s + pages) = Some pm \<and>
     pm_inv pm {s ..< s + pages} (single_pages (s + pages) (s + 2 ^ log2up pages))"
  using PageMgr_init_ok[OF assms] by blast

theorem PageMgr_init_correct_witness:
  "\<exists>pm. PageMgr_init 42 1 (1 + 7) = Some pm \<and> pm_inv pm {1 ..< 1 + 7} (single_pages (1 + 7) (1 + 2 ^ log2up 7))"
  by (rule PageMgr_init_correct[OF _ _ _ seven_not_pow2]) (simp_all add: log2up_ex)

text \<open>C3: in every run that starts with the constructor, the blocks handed out and not yet released are
  pairwise disjoint, lie inside the range the allocator was given, and releasing one never fails.\<close>

theorem pm_run_safe:
  assumes "PageMgr_init g s (s + pages) = Some pm" "pm_run pm {} pm' L"
    and "0 < s" "s + pages < 2 ^ 64" "s + 2 ^ log2up pages \<le> 2 ^ 64" "\<And>k. pages \<noteq> 2 ^ k" "0 < pages"
  shows "\<forall>(p, k) \<in> L. block p k \<subseteq> {s ..< s + pages} \<and> free p k pm' \<noteq> None \<and>
           (\<forall>(q, j) \<in> L. (p, k) \<noteq> (q, j) \<longrightarrow> block p k \<inter> block q j = {})"
proof -
  note i = pm_ledger_init[OF assms(3-7,1)]
  have "{s ..< s + pages} \<subseteq> {..< pm_end pm}" using i(2) by auto
  from pm_run_ledger[OF assms(2) i(1) this] i(2) have l: "pm_ledger pm' {s ..< s + pages} L" "pm_end pm' = s + pages" by auto
  have "block p k \<subseteq> {s ..< s + pages}" if "(p, k) \<in> L" for p k
    using l(1) that unfolding pm_ledger_def pages_of_def by blast
  moreover have "free p k pm' \<noteq> None" if "(p, k) \<in> L" for p k
  proof -
    have "{s ..< s + pages} \<subseteq> {..< pm_end pm'}" using l(2) by auto
    from pm_ledger_free[OF l(1) that this] show ?thesis by auto
  qed
  ultimately show ?thesis using pm_ledger_disjoint[OF l(1)] by blast
qed

theorem pm_run_safe_witness:
  "pm_run pm_ex {} pm_ex2 {(5, 1)} \<and> block 5 1 \<subseteq> {1 ..< 1 + 7} \<and> free 5 1 pm_ex2 \<noteq> None"
proof -
  have run: "pm_run pm_ex {} pm_ex2 {(5, 1)}"
    using pm_run_alloc[OF pm_run_start pm_ex_alloc, of "{}"] by (simp add: log2up_ex)
  show ?thesis
    using pm_run_safe[OF pm_ex_init run _ _ _ seven_not_pow2] run by (simp add: log2up_ex)
qed

text \<open>C5: an allocation followed by the release of the same block restores the abstract state.\<close>

theorem alloc_free_roundtrip:
  assumes "pm_inv pm F U" "alloc pages pm = Some (ppn, pm')"
  shows "\<exists>pm''. free ppn (log2up pages) pm' = Some pm'' \<and> pm_inv pm'' F U"
proof -
  let ?k = "log2up pages"
  note a = alloc_cases[OF assms]
  have sub: "block ppn ?k \<subseteq> F" using a(1) by (simp add: free_block_def)
  have nin: "(ppn, ?k) \<notin> U"
    using pm_inv_partition(2)[OF assms(1)] sub block_nonempty(2)[of ppn ?k]
    unfolding pages_of_def by blast
  have "block ppn ?k \<subseteq> {..< pm_end pm'}" using sub assms(1) a(5) by (auto elim!: pm_invE)
  then obtain pm'' where "free ppn ?k pm' = Some pm''"
      "pm_inv pm'' (F - block ppn ?k \<union> block ppn ?k) (insert (ppn, ?k) U - {(ppn, ?k)})"
    using free_live[OF a(2), of ppn ?k] a block_le_end by auto
  then show ?thesis using sub nin by (simp add: Un_absorb2)
qed

theorem alloc_free_roundtrip_witness:
  "\<exists>pm''. free 5 1 pm_ex2 = Some pm'' \<and> pm_inv pm'' {1 ..< 8} (single_pages 8 9)"
  using alloc_free_roundtrip[OF pm_ex_inv pm_ex_alloc] by (simp add: log2up_ex)

text \<open>C6: a range of exactly \<open>2^k\<close> pages is lost: the constructor fails its assertion when the heap byte
  of the root is not zero, and otherwise returns an allocator from which no allocation succeeds.\<close>

theorem PageMgr_init_pow2:
  assumes "s + 2 ^ k < 2 ^ 64" "1 \<le> k"
  shows "case PageMgr_init g s (s + 2 ^ k) of None \<Rightarrow> g \<noteq> 0 | Some pm \<Rightarrow> g = 0 \<and> (\<forall>pages. alloc pages pm = None)"
proof -
  have sub: "sub64 (s + 2 ^ k) s = 2 ^ k" "sub64 s s = 0" using assms by (simp_all add: sub64_in_range)
  have bits: "freeUnaligned_loop i p (2 ^ k) pm = Some pm" if "i \<le> k" for i p pm
    using that by (induction i) (auto simp flip: power_diff)
  have bits': "freeUnaligned_loop k p (2 ^ k) = Some" for p by (rule ext) (simp add: bits)
  have pn: "pos2node k 0 k = 0" by (cases k) (simp_all add: pos2node_def)
  have len: "lsub 0 < Suc (2 ^ k * 2 - 2)" "rsub 0 < Suc (2 ^ k * 2 - 2)"
    using power_increasing[OF assms(2), of "2::nat"] by (auto simp: lsub_def rsub_def)
  let ?ns = "replicate (2 ^ k * 2 - 2) (0::nat)"
  have z: "(g # ?ns) ! lsub 0 = 0" "(g # ?ns) ! rsub 0 = 0" for g
    using len by (auto simp: lsub_def rsub_def)
  let ?pm = "\<lambda>r. \<lparr>pm_start = s, pm_end = s + 2 ^ k, rootOrder = k, buddyTreeSize = 2 ^ k * 2 - 1,
        buddyNodes = r # ?ns, pagesAllocated = 0, pagesFreed = 0\<rparr>"
  have "free s k (?pm g) = (if g = 0 then Some (?pm 0\<lparr>pagesFreed := add64 0 (2 ^ k)\<rparr>) else None)"
    using len by (simp add: free_def Let_def sub pn rd_def wr_def prnt_def free_up.simps set_max_def z)
  moreover have "PageMgr_init g s (s + 2 ^ k) = (free s k (?pm g) \<bind> Some)"
    by (simp add: PageMgr_init_def Let_def sub freeUnaligned_def bits' flip: numeral_2_eq_2)
  moreover have "alloc pages (?pm 0\<lparr>pagesFreed := x\<rparr>) = None" for pages x
    by (simp add: alloc_def rd_def Let_def)
  ultimately show ?thesis by simp
qed

theorem PageMgr_init_pow2_witness:
  "case PageMgr_init 0 1 (1 + 2 ^ 3) of None \<Rightarrow> (0::nat) \<noteq> 0 | Some pm \<Rightarrow> (0::nat) = 0 \<and> (\<forall>pages. alloc pages pm = None)"
  by (rule PageMgr_init_pow2) simp_all

text \<open>Releasing a block with the page count it was requested with, as \<open>~VMOContiguous\<close> does, can fail:
  after a run without any live block, \<open>alloc(3)\<close> rounds to four pages and \<open>freeUnaligned\<close> of the
  three pages stops at the assertion in \<open>free\<close>, because the children of the node were left
  marked as free.\<close>

theorem freeUnaligned_stale_assert:
  "\<exists>pm ppn pm'. pm_run pm_ex {} pm {} \<and> alloc 3 pm = Some (ppn, pm') \<and> freeUnaligned ppn 3 pm' = None"
proof -
  let ?pm = "\<lambda>ns a f. pm_ex\<lparr>buddyNodes := ns, pagesAllocated := a, pagesFreed := f\<rparr>"
  let ?pm3 = "?pm [2, 2, 1, 0, 2, 0, 1, 0, 0, 0, 0, 0, 0, 1, 0] 4 7"
  let ?pm4 = "?pm [3, 3, 1, 2, 2, 0, 1, 0, 0, 0, 0, 0, 0, 1, 0] 4 9"
  let ?pm5 = "?pm [3, 3, 2, 2, 2, 2, 1, 0, 0, 0, 0, 0, 0, 1, 0] 4 11"
  let ?pm6 = "?pm [2, 0, 2, 2, 2, 2, 1, 0, 0, 0, 0, 0, 0, 1, 0] 8 11"
  have steps: "alloc 2 pm_ex2 = Some (1, ?pm3)" "free 1 1 ?pm3 = Some ?pm4" "free 5 1 ?pm4 = Some ?pm5"
    and end_: "alloc 3 ?pm5 = Some (1, ?pm6)" "freeUnaligned 1 3 ?pm6 = None"
    by (simp_all add: pm_eval pm_ex_def pm_ex2_def cong: eval_congs)
  have "pm_run pm_ex {} ?pm3 {(1, 1), (5, 1)}"
    using pm_run_alloc[OF pm_run_alloc[OF pm_run_start pm_ex_alloc] steps(1), of "{}"] by (simp add: log2up_ex)
  then have "pm_run pm_ex {} ?pm4 {(5, 1)}" using pm_run_free[OF _ _ steps(2)] by fastforce
  then have "pm_run pm_ex {} ?pm5 {}" using pm_run_free[OF _ _ steps(3)] by fastforce
  with end_ show ?thesis by blast
qed



end
