(* ===== verification/PageTable.thy ===== *)
theory PageTable
  imports PageMgrSpec
begin

text \<open>
  The Sv39 page tables of \<open>include/vm.hh\<close> and \<open>kernel/vm/pagetable.cc\<close>.  A table is a page frame of
  512 entries; the frames that hold tables are a map from frame number and index to 64-bit entries
  (the kernel maps physical memory identically, so that the pointer of a table is its frame number
  shifted).  Frames for new tables come from the page allocator, whose state is threaded along.
  Page numbers are addresses shifted right by 12 bits: sums of them do not reach \<open>2^64\<close>.
\<close>

subsection \<open>Addresses\<close>

definition pn2addr :: "nat \<Rightarrow> nat" where
  "pn2addr pn = (pn * 2 ^ 12) mod 2 ^ 64"

definition addr2pn :: "nat \<Rightarrow> nat" where
  "addr2pn addr = addr div 2 ^ 12"

definition pageSize :: nat where
  "pageSize = 4096"

definition addr2offset :: "nat \<Rightarrow> nat" where
  "addr2offset addr = addr mod pageSize"

definition bytes2pages :: "nat \<Rightarrow> nat" where
  "bytes2pages bytes = bytes div pageSize + (if bytes mod pageSize > 0 then 1 else 0)"

definition vm_ceil :: "nat \<Rightarrow> nat" where
  "vm_ceil addr = (bytes2pages addr * pageSize) mod 2 ^ 64"

definition pageEntriesPerPage :: nat where
  "pageEntriesPerPage = pageSize div 8"

subsection \<open>Page table entries\<close>

type_synonym pte = "64 word"
type_synonym perm_t = "8 word"

definition isValid :: "pte \<Rightarrow> bool" where
  "isValid e = bit e 0"

definition isLeaf :: "pte \<Rightarrow> bool" where
  "isLeaf e = (bit e 1 \<or> bit e 2 \<or> bit e 3)"

definition setValid :: "pte \<Rightarrow> pte" where
  "setValid e = e OR 1"

definition setInvalid :: "pte \<Rightarrow> pte" where
  "setInvalid e = e AND NOT 0xFF"

definition setPTNode :: "pte \<Rightarrow> pte" where
  "setPTNode e = e AND NOT 0xE"

definition pte_perm :: "pte \<Rightarrow> perm_t" where
  "pte_perm e = ucast e"

definition pte_ppn :: "pte \<Rightarrow> nat" where
  "pte_ppn e = unat (drop_bit 10 e AND mask 44)"

definition set_perm :: "pte \<Rightarrow> perm_t \<Rightarrow> pte" where
  "set_perm e p = (e AND NOT 0xFF) OR ucast p"

definition set_ppn :: "pte \<Rightarrow> nat \<Rightarrow> pte" where
  "set_ppn e p = (e AND NOT (push_bit 10 (mask 44))) OR push_bit 10 (of_nat p AND mask 44)"

text \<open>The permission bits of \<open>fieldMasks\<close>.\<close>

definition mask_v :: perm_t where "mask_v = 0x1"
definition mask_r :: perm_t where "mask_r = 0x2"
definition mask_w :: perm_t where "mask_w = 0x4"
definition mask_x :: perm_t where "mask_x = 0x8"
definition mask_u :: perm_t where "mask_u = 0x10"

subsection \<open>State\<close>

type_synonym ptmem = "nat \<Rightarrow> nat \<Rightarrow> pte"

record PTState =
  pt_mem :: ptmem
  pt_pm :: PageMgr

definition set_entry :: "nat \<Rightarrow> nat \<Rightarrow> (pte \<Rightarrow> pte) \<Rightarrow> PTState \<Rightarrow> PTState" where
  "set_entry t i f st = st\<lparr>pt_mem := (pt_mem st)(t := (pt_mem st t)(i := f (pt_mem st t i)))\<rparr>"

definition createPTNode :: "PTState \<Rightarrow> (nat \<times> PTState) option" where
  "createPTNode st = do {
     (p, pm) \<leftarrow> alloc 1 (pt_pm st);
     Some (p, st\<lparr>pt_pm := pm, pt_mem := (pt_mem st)(p := (\<lambda>_. 0))\<rparr>)
   }"

definition freePTNode :: "nat \<Rightarrow> PTState \<Rightarrow> (bool \<times> PTState) option" where
  "freePTNode t st =
     (if list_ex (\<lambda>i. isValid (pt_mem st t i)) [0..<pageEntriesPerPage] then Some (False, st)
      else do { pm \<leftarrow> free t 0 (pt_pm st); Some (True, st\<lparr>pt_pm := pm\<rparr>) })"

subsection \<open>Translation\<close>

fun trans :: "nat \<Rightarrow> ptmem \<Rightarrow> nat \<Rightarrow> nat \<Rightarrow> nat option" where
  "trans level m table vpn = (
     let big = 2 ^ (9 * level); entry = m table ((vpn div big) mod 512) in do {
       ensure (isValid entry);
       if isLeaf entry then Some (pte_ppn entry + vpn mod big)
       else (case level of 0 \<Rightarrow> None | Suc l \<Rightarrow> trans l m (pte_ppn entry) vpn)
     })"

declare trans.simps [simp del]

definition PageTable_trans :: "ptmem \<Rightarrow> nat \<Rightarrow> nat \<Rightarrow> nat option" where
  "PageTable_trans m root vpn = trans 2 m root vpn"

definition transaddr :: "ptmem \<Rightarrow> nat \<Rightarrow> nat \<Rightarrow> nat option" where
  "transaddr m root addr = do {
     ppn \<leftarrow> PageTable_trans m root (addr2pn addr);
     Some (add64 (pn2addr ppn) (addr2offset addr))
   }"

subsection \<open>\<open>createMapping\<close>\<close>

text \<open>
  The two places where a range covers part of a big page have the same shape: take the table below
  the entry, or make one and push an existing big page down into it (the part of it at \<open>pvpn\<close>, at
  offset \<open>poff\<close> and \<open>pn\<close> pages long), then map the range in that table.
\<close>

type_synonym map_fn = "nat \<Rightarrow> nat \<Rightarrow> nat \<Rightarrow> nat \<Rightarrow> perm_t \<Rightarrow> PTState \<Rightarrow> PTState option"

definition subTable_of :: "map_fn \<Rightarrow> nat \<Rightarrow> nat \<Rightarrow> nat \<Rightarrow> nat \<Rightarrow> nat \<Rightarrow> PTState \<Rightarrow> (nat \<times> PTState) option" where
  "subTable_of rec table i pvpn poff pn st = (
     let entry = pt_mem st table i in
     if isValid entry \<and> \<not> isLeaf entry then Some (pte_ppn entry, st)
     else do {
       (sub, st) \<leftarrow> createPTNode st;
       let entry = pt_mem st table i;
       st \<leftarrow> (if isValid entry \<and> isLeaf entry
              then rec sub pvpn (pte_ppn entry + poff) pn (pte_perm entry) (set_entry table i setPTNode st)
              else Some st);
       Some (sub, set_entry table i (\<lambda>e. set_ppn (setValid e) sub) st)
     })"

fun map_whole :: "nat \<Rightarrow> nat \<Rightarrow> nat \<Rightarrow> nat \<Rightarrow> nat \<Rightarrow> perm_t \<Rightarrow> PTState \<Rightarrow> PTState option" where
  "map_whole 0 big table i ppn perm st = Some st"
| "map_whole (Suc n) big table i ppn perm st = do {
     ensure (i < pageEntriesPerPage);
     map_whole n big table (i + 1) (ppn + big) perm
       (set_entry table i (\<lambda>e. set_ppn (set_perm (setValid e) perm) ppn) st)
   }"

text \<open>The part of \<open>createMapping\<close> after the head: whole big pages, then the rest.\<close>

definition createMapping_tail :: "map_fn \<Rightarrow> nat \<Rightarrow> map_fn" where
  "createMapping_tail rec level table vpn ppn pages perm st = (
     let big = 2 ^ (9 * level); n = pages div big; rest = pages - n * big in do {
       st \<leftarrow> map_whole n big table ((vpn div big) mod 512) ppn perm st;
       if rest \<noteq> 0 then do {
         (sub, st) \<leftarrow> subTable_of rec table (((vpn + n * big) div big) mod 512)
                       (vpn + n * big + rest) rest (big - rest) st;
         rec sub (vpn + n * big) (ppn + n * big) rest perm st
       } else Some st
     })"

definition createMapping_body :: "map_fn \<Rightarrow> nat \<Rightarrow> map_fn" where
  "createMapping_body rec level table vpn ppn pages perm st = (
     let big = 2 ^ (9 * level); unaligned = vpn mod big in
     if unaligned \<noteq> 0 then
       let partial = min (big - unaligned) pages in do {
         (sub, st) \<leftarrow> subTable_of rec table ((vpn div big) mod 512) (vpn - unaligned) 0 unaligned st;
         st \<leftarrow> rec sub vpn ppn partial perm st;
         createMapping_tail rec level table (vpn + partial) (ppn + partial) (pages - partial) perm st
       }
     else createMapping_tail rec level table vpn ppn pages perm st)"

text \<open>Below level 0 there is no table: there both calls are unreachable, because every range is aligned.\<close>

primrec createMapping :: "nat \<Rightarrow> map_fn" where
  "createMapping 0 = createMapping_body (\<lambda>_ _ _ _ _ _. None) 0"
| "createMapping (Suc l) = createMapping_body (createMapping l) (Suc l)"

definition PageTable_createMapping :: "map_fn" where
  "PageTable_createMapping root vpn ppn pages perm st = createMapping 2 root vpn ppn pages perm st"

subsection \<open>\<open>removeMapping\<close>\<close>

type_synonym unmap_fn = "nat \<Rightarrow> nat \<Rightarrow> nat \<Rightarrow> PTState \<Rightarrow> PTState option"

definition sub_remove :: "unmap_fn \<Rightarrow> nat \<Rightarrow> nat \<Rightarrow> nat \<Rightarrow> nat \<Rightarrow> PTState \<Rightarrow> PTState option" where
  "sub_remove rec table i vpn pages st = (
     let entry = pt_mem st table i in
     if isValid entry then do {
       ensure (\<not> isLeaf entry);
       st \<leftarrow> rec (pte_ppn entry) vpn pages st;
       (freed, st) \<leftarrow> freePTNode (pte_ppn entry) st;
       Some (if freed then set_entry table i setInvalid st else st)
     } else Some st)"

fun unmap_whole :: "unmap_fn \<Rightarrow> nat \<Rightarrow> nat \<Rightarrow> nat \<Rightarrow> nat \<Rightarrow> nat \<Rightarrow> PTState \<Rightarrow> PTState option" where
  "unmap_whole rec 0 big table i vpn st = Some st"
| "unmap_whole rec (Suc n) big table i vpn st = do {
     ensure (i < pageEntriesPerPage);
     let entry = pt_mem st table i;
     st \<leftarrow> (if isValid entry then
              (if isLeaf entry then Some (set_entry table i setInvalid st)
               else do {
                 st \<leftarrow> rec (pte_ppn entry) vpn big st;
                 (freed, st) \<leftarrow> freePTNode (pte_ppn (pt_mem st table i)) st;
                 ensure freed;
                 Some (set_entry table i setInvalid st)
               })
            else Some st);
     unmap_whole rec n big table (i + 1) (vpn + big) st
   }"

definition removeMapping_tail :: "unmap_fn \<Rightarrow> nat \<Rightarrow> unmap_fn" where
  "removeMapping_tail rec level table vpn pages st = (
     let big = 2 ^ (9 * level); n = pages div big; rest = pages - n * big in do {
       st \<leftarrow> unmap_whole rec n big table ((vpn div big) mod 512) vpn st;
       if rest \<noteq> 0 then sub_remove rec table (((vpn + n * big) div big) mod 512) (vpn + n * big) rest st
       else Some st
     })"

definition removeMapping_body :: "unmap_fn \<Rightarrow> nat \<Rightarrow> unmap_fn" where
  "removeMapping_body rec level table vpn pages st = (
     let big = 2 ^ (9 * level); unaligned = vpn mod big in
     if unaligned \<noteq> 0 then
       let partial = min (big - unaligned) pages in do {
         st \<leftarrow> sub_remove rec table ((vpn div big) mod 512) vpn partial st;
         removeMapping_tail rec level table (vpn + partial) (pages - partial) st
       }
     else removeMapping_tail rec level table vpn pages st)"

primrec removeMapping :: "nat \<Rightarrow> unmap_fn" where
  "removeMapping 0 = removeMapping_body (\<lambda>_ _ _ _. None) 0"
| "removeMapping (Suc l) = removeMapping_body (removeMapping l) (Suc l)"

definition PageTable_removeMapping :: "unmap_fn" where
  "PageTable_removeMapping root vpn pages st = removeMapping 2 root vpn pages st"

text \<open>\<open>toSATP\<close>: mode 8 (Sv39), address space 0, the frame number of the root.\<close>

definition toSATP :: "nat \<Rightarrow> 64 word" where
  "toSATP root = push_bit 60 8 OR (of_nat root AND mask 44)"

end
