(* ===== verification/PageTableSpec.thy ===== *)
theory PageTableSpec
  imports PageTable
begin

text \<open>
  Correctness of the page tables.  \<open>walk\<close> is what the hardware computes from the entries: the
  frame and the permissions of a virtual page.  A well-formed table (\<open>pt_wf\<close>) is a tree of distinct
  frames; \<open>pt_frames\<close> are the frames of that tree.
\<close>

subsection \<open>Bits of an entry\<close>

lemma lit_FF: "(0xFF :: 64 word) = mask 8"
  by (simp add: mask_eq_exp_minus_1)

lemma lit_E: "(0xE :: 64 word) = mask 4 AND NOT (mask 1)"
  by (simp add: mask_eq_exp_minus_1)

lemma bit_setValid: "bit (setValid e) n \<longleftrightarrow> bit e n \<or> n = 0"
  by (auto simp: setValid_def bit_simps)

lemma bit_setInvalid: "bit (setInvalid e) n \<longleftrightarrow> bit e n \<and> 8 \<le> n"
  unfolding setInvalid_def lit_FF by (auto simp: bit_simps dest: bit_imp_le_length)

lemma bit_setPTNode: "bit (setPTNode e) n \<longleftrightarrow> bit e n \<and> n \<noteq> 1 \<and> n \<noteq> 2 \<and> n \<noteq> 3"
proof -
  have "\<not> n < 4 \<or> n = 0 \<or> n = 1 \<or> n = 2 \<or> n = 3" by arith
  then show ?thesis
    unfolding setPTNode_def lit_E bit_and_iff bit_not_iff bit_mask_iff
    by (auto dest: bit_imp_le_length)
qed

lemma bit_pte_perm: "bit (pte_perm e) n \<longleftrightarrow> bit e n \<and> n < 8"
  by (auto simp: pte_perm_def bit_simps)

lemma bit_set_perm: "bit (set_perm e q) n \<longleftrightarrow> (if n < 8 then bit q n else bit e n)"
  unfolding set_perm_def lit_FF by (auto simp: bit_simps dest: bit_imp_le_length)

lemma bit_set_ppn: "bit (set_ppn e p) n \<longleftrightarrow> (if 10 \<le> n \<and> n < 54 then bit p (n - 10) else bit e n)"
  unfolding set_ppn_def by (auto simp: bit_simps dest: bit_imp_le_length)

lemmas bit_pte = bit_setValid bit_setInvalid bit_setPTNode bit_pte_perm bit_set_perm bit_set_ppn

lemma pte_ppn_cong:
  assumes "\<And>n. 10 \<le> n \<Longrightarrow> n < 54 \<Longrightarrow> bit e n = bit e' n"
  shows "pte_ppn e = pte_ppn e'"
proof -
  have "drop_bit 10 e AND mask 44 = drop_bit 10 e' AND mask 44"
    by (rule bit_eqI) (auto simp: bit_simps assms)
  then show ?thesis by (simp add: pte_ppn_def)
qed

lemma pte_ppn_less: "pte_ppn e < 2 ^ 44"
proof -
  have "pte_ppn e = take_bit 44 (unat (drop_bit 10 e))"
    by (simp add: pte_ppn_def unsigned_take_bit_eq flip: take_bit_eq_mask)
  then show ?thesis using take_bit_nat_less_exp[of 44 "unat (drop_bit 10 e)"] by simp
qed

lemma pte_ppn_set_ppn [simp]: "p < 2 ^ 44 \<Longrightarrow> pte_ppn (set_ppn e p) = p"
proof -
  assume p: "p < 2 ^ 44"
  have "drop_bit 10 (set_ppn e p) AND mask 44 = (of_nat p :: 64 word)"
  proof (rule bit_eqI)
    fix n
    assume "possible_bit TYPE(64 word) n"
    have "bit p n \<Longrightarrow> n < 44" using p by (metis bit_take_bit_iff take_bit_nat_eq_self_iff)
    then show "bit (drop_bit 10 (set_ppn e p) AND mask 44) n = bit (of_nat p :: 64 word) n"
      by (auto simp: bit_set_ppn bit_simps)
  qed
  then show ?thesis using p by (simp add: pte_ppn_def unat_of_nat)
qed

lemma pte_ppn_others [simp]:
  "pte_ppn (setValid e) = pte_ppn e" "pte_ppn (setInvalid e) = pte_ppn e" "pte_ppn (setPTNode e) = pte_ppn e"
  "pte_ppn (set_perm e p) = pte_ppn e"
  by (rule pte_ppn_cong; simp add: bit_pte)+

lemma pte_flags [simp]:
  "isValid (set_ppn e p) = isValid e" "isLeaf (set_ppn e p) = isLeaf e"
  "isValid (setValid e)" "isLeaf (setValid e) = isLeaf e" "\<not> isValid (setInvalid e)" "\<not> isLeaf (setInvalid e)"
  "isValid (setPTNode e) = isValid e" "\<not> isLeaf (setPTNode e)"
  "isValid (set_perm e q) = bit q 0" "isLeaf (set_perm e q) = (bit q 1 \<or> bit q 2 \<or> bit q 3)"
  "\<not> isValid 0" "\<not> isLeaf 0"
  by (auto simp: isValid_def isLeaf_def bit_pte)

lemma pte_perm_set [simp]: "pte_perm (set_perm e q) = q" "pte_perm (set_ppn e p) = pte_perm e"
  by (rule bit_eqI; auto simp: bit_pte)+

lemma perm_flags: "bit (pte_perm e) 0 = isValid e"
  "(bit (pte_perm e) 1 \<or> bit (pte_perm e) 2 \<or> bit (pte_perm e) 3) = isLeaf e"
  by (auto simp: isValid_def isLeaf_def bit_pte)

subsection \<open>Walks, frames and well-formedness\<close>

definition big :: "nat \<Rightarrow> nat" where
  "big l = 2 ^ (9 * l)"

definition idx :: "nat \<Rightarrow> nat \<Rightarrow> nat" where
  "idx l v = (v div big l) mod 512"

definition isNode :: "pte \<Rightarrow> bool" where
  "isNode e \<longleftrightarrow> isValid e \<and> \<not> isLeaf e"

definition ewalk :: "(nat \<Rightarrow> nat \<Rightarrow> (nat \<times> perm_t) option) \<Rightarrow> nat \<Rightarrow> pte \<Rightarrow> nat \<Rightarrow> (nat \<times> perm_t) option" where
  "ewalk f l e v = (if \<not> isValid e then None
     else if isLeaf e then Some (pte_ppn e + v mod big l, pte_perm e) else f (pte_ppn e) v)"

primrec walk :: "nat \<Rightarrow> ptmem \<Rightarrow> nat \<Rightarrow> nat \<Rightarrow> (nat \<times> perm_t) option" where
  "walk 0 m = (\<lambda>t v. ewalk (\<lambda>_ _. None) 0 (m t (idx 0 v)) v)"
| "walk (Suc l) m = (\<lambda>t v. ewalk (walk l m) (Suc l) (m t (idx (Suc l) v)) v)"

primrec pt_frames :: "nat \<Rightarrow> ptmem \<Rightarrow> nat \<Rightarrow> nat set" where
  "pt_frames 0 m = (\<lambda>t. {t})"
| "pt_frames (Suc l) m = (\<lambda>t. insert t (\<Union>i\<in>{..<512}. if isNode (m t i) then pt_frames l m (pte_ppn (m t i)) else {}))"

definition pte_ok :: "nat \<Rightarrow> pte \<Rightarrow> bool" where
  "pte_ok l e \<longleftrightarrow> (isValid e \<longrightarrow> isLeaf e \<longrightarrow> pte_ppn e + big l \<le> 2 ^ 44) \<and> (\<not> isValid e \<longrightarrow> \<not> isLeaf e)"

text \<open>Frames, well-formedness and walk of the table below an entry of level \<open>l\<close>.\<close>

definition sub_frames :: "nat \<Rightarrow> ptmem \<Rightarrow> pte \<Rightarrow> nat set" where
  "sub_frames l m e = (case l of 0 \<Rightarrow> {} | Suc k \<Rightarrow> if isNode e then pt_frames k m (pte_ppn e) else {})"

definition sub_walk :: "nat \<Rightarrow> ptmem \<Rightarrow> nat \<Rightarrow> nat \<Rightarrow> (nat \<times> perm_t) option" where
  "sub_walk l m = (case l of 0 \<Rightarrow> (\<lambda>_ _. None) | Suc k \<Rightarrow> walk k m)"

primrec pt_wf :: "nat \<Rightarrow> ptmem \<Rightarrow> nat \<Rightarrow> bool" where
  "pt_wf 0 m = (\<lambda>t. \<forall>i<512. pte_ok 0 (m t i) \<and> \<not> isNode (m t i))"
| "pt_wf (Suc l) m = (\<lambda>t. (\<forall>i<512. pte_ok (Suc l) (m t i) \<and>
       (isNode (m t i) \<longrightarrow> pt_wf l m (pte_ppn (m t i)) \<and> t \<notin> pt_frames l m (pte_ppn (m t i)))) \<and>
     (\<forall>i<512. \<forall>j<512. i \<noteq> j \<longrightarrow> sub_frames (Suc l) m (m t i) \<inter> sub_frames (Suc l) m (m t j) = {}))"

definition sub_wf :: "nat \<Rightarrow> ptmem \<Rightarrow> pte \<Rightarrow> bool" where
  "sub_wf l m e = (case l of 0 \<Rightarrow> \<not> isNode e | Suc k \<Rightarrow> isNode e \<longrightarrow> pt_wf k m (pte_ppn e))"

lemma idx_less [simp]: "idx l v < 512"
  by (simp add: idx_def)

lemma walk_eq: "walk l m t v = ewalk (sub_walk l m) l (m t (idx l v)) v"
  by (cases l) (simp_all add: sub_walk_def)

lemma pt_frames_eq: "pt_frames l m t = insert t (\<Union>i\<in>{..<512}. sub_frames l m (m t i))"
  by (cases l) (simp_all add: sub_frames_def)

lemma pt_frames_self [simp]: "t \<in> pt_frames l m t"
  by (simp add: pt_frames_eq)

lemma pt_wf_eq:
  "pt_wf l m t \<longleftrightarrow> (\<forall>i<512. pte_ok l (m t i) \<and> sub_wf l m (m t i) \<and> t \<notin> sub_frames l m (m t i)) \<and>
     (\<forall>i<512. \<forall>j<512. i \<noteq> j \<longrightarrow> sub_frames l m (m t i) \<inter> sub_frames l m (m t j) = {})"
  by (cases l) (auto simp: sub_wf_def sub_frames_def)

text \<open>Everything below a table depends only on the contents of its frames.\<close>

lemma pt_cong:
  "(\<And>f. f \<in> pt_frames l m t \<Longrightarrow> m' f = m f) \<Longrightarrow>
   pt_frames l m' t = pt_frames l m t \<and> walk l m' t = walk l m t \<and> pt_wf l m' t = pt_wf l m t"
proof (induction l arbitrary: t)
  case 0
  then show ?case by (simp add: fun_eq_iff)
next
  case (Suc l)
  have t: "m' t = m t" using Suc.prems by simp
  have IH: "pt_frames l m' c = pt_frames l m c \<and> walk l m' c = walk l m c \<and> pt_wf l m' c = pt_wf l m c"
    if "i < 512" "isNode (m t i)" "c = pte_ppn (m t i)" for i c
    using that Suc.prems by (intro Suc.IH) auto
  have fr: "sub_frames (Suc l) m' (m t i) = sub_frames (Suc l) m (m t i)" if "i < 512" for i
    using IH[OF that] by (simp add: sub_frames_def)
  have "pt_frames (Suc l) m' t = pt_frames (Suc l) m t" unfolding pt_frames_eq t using fr by simp
  moreover have "walk (Suc l) m' t = walk (Suc l) m t"
    using IH by (auto simp: fun_eq_iff t ewalk_def isNode_def)
  moreover have "pt_wf (Suc l) m' t = pt_wf (Suc l) m t"
    using IH fr by (simp add: t cong: conj_cong)
  ultimately show ?case by blast
qed

lemma sub_cong:
  assumes "\<And>f. f \<in> sub_frames l m e \<Longrightarrow> m' f = m f"
  shows "sub_frames l m' e = sub_frames l m e" "sub_wf l m' e = sub_wf l m e"
    "ewalk (sub_walk l m') l e v = ewalk (sub_walk l m) l e v"
proof -
  have "sub_frames l m' e = sub_frames l m e \<and> sub_wf l m' e = sub_wf l m e \<and>
    ewalk (sub_walk l m') l e v = ewalk (sub_walk l m) l e v"
  proof (cases "l = 0 \<or> \<not> isNode e")
    case True
    then show ?thesis by (auto simp: sub_frames_def sub_wf_def sub_walk_def ewalk_def isNode_def split: nat.splits)
  next
    case False
    then obtain k where k: "l = Suc k" "isNode e" by (cases l) auto
    then show ?thesis using pt_cong[of k m "pte_ppn e" m'] assms
      by (simp add: sub_frames_def sub_wf_def sub_walk_def ewalk_def)
  qed
  then show "sub_frames l m' e = sub_frames l m e" "sub_wf l m' e = sub_wf l m e"
    "ewalk (sub_walk l m') l e v = ewalk (sub_walk l m) l e v" by auto
qed

lemma entry_update:
  assumes wf: "pt_wf l m t" and i: "i < 512"
    and out: "\<And>f. f \<noteq> t \<Longrightarrow> f \<notin> X \<Longrightarrow> m' f = m f" and same: "\<And>j. j \<noteq> i \<Longrightarrow> m' t j = m t j"
    and X: "t \<notin> X" "\<And>j. j < 512 \<Longrightarrow> j \<noteq> i \<Longrightarrow> sub_frames l m (m t j) \<inter> X = {}"
    and new: "pte_ok l (m' t i)" "sub_wf l m' (m' t i)" "sub_frames l m' (m' t i) \<subseteq> X"
  shows "pt_wf l m' t" "pt_frames l m' t \<subseteq> pt_frames l m t \<union> X"
    "walk l m' t v = (if idx l v = i then ewalk (sub_walk l m') l (m' t i) v else walk l m t v)"
    "pt_frames l m' t \<subseteq> (pt_frames l m t - X) \<union> sub_frames l m' (m' t i)"
    "pt_frames l m t \<subseteq> pt_frames l m' t \<union> sub_frames l m (m t i)"
proof -
  have ag: "m' f = m f" if "j < 512" "j \<noteq> i" "f \<in> sub_frames l m (m t j)" for j f
    using out[of f] X that wf unfolding pt_wf_eq by blast
  have o: "sub_frames l m' (m' t j) = sub_frames l m (m t j)" "sub_wf l m' (m' t j)" "pte_ok l (m' t j)"
    "t \<notin> sub_frames l m' (m' t j)" if "j < 512" "j \<noteq> i" for j
    using sub_cong(1,2)[of l m "m t j" m'] ag[OF that] same[OF that(2)] wf that unfolding pt_wf_eq by auto
  show "pt_wf l m' t" unfolding pt_wf_eq
  proof (intro conjI allI impI)
    fix j k :: nat
    assume jk: "j < 512" "k < 512" "j \<noteq> k"
    consider "j = i" | "k = i" | "j \<noteq> i" "k \<noteq> i" by blast
    then show "sub_frames l m' (m' t j) \<inter> sub_frames l m' (m' t k) = {}"
    proof cases
      case 3
      then show ?thesis using o(1) jk wf unfolding pt_wf_eq by simp
    qed (use new(3) X(2) o(1) jk in fastforce)+
  qed (use new X(1) o in blast)+
  show "pt_frames l m' t \<subseteq> pt_frames l m t \<union> X"
  proof -
    have "sub_frames l m' (m' t j) \<subseteq> pt_frames l m t \<union> X" if "j < 512" for j
      using o(1)[OF that] new(3) that by (cases "j = i") (auto simp: pt_frames_eq)
    then show ?thesis unfolding pt_frames_eq[of l m' t] by auto
  qed
  show "pt_frames l m' t \<subseteq> (pt_frames l m t - X) \<union> sub_frames l m' (m' t i)"
  proof -
    have "sub_frames l m' (m' t j) \<subseteq> (pt_frames l m t - X) \<union> sub_frames l m' (m' t i)" if "j < 512" for j
      using o(1)[OF that] X(2)[OF that] that by (cases "j = i") (auto simp: pt_frames_eq)
    then show ?thesis unfolding pt_frames_eq[of l m' t] using X(1) by auto
  qed
  show "pt_frames l m t \<subseteq> pt_frames l m' t \<union> sub_frames l m (m t i)"
  proof -
    have "sub_frames l m (m t j) \<subseteq> pt_frames l m' t \<union> sub_frames l m (m t i)" if "j < 512" for j
      using o(1)[OF that] that by (cases "j = i") (auto simp: pt_frames_eq)
    then show ?thesis unfolding pt_frames_eq[of l m t] by auto
  qed
  show "walk l m' t v = (if idx l v = i then ewalk (sub_walk l m') l (m' t i) v else walk l m t v)"
  proof (cases "idx l v = i")
    case False
    then show ?thesis using sub_cong(3)[of l m "m t (idx l v)" m' v] ag[of "idx l v"] same
      by (simp add: walk_eq)
  qed (simp add: walk_eq)
qed

subsection \<open>Arithmetic of big pages\<close>

lemma big_pos [simp]: "0 < big l" and big_0 [simp]: "big 0 = 1" and big_Suc: "big (Suc l) = 512 * big l"
  by (simp_all add: big_def power_add)

lemma idx_mod: "v mod big (Suc l) = idx l v * big l + v mod big l"
  unfolding idx_def big_Suc by (metis mod_mult2_eq mult.commute)

lemma mod_big_Suc_mod [simp]: "v mod big (Suc l) mod big l = v mod big l"
  unfolding big_Suc by (simp add: mod_mod_cancel)

text \<open>Pages at offset \<open>a\<close> to \<open>a + n\<close> of the window of a table of level \<open>l\<close>.\<close>

definition in_range :: "nat \<Rightarrow> nat \<Rightarrow> nat \<Rightarrow> nat \<Rightarrow> bool" where
  "in_range l vpn n v \<longleftrightarrow> vpn mod big (Suc l) \<le> v mod big (Suc l) \<and> v mod big (Suc l) < vpn mod big (Suc l) + n"

definition perm_ok :: "perm_t \<Rightarrow> bool" where
  "perm_ok p \<longleftrightarrow> bit p 0 = (bit p 1 \<or> bit p 2 \<or> bit p 3)"

lemma perm_ok_leaf: "isValid e \<and> isLeaf e \<Longrightarrow> perm_ok (pte_perm e)"
  by (auto simp: perm_ok_def bit_pte_perm isValid_def isLeaf_def)

definition mapped_to :: "nat \<Rightarrow> nat \<Rightarrow> nat \<Rightarrow> perm_t \<Rightarrow> nat \<Rightarrow> (nat \<times> perm_t) option" where
  "mapped_to l vpn ppn perm v =
     (if bit perm 0 then Some (ppn + (v mod big (Suc l) - vpn mod big (Suc l)), perm) else None)"

fun nosplit :: "nat \<Rightarrow> ptmem \<Rightarrow> nat \<Rightarrow> nat \<Rightarrow> nat \<Rightarrow> bool" where
  "nosplit 0 m t vpn n \<longleftrightarrow> True"
| "nosplit (Suc l) m t vpn n \<longleftrightarrow> (let e = m t (idx (Suc l) vpn); u = vpn mod big (Suc l) in
     u \<noteq> 0 \<longrightarrow> isValid e \<longrightarrow>
       (if isLeaf e then big (Suc l) - u \<le> n else nosplit l m (pte_ppn e) vpn (min (big (Suc l) - u) n)))"

lemma nosplit_aligned: "vpn mod big l = 0 \<Longrightarrow> nosplit l m t vpn n"
  by (cases l) auto

lemma nosplit_unmapped: "walk l m t vpn = None \<Longrightarrow> nosplit l m t vpn n"
proof (induction l arbitrary: t n)
  case (Suc l)
  then show ?case by (auto simp: ewalk_def split: if_splits)
qed simp

subsection \<open>The contract of \<open>createMapping\<close>\<close>

definition pt_inv :: "nat \<Rightarrow> PTState \<Rightarrow> nat \<Rightarrow> nat set \<Rightarrow> nat set \<Rightarrow> bool" where
  "pt_inv l st t F A \<longleftrightarrow> frames_inv (pt_pm st) F A \<and> finite F \<and> F \<subseteq> {..< 2 ^ 44} \<and>
     pt_wf l (pt_mem st) t \<and> pt_frames l (pt_mem st) t \<subseteq> A"

definition map_post :: "nat \<Rightarrow> nat \<Rightarrow> PTState \<Rightarrow> nat set \<Rightarrow> nat set \<Rightarrow> nat \<Rightarrow> PTState \<Rightarrow> nat set \<Rightarrow> bool" where
  "map_post l t st F A N st' F' \<longleftrightarrow>
     pt_inv l st' t F' (A \<union> (F - F')) \<and> F' \<subseteq> F \<and> card F \<le> card F' + N \<and>
     pt_frames l (pt_mem st') t \<subseteq> pt_frames l (pt_mem st) t \<union> (F - F') \<and>
     (\<forall>f. f \<notin> pt_frames l (pt_mem st) t \<union> (F - F') \<longrightarrow> pt_mem st' f = pt_mem st f)"

definition map_pre :: "nat \<Rightarrow> nat \<Rightarrow> nat \<Rightarrow> nat \<Rightarrow> nat \<Rightarrow> perm_t \<Rightarrow> PTState \<Rightarrow> bool" where
  "map_pre l t vpn ppn n perm st \<longleftrightarrow>
     vpn mod big (Suc l) + n \<le> big (Suc l) \<and> ppn + n \<le> 2 ^ 44 \<and> perm_ok perm \<and> nosplit l (pt_mem st) t vpn n"

definition map_spec :: "nat \<Rightarrow> map_fn \<Rightarrow> nat \<Rightarrow> bool" where
  "map_spec l f N \<longleftrightarrow> (\<forall>t vpn ppn n perm st F A.
     pt_inv l st t F A \<longrightarrow> N \<le> card F \<longrightarrow> map_pre l t vpn ppn n perm st \<longrightarrow>
     (\<exists>st' F'. f t vpn ppn n perm st = Some st' \<and> map_post l t st F A N st' F' \<and>
        (\<forall>v. walk l (pt_mem st') t v =
           (if in_range l vpn n v then mapped_to l vpn ppn perm v else walk l (pt_mem st) t v))))"

lemma map_specD:
  assumes "map_spec l f N" "pt_inv l st t F A" "N \<le> card F" "map_pre l t vpn ppn n perm st"
  obtains st' F' where "f t vpn ppn n perm st = Some st'" "map_post l t st F A N st' F'"
    "\<And>v. walk l (pt_mem st') t v =
           (if in_range l vpn n v then mapped_to l vpn ppn perm v else walk l (pt_mem st) t v)"
  using assms unfolding map_spec_def by blast


lemma empty_table:
  assumes "m p = (\<lambda>_. 0)"
  shows "pt_wf l m p" "pt_frames l m p = {p}" "walk l m p v = None"
  using assms by (auto simp: pt_wf_eq pt_frames_eq walk_eq pte_ok_def sub_wf_def sub_frames_def ewalk_def isNode_def
      split: nat.splits)

lemma set_entry_sel [simp]:
  "pt_pm (set_entry t i f st) = pt_pm st"
  "pt_mem (set_entry t i f st) = (pt_mem st)(t := (pt_mem st t)(i := f (pt_mem st t i)))"
  by (simp_all add: set_entry_def)

lemma pt_invD:
  assumes "pt_inv l st t F A"
  shows "frames_inv (pt_pm st) F A" "finite F" "F \<subseteq> {..< 2 ^ 44}" "pt_wf l (pt_mem st) t"
    "pt_frames l (pt_mem st) t \<subseteq> A" "F \<inter> A = {}" "t \<in> A" "t \<notin> F"
proof -
  show i: "frames_inv (pt_pm st) F A" "finite F" "F \<subseteq> {..< 2 ^ 44}" "pt_wf l (pt_mem st) t"
    "pt_frames l (pt_mem st) t \<subseteq> A" using assms by (auto simp: pt_inv_def)
  show "F \<inter> A = {}" using frames.disjoint[OF i(1)] .
  moreover show "t \<in> A" using i(5) pt_frames_self by blast
  ultimately show "t \<notin> F" by blast
qed

lemma createPTNode_Some:
  assumes "frames_inv (pt_pm st) F A" "F \<noteq> {}"
  obtains p st' where "createPTNode st = Some (p, st')" "p \<in> F" "p \<notin> A"
    "frames_inv (pt_pm st') (F - {p}) (insert p A)" "pt_mem st' = (pt_mem st)(p := (\<lambda>_. 0))"
proof -
  from frames.alloc1_Ex[OF assms] obtain p pm where
    "alloc 1 (pt_pm st) = Some (p, pm)" "p \<in> F" "p \<notin> A" "frames_inv pm (F - {p}) (insert p A)" .
  then show thesis using that[of p "st\<lparr>pt_pm := pm, pt_mem := (pt_mem st)(p := (\<lambda>_. 0))\<rparr>"]
    by (simp add: createPTNode_def)
qed

text \<open>
  What \<open>subTable_of\<close> establishes: the entry \<open>i\<close> points to a table for the next level; what was
  mapped through it is still mapped, except for the part of a big page that is not pushed down.
\<close>

definition sub_ready :: "nat \<Rightarrow> nat \<Rightarrow> nat \<Rightarrow> nat \<Rightarrow> nat \<Rightarrow> PTState \<Rightarrow> nat set \<Rightarrow> nat set \<Rightarrow> nat \<Rightarrow>
    nat \<Rightarrow> PTState \<Rightarrow> nat set \<Rightarrow> bool" where
  "sub_ready k t i pv pn st F A N sub st' F' \<longleftrightarrow>
     (let m = pt_mem st; m' = pt_mem st'; e = m t i in
      pt_inv k st' sub F' (A \<union> (F - F')) \<and> F' \<subseteq> F \<and> card F \<le> card F' + (1 + N) \<and>
      pt_frames k m' sub \<subseteq> sub_frames (Suc k) m e \<union> (F - F') \<and>
      (\<forall>f. f \<noteq> t \<longrightarrow> f \<notin> F - F' \<longrightarrow> m' f = m f) \<and> (\<forall>j. j \<noteq> i \<longrightarrow> m' t j = m t j) \<and>
      isNode (m' t i) \<and> pte_ppn (m' t i) = sub \<and>
      (\<forall>v. walk k m' sub v = (if isValid e \<and> isLeaf e \<and> \<not> in_range k pv pn v then None
                              else ewalk (walk k m) (Suc k) e v)))"

lemma subTable_node:
  assumes "pt_inv (Suc k) st t F A" "i < 512" "isNode (pt_mem st t i)"
  shows "subTable_of rec t i pv po pn st = Some (pte_ppn (pt_mem st t i), st)"
    and "sub_ready k t i pv pn st F A N (pte_ppn (pt_mem st t i)) st F"
proof -
  note D = pt_invD[OF assms(1)]
  let ?sub = "pte_ppn (pt_mem st t i)"
  have sf: "sub_frames (Suc k) (pt_mem st) (pt_mem st t i) = pt_frames k (pt_mem st) ?sub"
    using assms(3) by (simp add: sub_frames_def)
  have "pt_wf k (pt_mem st) ?sub" using D(4) assms(2,3) by simp
  moreover have "pt_frames k (pt_mem st) ?sub \<subseteq> A" using D(5) assms(2) sf unfolding pt_frames_eq by blast
  ultimately show "sub_ready k t i pv pn st F A N ?sub st F"
    using assms(3) D(1-3) sf by (auto simp: sub_ready_def pt_inv_def ewalk_def isNode_def)
  show "subTable_of rec t i pv po pn st = Some (?sub, st)"
    using assms(3) by (auto simp: subTable_of_def isNode_def)
qed


lemma sub_ready_new:
  assumes st: "t \<noteq> p" "\<not> isNode (pt_mem st t i)" "t \<in> A" "F \<inter> A = {}"
    and p: "p \<in> F" "p \<notin> F'" "F' \<subseteq> F" "p < 2 ^ 44"
    and st2: "pt_inv k st2 p F' (A \<union> (F - F'))" "card F \<le> card F' + (1 + N)"
    and fr: "pt_frames k (pt_mem st2) p \<subseteq> F - F'"
    and out: "\<And>f. f \<noteq> t \<Longrightarrow> f \<notin> F - F' \<Longrightarrow> pt_mem st2 f = pt_mem st f"
    and same: "\<And>j. j \<noteq> i \<Longrightarrow> pt_mem st2 t j = pt_mem st t j" and nl: "\<not> isLeaf (pt_mem st2 t i)"
    and w: "\<And>v. walk k (pt_mem st2) p v = (if isValid (pt_mem st t i) \<and> isLeaf (pt_mem st t i) \<and> in_range k pv pn v
              then Some (pte_ppn (pt_mem st t i) + v mod big (Suc k), pte_perm (pt_mem st t i)) else None)"
  shows "sub_ready k t i pv pn st F A N p (set_entry t i (\<lambda>e. set_ppn (setValid e) p) st2) F'"
proof -
  let ?st = "set_entry t i (\<lambda>e. set_ppn (setValid e) p) st2"
  have tn: "t \<notin> pt_frames k (pt_mem st2) p" using fr st(3,4) by blast
  have c: "pt_frames k (pt_mem ?st) p = pt_frames k (pt_mem st2) p \<and> walk k (pt_mem ?st) p = walk k (pt_mem st2) p \<and>
     pt_wf k (pt_mem ?st) p = pt_wf k (pt_mem st2) p"
    by (rule pt_cong) (use tn in auto)
  have "pt_inv k ?st p F' (A \<union> (F - F'))" using st2(1) c by (simp add: pt_inv_def)
  moreover have "walk k (pt_mem ?st) p v = (if isValid (pt_mem st t i) \<and> isLeaf (pt_mem st t i) \<and> \<not> in_range k pv pn v
      then None else ewalk (walk k (pt_mem st)) (Suc k) (pt_mem st t i) v)" for v
    using c w st(2) by (auto simp: ewalk_def isNode_def)
  ultimately show ?thesis
    using c fr out same nl p(3,4) st2(2) unfolding sub_ready_def Let_def
    by (auto simp: isNode_def)
qed

lemma subTable_new:
  assumes spec: "map_spec k rec N" and inv: "pt_inv (Suc k) st t F A" and i: "i < 512"
    and nn: "\<not> isNode (pt_mem st t i)" and N: "1 + N \<le> card F"
    and leaf: "isValid (pt_mem st t i) \<and> isLeaf (pt_mem st t i) \<Longrightarrow> pv mod big (Suc k) = po \<and> po + pn \<le> big (Suc k)"
  shows "\<exists>sub st' F'. subTable_of rec t i pv po pn st = Some (sub, st') \<and> sub_ready k t i pv pn st F A N sub st' F'"
proof -
  note D = pt_invD[OF inv]
  let ?e = "pt_mem st t i"
  have ok: "pte_ok (Suc k) ?e" using D(4) i by simp
  have "F \<noteq> {}" using N by auto
  then obtain p st1 where p: "createPTNode st = Some (p, st1)" "p \<in> F" "p \<notin> A"
    "frames_inv (pt_pm st1) (F - {p}) (insert p A)" "pt_mem st1 = (pt_mem st)(p := (\<lambda>_. 0))"
    using createPTNode_Some[OF D(1)] by blast
  have tp: "t \<noteq> p" and pl: "p < 2 ^ 44" using p(2,3) D by auto
  then have e1: "pt_mem st1 t i = ?e" using p(5) by simp
  have Ap: "A \<union> (F - (F - {p})) = insert p A" using p(2) by auto
  have cF: "card F = Suc (card (F - {p}))" using p(2) D(2) by (metis card_Suc_Diff1)
  show ?thesis
  proof (cases "isValid ?e \<and> isLeaf ?e")
    case False
    have "pt_inv k st1 p (F - {p}) (A \<union> (F - (F - {p})))" unfolding Ap
      using p D empty_table[of "pt_mem st1" p k] by (auto simp: pt_inv_def)
    then have "sub_ready k t i pv pn st F A N p (set_entry t i (\<lambda>e. set_ppn (setValid e) p) st1) (F - {p})"
      using False ok e1 p tp nn cF D(6-7) pl empty_table[of "pt_mem st1" p k]
      by (intro sub_ready_new) (auto simp: pte_ok_def isNode_def)
    moreover have "subTable_of rec t i pv po pn st = Some (p, set_entry t i (\<lambda>e. set_ppn (setValid e) p) st1)"
      using p(1) e1 False nn by (auto simp: subTable_of_def Let_def isNode_def)
    ultimately show ?thesis by blast
  next
    case True
    let ?st1 = "set_entry t i setPTNode st1"
    have m1: "pt_mem ?st1 p = (\<lambda>_. 0)" using p(5) tp by simp
    note z = empty_table[of "pt_mem ?st1" p k, OF m1]
    have inv1: "pt_inv k ?st1 p (F - {p}) (insert p A)"
      using p D z by (auto simp: pt_inv_def)
    have pre: "map_pre k p pv (pte_ppn ?e + po) pn (pte_perm ?e) ?st1"
      using leaf[OF True] ok True z(3)[of pv] perm_ok_leaf[of ?e]
      by (auto simp: map_pre_def pte_ok_def intro: nosplit_unmapped)
    have "N \<le> card (F - {p})" using N cF by simp
    from map_specD[OF spec inv1 this pre] obtain st2 F2 where
      r: "rec p pv (pte_ppn ?e + po) pn (pte_perm ?e) ?st1 = Some st2" "map_post k p ?st1 (F - {p}) (insert p A) N st2 F2"
      and w: "\<And>v. walk k (pt_mem st2) p v =
           (if in_range k pv pn v then mapped_to k pv (pte_ppn ?e + po) (pte_perm ?e) v else walk k (pt_mem ?st1) p v)" by blast
    have A2: "insert p A \<union> (F - {p} - F2) = A \<union> (F - F2)" "p \<notin> F2" "F2 \<subseteq> F"
      using r(2) p(2) by (auto simp: map_post_def)
    have post: "pt_inv k st2 p F2 (A \<union> (F - F2))" "card F \<le> card F2 + (1 + N)"
      "pt_frames k (pt_mem st2) p \<subseteq> F - F2" "\<And>f. f \<notin> F - F2 \<Longrightarrow> pt_mem st2 f = pt_mem ?st1 f"
    proof -
      note P = r(2)[unfolded map_post_def z(2)]
      show "pt_inv k st2 p F2 (A \<union> (F - F2))" using P A2(1) by simp
      show "card F \<le> card F2 + (1 + N)" using P cF by simp
      show "pt_frames k (pt_mem st2) p \<subseteq> F - F2" using P p(2) A2(2) by blast
      show "pt_mem st2 f = pt_mem ?st1 f" if "f \<notin> F - F2" for f
      proof -
        have "f \<notin> {p} \<union> (F - {p} - F2)" using that p(2) A2(2) by blast
        with P show ?thesis by blast
      qed
    qed
    have tF: "t \<notin> F - F2" using D(8) by blast
    have "sub_ready k t i pv pn st F A N p (set_entry t i (\<lambda>e. set_ppn (setValid e) p) st2) F2"
    proof (rule sub_ready_new[OF tp nn D(7,6) p(2) A2(2,3) pl post(1,2,3)])
      show "pt_mem st2 f = pt_mem st f" if "f \<noteq> t" "f \<notin> F - F2" for f
        using post(4)[OF that(2)] that p(2,5) A2(2) by auto
      show "pt_mem st2 t j = pt_mem st t j" if "j \<noteq> i" for j
        using post(4)[OF tF] that p(5) tp by simp
      show "\<not> isLeaf (pt_mem st2 t i)" using post(4)[OF tF] by simp
      show "walk k (pt_mem st2) p v = (if isValid ?e \<and> isLeaf ?e \<and> in_range k pv pn v
              then Some (pte_ppn ?e + v mod big (Suc k), pte_perm ?e) else None)" for v
        using w[of v] leaf[OF True] True z(3) by (auto simp: mapped_to_def in_range_def perm_flags)
    qed
    moreover have "subTable_of rec t i pv po pn st = Some (p, set_entry t i (\<lambda>e. set_ppn (setValid e) p) st2)"
      using p(1) e1 True r(1) by (auto simp: subTable_of_def Let_def)
    ultimately show ?thesis by blast
  qed
qed


lemma sub_ready_step:
  assumes inv: "pt_inv (Suc k) st t F A" and i: "i < 512"
    and rd: "sub_ready k t i pv pn st F A N sub st1 F1"
    and post: "map_post k sub st1 F1 (A \<union> (F - F1)) N st2 F2"
  shows "map_post (Suc k) t st F A (1 + 2 * N) st2 F2"
    and "walk (Suc k) (pt_mem st2) t v =
      (if idx (Suc k) v = i then walk k (pt_mem st2) sub v else walk (Suc k) (pt_mem st) t v)"
proof -
  note D = pt_invD[OF inv]
  let ?m = "pt_mem st" and ?m1 = "pt_mem st1" and ?m2 = "pt_mem st2"
  let ?X = "sub_frames (Suc k) ?m (?m t i) \<union> (F - F2)"
  have r: "F1 \<subseteq> F" "card F \<le> card F1 + (1 + N)" "pt_frames k ?m1 sub \<subseteq> sub_frames (Suc k) ?m (?m t i) \<union> (F - F1)"
    "\<And>f. f \<noteq> t \<Longrightarrow> f \<notin> F - F1 \<Longrightarrow> ?m1 f = ?m f" "\<And>j. j \<noteq> i \<Longrightarrow> ?m1 t j = ?m t j"
    "isNode (?m1 t i)" "pte_ppn (?m1 t i) = sub" using rd unfolding sub_ready_def Let_def by blast+
  have p: "pt_inv k st2 sub F2 (A \<union> (F - F1) \<union> (F1 - F2))" "F2 \<subseteq> F1" "card F1 \<le> card F2 + N"
    "pt_frames k ?m2 sub \<subseteq> pt_frames k ?m1 sub \<union> (F1 - F2)"
    "\<And>f. f \<notin> pt_frames k ?m1 sub \<union> (F1 - F2) \<Longrightarrow> ?m2 f = ?m1 f" using post unfolding map_post_def by blast+
  have A2: "A \<union> (F - F1) \<union> (F1 - F2) = A \<union> (F - F2)" using r(1) p(2) by blast
  have tX: "t \<notin> ?X" using D(4,8) i unfolding pt_wf_eq[of "Suc k"] by blast
  have frX: "pt_frames k ?m1 sub \<union> (F1 - F2) \<subseteq> ?X" using r(1,3) p(2) by blast
  have m2t: "?m2 t = ?m1 t" using p(5) tX frX by blast
  have out: "?m2 f = ?m f" if "f \<noteq> t" "f \<notin> ?X" for f
    using p(5)[of f] r(4)[of f] that frX p(2) r(1) by (metis DiffD1 DiffD2 DiffI UnCI subsetD)
  have dis: "sub_frames (Suc k) ?m (?m t j) \<inter> ?X = {}" if "j < 512" "j \<noteq> i" for j
    using D(4,5,6) that i unfolding pt_wf_eq[of "Suc k"] pt_frames_eq[of "Suc k"] by blast
  have new: "pte_ok (Suc k) (?m2 t i)" "sub_wf (Suc k) ?m2 (?m2 t i)" "sub_frames (Suc k) ?m2 (?m2 t i) \<subseteq> ?X"
  proof -
    have "sub_frames (Suc k) ?m2 (?m2 t i) = pt_frames k ?m2 sub" using r(6,7) m2t by (simp add: sub_frames_def)
    then show "sub_frames (Suc k) ?m2 (?m2 t i) \<subseteq> ?X" using p(4) frX by blast
  qed (use r(6,7) p(1) m2t in \<open>auto simp: pte_ok_def isNode_def sub_wf_def pt_inv_def\<close>)
  have same: "?m2 t j = ?m t j" if "j \<noteq> i" for j using r(5) m2t that by simp
  note eu = entry_update[OF D(4) i out same tX dis new]
  show "map_post (Suc k) t st F A (1 + 2 * N) st2 F2" unfolding map_post_def
  proof (intro conjI)
    have fr: "pt_frames (Suc k) ?m2 t \<subseteq> pt_frames (Suc k) ?m t \<union> (F - F2)"
      using eu(2) i unfolding pt_frames_eq[of "Suc k" ?m t] by blast
    then show "pt_inv (Suc k) st2 t F2 (A \<union> (F - F2))"
      using p(1) eu(1) D(5) unfolding pt_inv_def A2 by blast
    show "pt_frames (Suc k) ?m2 t \<subseteq> pt_frames (Suc k) ?m t \<union> (F - F2)" using fr .
    show "\<forall>f. f \<notin> pt_frames (Suc k) ?m t \<union> (F - F2) \<longrightarrow> ?m2 f = ?m f"
      using out i pt_frames_self[of t "Suc k" ?m] unfolding pt_frames_eq[of "Suc k" ?m t] by blast
  qed (use r p in auto)
  show "walk (Suc k) ?m2 t v = (if idx (Suc k) v = i then walk k ?m2 sub v else walk (Suc k) ?m t v)"
    using eu(3)[of v] r(6,7) m2t by (simp add: sub_walk_def ewalk_def isNode_def)
qed

lemma sub_step:
  assumes spec: "map_spec k rec N" and inv: "pt_inv (Suc k) st t F A" and i: "i = idx (Suc k) vpn"
    and N: "1 + 2 * N \<le> card F" and rg: "vpn mod big (Suc k) + n \<le> big (Suc k)" "ppn + n \<le> 2 ^ 44" "perm_ok perm"
    and leaf: "isValid (pt_mem st t i) \<and> isLeaf (pt_mem st t i) \<Longrightarrow>
        pv mod big (Suc k) = po \<and> po + pn \<le> big (Suc k) \<and>
        (\<forall>x < big (Suc k). po \<le> x \<and> x < po + pn \<or> vpn mod big (Suc k) \<le> x \<and> x < vpn mod big (Suc k) + n) \<and>
        (vpn mod big (Suc k) = 0 \<or> \<not> (po \<le> vpn mod big (Suc k) \<and> vpn mod big (Suc k) < po + pn))"
    and node: "isNode (pt_mem st t i) \<Longrightarrow> nosplit k (pt_mem st) (pte_ppn (pt_mem st t i)) vpn n"
  shows "\<exists>sub st1 st' F'. subTable_of rec t i pv po pn st = Some (sub, st1) \<and> rec sub vpn ppn n perm st1 = Some st' \<and>
     map_post (Suc k) t st F A (1 + 2 * N) st' F' \<and>
     (\<forall>v. walk (Suc k) (pt_mem st') t v = (if idx (Suc k) v = i \<and> in_range k vpn n v
        then mapped_to k vpn ppn perm v else walk (Suc k) (pt_mem st) t v))"
proof -
  let ?e = "pt_mem st t i"
  have i512: "i < 512" using i by simp
  have "\<exists>sub st1 F1. subTable_of rec t i pv po pn st = Some (sub, st1) \<and> sub_ready k t i pv pn st F A N sub st1 F1 \<and>
    nosplit k (pt_mem st1) sub vpn n"
  proof (cases "isNode ?e")
    case True
    then show ?thesis using subTable_node[OF inv i512 True] node by blast
  next
    case False
    then obtain sub st1 F1 where s: "subTable_of rec t i pv po pn st = Some (sub, st1)"
      "sub_ready k t i pv pn st F A N sub st1 F1"
      using subTable_new[OF spec inv i512 False] leaf N by (metis add_leD1 mult_2 add.assoc)
    have "nosplit k (pt_mem st1) sub vpn n"
    proof (cases "vpn mod big (Suc k) = 0")
      case True
      then show ?thesis using mod_big_Suc_mod[of vpn k] by (intro nosplit_aligned) simp
    next
      case F: False
      have "walk k (pt_mem st1) sub vpn = None"
        using s(2) leaf F False unfolding sub_ready_def Let_def
        by (auto simp: in_range_def ewalk_def isNode_def)
      then show ?thesis by (rule nosplit_unmapped)
    qed
    with s show ?thesis by blast
  qed
  then obtain sub st1 F1 where s: "subTable_of rec t i pv po pn st = Some (sub, st1)"
    and rd: "sub_ready k t i pv pn st F A N sub st1 F1" and ns: "nosplit k (pt_mem st1) sub vpn n" by blast
  from rd have i1: "pt_inv k st1 sub F1 (A \<union> (F - F1))" and c1: "card F \<le> card F1 + (1 + N)"
    unfolding sub_ready_def Let_def by blast+
  have "N \<le> card F1" using c1 N by linarith
  moreover have "map_pre k sub vpn ppn n perm st1" using rg ns by (simp add: map_pre_def)
  ultimately obtain st2 F2 where r: "rec sub vpn ppn n perm st1 = Some st2" "map_post k sub st1 F1 (A \<union> (F - F1)) N st2 F2"
    and w: "\<And>v. walk k (pt_mem st2) sub v =
       (if in_range k vpn n v then mapped_to k vpn ppn perm v else walk k (pt_mem st1) sub v)"
    using map_specD[OF spec i1] by blast
  note st = sub_ready_step[OF inv i512 rd r(2)]
  have "walk (Suc k) (pt_mem st2) t v = (if idx (Suc k) v = i \<and> in_range k vpn n v
        then mapped_to k vpn ppn perm v else walk (Suc k) (pt_mem st) t v)" for v
  proof (cases "idx (Suc k) v = i \<and> \<not> in_range k vpn n v")
    case True
    have "in_range k pv pn v" if l: "isValid ?e \<and> isLeaf ?e"
    proof -
      let ?x = "v mod big (Suc k)"
      have "?x < big (Suc k)" by simp
      with leaf[OF l] have "pv mod big (Suc k) = po"
        "po \<le> ?x \<and> ?x < po + pn \<or> vpn mod big (Suc k) \<le> ?x \<and> ?x < vpn mod big (Suc k) + n" by blast+
      then show ?thesis using True by (auto simp: in_range_def)
    qed
    then have "walk k (pt_mem st1) sub v = ewalk (walk k (pt_mem st)) (Suc k) ?e v"
      using rd unfolding sub_ready_def Let_def by auto
    then show ?thesis using True st(2)[of v] w[of v] by auto
  qed (use st(2) w in auto)
  then show ?thesis using s r(1) st(1) by blast
qed


lemma map_post_trans:
  assumes a: "map_post l t st F A N1 st1 F1" and b: "map_post l t st1 F1 (A \<union> (F - F1)) N2 st2 F2"
  shows "map_post l t st F A (N1 + N2) st2 F2"
proof -
  have "A \<union> (F - F1) \<union> (F1 - F2) = A \<union> (F - F2)" using a b unfolding map_post_def by blast
  then have "pt_inv l st2 t F2 (A \<union> (F - F2))" using b unfolding map_post_def by simp
  moreover have "F2 \<subseteq> F" "card F \<le> card F2 + (N1 + N2)" using a b unfolding map_post_def by auto
  moreover have fr: "pt_frames l (pt_mem st1) t \<subseteq> pt_frames l (pt_mem st) t \<union> (F - F1)" "F2 \<subseteq> F1" "F1 \<subseteq> F"
    "pt_frames l (pt_mem st2) t \<subseteq> pt_frames l (pt_mem st1) t \<union> (F1 - F2)"
    using a b unfolding map_post_def by blast+
  then have "pt_frames l (pt_mem st2) t \<subseteq> pt_frames l (pt_mem st) t \<union> (F - F2)" by blast
  moreover have "pt_mem st2 f = pt_mem st f" if "f \<notin> pt_frames l (pt_mem st) t \<union> (F - F2)" for f
  proof -
    have "f \<notin> pt_frames l (pt_mem st1) t \<union> (F1 - F2)" "f \<notin> pt_frames l (pt_mem st) t \<union> (F - F1)"
      using that fr by blast+
    then show ?thesis using a b unfolding map_post_def by metis
  qed
  ultimately show ?thesis unfolding map_post_def by blast
qed

lemma map_post_refl: "pt_inv l st t F A \<Longrightarrow> map_post l t st F A 0 st F"
  by (simp add: map_post_def)

lemma set_leaf_ok:
  assumes inv: "pt_inv l st t F A" and i: "i < 512" and e: "pte_ok l e" "\<not> isNode e"
  defines "st' \<equiv> set_entry t i (\<lambda>_. e) st"
  shows "map_post l t st F A 0 st' F"
    and "walk l (pt_mem st') t v = (if idx l v = i then ewalk (\<lambda>_ _. None) l e v else walk l (pt_mem st) t v)"
    and "pt_frames l (pt_mem st) t \<subseteq> pt_frames l (pt_mem st') t \<union> sub_frames l (pt_mem st) (pt_mem st t i)"
proof -
  note D = pt_invD[OF inv]
  have m: "pt_mem st' t i = e" by (simp add: st'_def)
  have new: "pte_ok l (pt_mem st' t i)" "sub_wf l (pt_mem st') (pt_mem st' t i)" "sub_frames l (pt_mem st') (pt_mem st' t i) \<subseteq> {}"
    unfolding m using e by (auto simp: sub_wf_def sub_frames_def split: nat.splits)
  note eu = entry_update[OF D(4) i, of "{}" "pt_mem st'", OF _ _ _ _ new]
  have wf: "pt_wf l (pt_mem st') t" "pt_frames l (pt_mem st') t \<subseteq> pt_frames l (pt_mem st) t"
    using eu(1,2) by (auto simp: st'_def)
  show "pt_frames l (pt_mem st) t \<subseteq> pt_frames l (pt_mem st') t \<union> sub_frames l (pt_mem st) (pt_mem st t i)"
    using eu(5) by (auto simp: st'_def)
  have "pt_inv l st' t F A" using D wf by (auto simp: pt_inv_def st'_def)
  then show "map_post l t st F A 0 st' F" using wf by (auto simp: map_post_def st'_def)
  have "ewalk (sub_walk l (pt_mem st')) l e v = ewalk (\<lambda>_ _. None) l e v"
    using e(2) by (auto simp: ewalk_def isNode_def)
  then show "walk l (pt_mem st') t v = (if idx l v = i then ewalk (\<lambda>_ _. None) l e v else walk l (pt_mem st) t v)"
    using eu(3)[of v] m by (simp add: st'_def)
qed

definition whole_walk :: "nat \<Rightarrow> nat \<Rightarrow> nat \<Rightarrow> perm_t \<Rightarrow> nat \<Rightarrow> (nat \<times> perm_t) option" where
  "whole_walk l i ppn perm v =
     (if bit perm 0 then Some (ppn + (idx l v - i) * big l + v mod big l, perm) else None)"

lemma map_whole_ok:
  "\<lbrakk>pt_inv l st t F A; i + n \<le> 512; ppn + n * big l \<le> 2 ^ 44; perm_ok perm\<rbrakk> \<Longrightarrow>
   \<exists>st'. map_whole n (big l) t i ppn perm st = Some st' \<and> map_post l t st F A 0 st' F \<and>
     (\<forall>v. walk l (pt_mem st') t v =
        (if i \<le> idx l v \<and> idx l v < i + n then whole_walk l i ppn perm v else walk l (pt_mem st) t v))"
proof (induction n arbitrary: i ppn st)
  case 0
  then show ?case by (auto simp: map_post_refl)
next
  case (Suc n)
  define e where "e = set_ppn (set_perm (setValid (pt_mem st t i)) perm) ppn"
  let ?st1 = "set_entry t i (\<lambda>e. set_ppn (set_perm (setValid e) perm) ppn) st"
  have "ppn + big l \<le> 2 ^ 44" using Suc.prems(3) by simp
  then have ppn: "ppn < 2 ^ 44" "ppn + big l \<le> 2 ^ 44" using big_pos[of l] by linarith+
  have s1: "?st1 = set_entry t i (\<lambda>_. e) st" by (simp add: set_entry_def e_def)
  have e: "pte_ok l e" "\<not> isNode e" "pte_ppn e = ppn" "pte_perm e = perm" "isValid e = bit perm 0" "isLeaf e = bit perm 0"
    using Suc.prems(4) ppn by (auto simp: e_def pte_ok_def isNode_def perm_ok_def)
  have i: "i < 512" using Suc.prems(2) by simp
  note sl = set_leaf_ok[OF Suc.prems(1) i e(1,2), folded s1]
  have inv1: "pt_inv l ?st1 t F A" using sl(1) by (simp add: map_post_def)
  have pre: "i + 1 + n \<le> 512" "ppn + big l + n * big l \<le> 2 ^ 44" using Suc.prems by (simp_all add: algebra_simps)
  obtain st' where st': "map_whole n (big l) t (i + 1) (ppn + big l) perm ?st1 = Some st'" "map_post l t ?st1 F A 0 st' F"
    and w: "\<And>v. walk l (pt_mem st') t v = (if i + 1 \<le> idx l v \<and> idx l v < i + 1 + n
      then whole_walk l (i + 1) (ppn + big l) perm v else walk l (pt_mem ?st1) t v)"
    using Suc.IH[OF inv1 pre Suc.prems(4)] by blast
  have "map_post l t st F A 0 st' F" using map_post_trans[OF sl(1), of 0 st' F] st'(2) by simp
  moreover have "walk l (pt_mem st') t v =
      (if i \<le> idx l v \<and> idx l v < i + Suc n then whole_walk l i ppn perm v else walk l (pt_mem st) t v)" for v
  proof -
    consider "idx l v = i" | k where "idx l v = i + Suc k" | "idx l v < i" by (metis less_imp_Suc_add linorder_neqE_nat add_Suc_right)
    then show ?thesis
    proof cases
      case 1
      then show ?thesis using w[of v] sl(2)[of v] e by (simp add: ewalk_def whole_walk_def)
    next
      case (2 k)
      then show ?thesis using w[of v] sl(2)[of v] by (auto simp: whole_walk_def algebra_simps)
    next
      case 3
      then show ?thesis using w[of v] sl(2)[of v] by simp
    qed
  qed
  ultimately show ?case using st'(1) i by (simp add: pageEntriesPerPage_def pageSize_def)
qed


text \<open>One stretch of a mapping: from \<open>st\<close> to \<open>st'\<close> exactly the \<open>n\<close> pages at \<open>vpn\<close> were mapped.\<close>

definition seg :: "nat \<Rightarrow> nat \<Rightarrow> PTState \<Rightarrow> nat set \<Rightarrow> nat set \<Rightarrow> nat \<Rightarrow> PTState \<Rightarrow> nat set \<Rightarrow>
    nat \<Rightarrow> nat \<Rightarrow> nat \<Rightarrow> perm_t \<Rightarrow> bool" where
  "seg l t st F A N st' F' vpn ppn n perm \<longleftrightarrow> map_post l t st F A N st' F' \<and>
     (\<forall>v. walk l (pt_mem st') t v =
        (if in_range l vpn n v then mapped_to l vpn ppn perm v else walk l (pt_mem st) t v))"

lemma seg_refl: "pt_inv l st t F A \<Longrightarrow> seg l t st F A 0 st F vpn ppn 0 perm"
  by (auto simp: seg_def map_post_refl in_range_def)

lemma mod_add_less: "\<lbrakk>a mod w + n < w\<rbrakk> \<Longrightarrow> (a + n) mod w = a mod w + (n::nat)"
  by (metis mod_add_left_eq mod_less)

lemma seg_trans:
  assumes a: "seg l t st F A N1 st1 F1 vpn ppn n1 perm"
    and b: "seg l t st1 F1 (A \<union> (F - F1)) N2 st2 F2 (vpn + n1) (ppn + n1) n2 perm"
    and w: "vpn mod big (Suc l) + n1 + n2 \<le> big (Suc l)"
  shows "seg l t st F A (N1 + N2) st2 F2 vpn ppn (n1 + n2) perm"
proof -
  have "n2 = 0 \<or> (vpn + n1) mod big (Suc l) = vpn mod big (Suc l) + n1"
    using w by (cases "n2 = 0") (auto intro!: mod_add_less)
  then have "walk l (pt_mem st2) t v = (if in_range l vpn (n1 + n2) v then mapped_to l vpn ppn perm v
     else walk l (pt_mem st) t v)" for v
    using a b unfolding seg_def by (auto simp: in_range_def mapped_to_def)
  then show ?thesis using a b map_post_trans unfolding seg_def by blast
qed

lemma range_sub:
  assumes "vpn mod big (Suc k) + p \<le> big (Suc k)"
  shows "idx (Suc k) v = idx (Suc k) vpn \<and> in_range k vpn p v \<longleftrightarrow> in_range (Suc k) vpn p v"
    and "idx (Suc k) v = idx (Suc k) vpn \<Longrightarrow> in_range k vpn p v \<Longrightarrow>
      mapped_to k vpn ppn perm v = mapped_to (Suc k) vpn ppn perm v"
proof -
  let ?B = "big (Suc k)" and ?i = "idx (Suc k) vpn" and ?j = "idx (Suc k) v"
  have e: "vpn mod big (Suc (Suc k)) = ?i * ?B + vpn mod ?B" "v mod big (Suc (Suc k)) = ?j * ?B + v mod ?B"
    by (simp_all add: idx_mod)
  have lt: "vpn mod ?B < ?B" "v mod ?B < ?B" by simp_all
  have "?j = ?i" if "in_range (Suc k) vpn p v"
  proof (rule ccontr)
    assume "?j \<noteq> ?i"
    then consider "?j + 1 \<le> ?i" | "?i + 1 \<le> ?j" by linarith
    then show False
    proof cases
      case 1
      then have "(?j + 1) * ?B \<le> ?i * ?B" by (rule mult_le_mono1)
      then show False using that e lt by (simp add: in_range_def)
    next
      case 2
      then have "(?i + 1) * ?B \<le> ?j * ?B" by (rule mult_le_mono1)
      then show False using that e lt assms by (simp add: in_range_def)
    qed
  qed
  then show "?j = ?i \<and> in_range k vpn p v \<longleftrightarrow> in_range (Suc k) vpn p v"
    using e by (auto simp: in_range_def)
  show "?j = ?i \<Longrightarrow> in_range k vpn p v \<Longrightarrow> mapped_to k vpn ppn perm v = mapped_to (Suc k) vpn ppn perm v"
    using e by (simp add: mapped_to_def)
qed

lemma range_whole:
  assumes "vpn mod big l = 0" "vpn mod big (Suc l) + q * big l \<le> big (Suc l)" "0 < q"
  shows "idx l vpn + q \<le> 512"
    and "idx l vpn \<le> idx l v \<and> idx l v < idx l vpn + q \<longleftrightarrow> in_range l vpn (q * big l) v"
    and "idx l vpn \<le> idx l v \<Longrightarrow> whole_walk l (idx l vpn) ppn perm v = mapped_to l vpn ppn perm v"
proof -
  let ?i = "idx l vpn" and ?j = "idx l v"
  have e: "vpn mod big (Suc l) = ?i * big l" "v mod big (Suc l) = ?j * big l + v mod big l"
    using assms(1) by (simp_all add: idx_mod)
  have lt: "v mod big l < big l" by simp
  have j1: "(?j + 1) * big l = ?j * big l + big l" "(?i + q) * big l = ?i * big l + q * big l"
    by (simp_all add: algebra_simps)
  have "(?i + q) * big l \<le> 512 * big l" using assms(2) e(1) by (simp add: big_Suc algebra_simps)
  then show "?i + q \<le> 512" by (simp only: mult_le_cancel2) simp
  have le: "?i * big l \<le> ?j * big l + v mod big l \<longleftrightarrow> ?i \<le> ?j"
  proof
    assume "?i * big l \<le> ?j * big l + v mod big l"
    then have "?i * big l < (?j + 1) * big l" using lt j1 by linarith
    then show "?i \<le> ?j" by (simp only: mult_less_cancel2) simp
  next
    assume "?i \<le> ?j"
    then show "?i * big l \<le> ?j * big l + v mod big l" using mult_le_mono1[of ?i ?j "big l"] by linarith
  qed
  have less: "?j * big l + v mod big l < ?i * big l + q * big l \<longleftrightarrow> ?j < ?i + q"
  proof
    assume "?j * big l + v mod big l < ?i * big l + q * big l"
    then have "?j * big l < (?i + q) * big l" using j1 by linarith
    then show "?j < ?i + q" by (simp only: mult_less_cancel2)
  next
    assume "?j < ?i + q"
    then have "(?j + 1) * big l \<le> (?i + q) * big l" by (intro mult_le_mono1) simp
    then show "?j * big l + v mod big l < ?i * big l + q * big l" using lt j1 by linarith
  qed
  show "?i \<le> ?j \<and> ?j < ?i + q \<longleftrightarrow> in_range l vpn (q * big l) v"
    unfolding in_range_def e using le less by simp
  assume "?i \<le> ?j"
  then have "?i * big l \<le> ?j * big l" by (rule mult_le_mono1)
  then have "ppn + (?j - ?i) * big l + v mod big l = ppn + (?j * big l + v mod big l - ?i * big l)"
    unfolding diff_mult_distrib by linarith
  then show "whole_walk l ?i ppn perm v = mapped_to l vpn ppn perm v"
    by (simp add: whole_walk_def mapped_to_def e)
qed


text \<open>The three stretches of \<open>createMapping\<close>.\<close>

lemma seg_sub:
  assumes spec: "map_spec k rec N" and inv: "pt_inv (Suc k) st t F A"
    and N: "1 + 2 * N \<le> card F" and rg: "vpn mod big (Suc k) + n \<le> big (Suc k)" "ppn + n \<le> 2 ^ 44" "perm_ok perm"
    and leaf: "isValid (pt_mem st t (idx (Suc k) vpn)) \<and> isLeaf (pt_mem st t (idx (Suc k) vpn)) \<Longrightarrow>
        pv mod big (Suc k) = po \<and> po + pn \<le> big (Suc k) \<and>
        (\<forall>x < big (Suc k). po \<le> x \<and> x < po + pn \<or> vpn mod big (Suc k) \<le> x \<and> x < vpn mod big (Suc k) + n) \<and>
        (vpn mod big (Suc k) = 0 \<or> \<not> (po \<le> vpn mod big (Suc k) \<and> vpn mod big (Suc k) < po + pn))"
    and node: "isNode (pt_mem st t (idx (Suc k) vpn)) \<Longrightarrow>
        nosplit k (pt_mem st) (pte_ppn (pt_mem st t (idx (Suc k) vpn))) vpn n"
  shows "\<exists>sub st1 st' F'. subTable_of rec t (idx (Suc k) vpn) pv po pn st = Some (sub, st1) \<and>
     rec sub vpn ppn n perm st1 = Some st' \<and> seg (Suc k) t st F A (1 + 2 * N) st' F' vpn ppn n perm"
proof -
  have "(if idx (Suc k) v = idx (Suc k) vpn \<and> in_range k vpn n v then mapped_to k vpn ppn perm v else w) =
    (if in_range (Suc k) vpn n v then mapped_to (Suc k) vpn ppn perm v else w)" for v w
    using range_sub[OF rg(1)] by auto
  then show ?thesis using sub_step[OF spec inv refl N rg leaf node] unfolding seg_def by simp
qed

lemma seg_whole:
  assumes "pt_inv l st t F A" "q = 0 \<or> vpn mod big l = 0" "vpn mod big (Suc l) + q * big l \<le> big (Suc l)"
    "ppn + q * big l \<le> 2 ^ 44" "perm_ok perm"
  shows "\<exists>st'. map_whole q (big l) t (idx l vpn) ppn perm st = Some st' \<and> seg l t st F A 0 st' F vpn ppn (q * big l) perm"
proof (cases "q = 0")
  case False
  then have q: "0 < q" "vpn mod big l = 0" using assms(2) by auto
  note rw = range_whole[OF q(2) assms(3) q(1)]
  show ?thesis using map_whole_ok[OF assms(1) rw(1) assms(4,5)] rw(2,3) unfolding seg_def by (metis (no_types, lifting))
qed (use seg_refl[OF assms(1)] in simp)

lemma seg_head:
  assumes spec: "map_spec k rec N" and inv: "pt_inv (Suc k) st t F A" and N: "1 + 2 * N \<le> card F"
    and pre: "map_pre (Suc k) t vpn ppn n perm st" and u: "vpn mod big (Suc k) \<noteq> 0"
  defines "p \<equiv> min (big (Suc k) - vpn mod big (Suc k)) n"
  shows "\<exists>sub st1 st' F'. subTable_of rec t (idx (Suc k) vpn) (vpn - vpn mod big (Suc k)) 0 (vpn mod big (Suc k)) st = Some (sub, st1) \<and>
     rec sub vpn ppn p perm st1 = Some st' \<and> seg (Suc k) t st F A (1 + 2 * N) st' F' vpn ppn p perm"
proof (rule seg_sub[OF spec inv N])
  let ?B = "big (Suc k)" and ?u = "vpn mod big (Suc k)"
  have lt: "?u < ?B" by simp
  show "?u + p \<le> ?B" using lt unfolding p_def by linarith
  show "ppn + p \<le> 2 ^ 44" "perm_ok perm" using pre unfolding map_pre_def p_def by auto
  show "(vpn - ?u) mod ?B = 0 \<and> 0 + ?u \<le> ?B \<and> (\<forall>x < ?B. 0 \<le> x \<and> x < 0 + ?u \<or> ?u \<le> x \<and> x < ?u + p) \<and>
      (?u = 0 \<or> \<not> (0 \<le> ?u \<and> ?u < 0 + ?u))"
    if "isValid (pt_mem st t (idx (Suc k) vpn)) \<and> isLeaf (pt_mem st t (idx (Suc k) vpn))"
  proof -
    have "p = ?B - ?u" using pre u that unfolding map_pre_def p_def by (simp add: Let_def)
    then show ?thesis using lt by auto
  qed
  show "nosplit k (pt_mem st) (pte_ppn (pt_mem st t (idx (Suc k) vpn))) vpn p"
    if "isNode (pt_mem st t (idx (Suc k) vpn))"
    using pre u that unfolding map_pre_def p_def by (simp add: Let_def isNode_def)
qed

lemma seg_rest:
  assumes spec: "map_spec k rec N" and inv: "pt_inv (Suc k) st t F A" and N: "1 + 2 * N \<le> card F"
    and n: "vpn mod big (Suc k) = 0" "0 < n" "n < big (Suc k)" "ppn + n \<le> 2 ^ 44" "perm_ok perm"
  shows "\<exists>sub st1 st' F'. subTable_of rec t (idx (Suc k) vpn) (vpn + n) n (big (Suc k) - n) st = Some (sub, st1) \<and>
     rec sub vpn ppn n perm st1 = Some st' \<and> seg (Suc k) t st F A (1 + 2 * N) st' F' vpn ppn n perm"
proof (rule seg_sub[OF spec inv N])
  let ?B = "big (Suc k)"
  have "(vpn + n) mod ?B = n" using mod_add_less[of vpn ?B n] n by simp
  then show "(vpn + n) mod ?B = n \<and> n + (?B - n) \<le> ?B \<and>
      (\<forall>x < ?B. n \<le> x \<and> x < n + (?B - n) \<or> vpn mod ?B \<le> x \<and> x < vpn mod ?B + n) \<and>
      (vpn mod ?B = 0 \<or> \<not> (n \<le> vpn mod ?B \<and> vpn mod ?B < n + (?B - n)))" using n by auto
  show "nosplit k (pt_mem st) (pte_ppn (pt_mem st t (idx (Suc k) vpn))) vpn n"
    using n(1) mod_big_Suc_mod[of vpn k] by (intro nosplit_aligned) simp
qed (use n in auto)


text \<open>Table frames that a call takes at most from the allocator.\<close>

fun new_tables :: "nat \<Rightarrow> nat" where
  "new_tables 0 = 0"
| "new_tables (Suc k) = (1 + 2 * new_tables k) + (1 + 2 * new_tables k)"

lemma createMapping_0: "map_spec 0 (createMapping 0) (new_tables 0)"
  unfolding map_spec_def
proof (intro allI impI)
  fix t vpn ppn n perm st F A
  assume inv: "pt_inv 0 st t F A" and pre: "map_pre 0 t vpn ppn n perm st"
  have "createMapping 0 t vpn ppn n perm st = map_whole n (big 0) t (idx 0 vpn) ppn perm st"
    by (simp add: createMapping_body_def createMapping_tail_def Let_def idx_def)
  then show "\<exists>st' F'. createMapping 0 t vpn ppn n perm st = Some st' \<and> map_post 0 t st F A (new_tables 0) st' F' \<and>
     (\<forall>v. walk 0 (pt_mem st') t v = (if in_range 0 vpn n v then mapped_to 0 vpn ppn perm v else walk 0 (pt_mem st) t v))"
    using seg_whole[OF inv, of n vpn ppn perm] pre unfolding seg_def map_pre_def by auto
qed

lemma seg_weaken: "seg l t st F A N st' F' vpn ppn n perm \<Longrightarrow> N \<le> N' \<Longrightarrow> seg l t st F A N' st' F' vpn ppn n perm"
  by (auto simp: seg_def map_post_def)

lemma tail_ok:
  assumes spec: "map_spec k rec N" and inv: "pt_inv (Suc k) st t F A" and N: "1 + 2 * N \<le> card F"
    and al: "n = 0 \<or> vpn mod big (Suc k) = 0" and rg: "n = 0 \<or> vpn mod big (Suc (Suc k)) + n \<le> big (Suc (Suc k))"
    and pn: "ppn + n \<le> 2 ^ 44" "perm_ok perm"
  shows "\<exists>st' F'. createMapping_tail rec (Suc k) t vpn ppn n perm st = Some st' \<and>
    seg (Suc k) t st F A (1 + 2 * N) st' F' vpn ppn n perm"
proof -
  let ?B = "big (Suc k)" and ?W = "big (Suc (Suc k))"
  define q where "q = n div ?B"
  define r where "r = n - q * ?B"
  have "r = n mod ?B" unfolding r_def q_def by (rule minus_div_mult_eq_mod)
  then have nqr: "n = q * ?B + r" "r < ?B" by (simp_all add: q_def)
  have un: "createMapping_tail rec (Suc k) t vpn ppn n perm st = do {
      st \<leftarrow> map_whole q ?B t (idx (Suc k) vpn) ppn perm st;
      if r \<noteq> 0 then do {
        (sub, st) \<leftarrow> subTable_of rec t (idx (Suc k) (vpn + q * ?B)) (vpn + q * ?B + r) r (?B - r) st;
        rec sub (vpn + q * ?B) (ppn + q * ?B) r perm st
      } else Some st }"
    unfolding createMapping_tail_def Let_def r_def q_def idx_def big_def[symmetric] ..
  have q0: "q = 0 \<or> vpn mod ?B = 0" "vpn mod ?W + q * ?B \<le> ?W" "ppn + q * ?B \<le> 2 ^ 44"
  proof -
    show "q = 0 \<or> vpn mod ?B = 0" using al by (auto simp: q_def)
    have "vpn mod ?W < ?W" by simp
    moreover have "n = 0 \<Longrightarrow> q = 0" by (simp add: q_def)
    moreover have "q * ?B \<le> n" using nqr(1) by linarith
    ultimately show "vpn mod ?W + q * ?B \<le> ?W" using rg by (cases "n = 0") simp_all
    show "ppn + q * ?B \<le> 2 ^ 44" using pn(1) nqr(1) by linarith
  qed
  obtain st1 where w: "map_whole q ?B t (idx (Suc k) vpn) ppn perm st = Some st1"
     "seg (Suc k) t st F A 0 st1 F vpn ppn (q * ?B) perm" using seg_whole[OF inv q0 pn(2)] by blast
  then have inv1: "pt_inv (Suc k) st1 t F A" by (simp add: seg_def map_post_def)
  show ?thesis
  proof (cases "r = 0")
    case True
    then have "n = q * ?B" using nqr(1) by simp
    then have "seg (Suc k) t st F A (1 + 2 * N) st1 F vpn ppn n perm"
      using w(2) seg_weaken[of "Suc k" t st F A 0] by simp
    then show ?thesis using w(1) True unfolding un by auto
  next
    case False
    then have n0: "n \<noteq> 0" using nqr(1) by linarith
    have al2: "(vpn + q * ?B) mod ?B = 0" using al n0 by simp
    have "ppn + q * ?B + r \<le> 2 ^ 44" using pn(1) nqr(1) by simp
    from seg_rest[OF spec inv1 N al2 _ nqr(2) this pn(2)] False obtain sub st2 st' F' where
      s: "subTable_of rec t (idx (Suc k) (vpn + q * ?B)) (vpn + q * ?B + r) r (?B - r) st1 = Some (sub, st2)"
         "rec sub (vpn + q * ?B) (ppn + q * ?B) r perm st2 = Some st'"
      and sg: "seg (Suc k) t st1 F A (1 + 2 * N) st' F' (vpn + q * ?B) (ppn + q * ?B) r perm" by auto
    have "seg (Suc k) t st F A (0 + (1 + 2 * N)) st' F' vpn ppn (q * ?B + r) perm"
    proof (rule seg_trans[OF w(2)])
      show "seg (Suc k) t st1 F (A \<union> (F - F)) (1 + 2 * N) st' F' (vpn + q * ?B) (ppn + q * ?B) r perm" using sg by simp
      have "vpn mod ?W + n \<le> ?W" using rg n0 by blast
      then show "vpn mod ?W + q * ?B + r \<le> ?W" using nqr(1) by linarith
    qed
    then have "seg (Suc k) t st F A (1 + 2 * N) st' F' vpn ppn n perm" using nqr(1) by simp
    then show ?thesis using w(1) s False unfolding un by auto
  qed
qed

lemma body_ok:
  assumes spec: "map_spec k rec N" and inv: "pt_inv (Suc k) st t F A" and N: "(1 + 2 * N) + (1 + 2 * N) \<le> card F"
    and pre: "map_pre (Suc k) t vpn ppn n perm st"
  shows "\<exists>st' F'. createMapping_body rec (Suc k) t vpn ppn n perm st = Some st' \<and>
      seg (Suc k) t st F A ((1 + 2 * N) + (1 + 2 * N)) st' F' vpn ppn n perm"
proof -
  let ?B = "big (Suc k)" and ?W = "big (Suc (Suc k))" and ?u = "vpn mod big (Suc k)"
  let ?p = "min (?B - ?u) n"
  have rg: "vpn mod ?W + n \<le> ?W" "ppn + n \<le> 2 ^ 44" "perm_ok perm" using pre by (auto simp: map_pre_def)
  have N1: "1 + 2 * N \<le> card F" using N by simp
  show ?thesis
  proof (cases "?u = 0")
    case True
    then have "createMapping_body rec (Suc k) t vpn ppn n perm st = createMapping_tail rec (Suc k) t vpn ppn n perm st"
      unfolding createMapping_body_def Let_def big_def[symmetric] by simp
    moreover obtain st' F' where "createMapping_tail rec (Suc k) t vpn ppn n perm st = Some st'"
      "seg (Suc k) t st F A (1 + 2 * N) st' F' vpn ppn n perm"
      using tail_ok[OF spec inv N1 disjI2[OF True] disjI2[OF rg(1)] rg(2,3)] by blast
    moreover from this(2) have "seg (Suc k) t st F A ((1 + 2 * N) + (1 + 2 * N)) st' F' vpn ppn n perm"
      by (rule seg_weaken) simp
    ultimately show ?thesis by (metis (no_types, lifting))
  next
    case False
    have un: "createMapping_body rec (Suc k) t vpn ppn n perm st = do {
         (sub, st) \<leftarrow> subTable_of rec t (idx (Suc k) vpn) (vpn - ?u) 0 ?u st;
         st \<leftarrow> rec sub vpn ppn ?p perm st;
         createMapping_tail rec (Suc k) t (vpn + ?p) (ppn + ?p) (n - ?p) perm st }"
      unfolding createMapping_body_def Let_def big_def[symmetric] idx_def using False by simp
    from seg_head[OF spec inv N1 pre False] obtain sub st1 st2 F2 where
      h: "subTable_of rec t (idx (Suc k) vpn) (vpn - ?u) 0 ?u st = Some (sub, st1)" "rec sub vpn ppn ?p perm st1 = Some st2"
      and sg: "seg (Suc k) t st F A (1 + 2 * N) st2 F2 vpn ppn ?p perm" by blast
    have inv2: "pt_inv (Suc k) st2 t F2 (A \<union> (F - F2))" and c2: "card F \<le> card F2 + (1 + 2 * N)"
      using sg by (auto simp: seg_def map_post_def)
    have lt: "?u < ?B" by simp
    have al: "n - ?p = 0 \<or> (vpn + ?p) mod ?B = 0"
    proof (cases "n \<le> ?B - ?u")
      case False
      then have "?p = ?B - ?u" by simp
      then have "vpn + ?p = vpn - ?u + ?B" using lt mod_less_eq_dividend[of vpn ?B] by linarith
      also have "vpn - ?u = ?B * (vpn div ?B)" by (rule minus_mod_eq_mult_div)
      finally have "vpn + ?p = ?B * (vpn div ?B + 1)" by simp
      then show ?thesis by (metis mod_mult_self1_is_0)
    qed simp
    have rg2: "n - ?p = 0 \<or> (vpn + ?p) mod ?W + (n - ?p) \<le> ?W"
    proof (cases "n - ?p = 0")
      case False
      then have "(vpn + ?p) mod ?W = vpn mod ?W + ?p" using rg(1) by (intro mod_add_less) linarith
      then show ?thesis using rg(1) by linarith
    qed simp
    have pn: "ppn + ?p + (n - ?p) \<le> 2 ^ 44" using rg(2) by simp
    have "1 + 2 * N \<le> card F2" using N c2 by linarith
    from tail_ok[OF spec inv2 this al rg2 pn rg(3)] obtain st' F' where
      t: "createMapping_tail rec (Suc k) t (vpn + ?p) (ppn + ?p) (n - ?p) perm st2 = Some st'"
      "seg (Suc k) t st2 F2 (A \<union> (F - F2)) (1 + 2 * N) st' F' (vpn + ?p) (ppn + ?p) (n - ?p) perm" by blast
    have "seg (Suc k) t st F A ((1 + 2 * N) + (1 + 2 * N)) st' F' vpn ppn (?p + (n - ?p)) perm"
      by (rule seg_trans[OF sg t(2)]) (use rg(1) in simp)
    then show ?thesis using h t(1) unfolding un by auto
  qed
qed

lemma createMapping_spec: "map_spec l (createMapping l) (new_tables l)"
proof (induction l)
  case 0
  show ?case by (rule createMapping_0)
next
  case (Suc k)
  show ?case unfolding map_spec_def
    using body_ok[OF Suc] by (simp add: seg_def)
qed

subsection \<open>The contract of \<open>removeMapping\<close>\<close>

text \<open>No big page is covered only in part: otherwise \<open>removeMapping\<close> fails its assertion.\<close>

definition part_ok :: "(nat \<Rightarrow> nat \<Rightarrow> nat \<Rightarrow> bool) \<Rightarrow> pte \<Rightarrow> nat \<Rightarrow> nat \<Rightarrow> bool" where
  "part_ok f e vpn n \<longleftrightarrow> (isValid e \<longrightarrow> \<not> isLeaf e \<and> f (pte_ppn e) vpn n)"

definition head_pages :: "nat \<Rightarrow> nat \<Rightarrow> nat \<Rightarrow> nat" where
  "head_pages l vpn n = (if vpn mod big l \<noteq> 0 then min (big l - vpn mod big l) n else 0)"

definition rest_pages :: "nat \<Rightarrow> nat \<Rightarrow> nat \<Rightarrow> nat" where
  "rest_pages l vpn n = (n - head_pages l vpn n) mod big l"

primrec nopart :: "nat \<Rightarrow> ptmem \<Rightarrow> nat \<Rightarrow> nat \<Rightarrow> nat \<Rightarrow> bool" where
  "nopart 0 m = (\<lambda>t vpn n. True)"
| "nopart (Suc k) m = (\<lambda>t vpn n.
     (vpn mod big (Suc k) \<noteq> 0 \<longrightarrow> part_ok (nopart k m) (m t (idx (Suc k) vpn)) vpn (head_pages (Suc k) vpn n)) \<and>
     (rest_pages (Suc k) vpn n \<noteq> 0 \<longrightarrow>
        part_ok (nopart k m) (m t (idx (Suc k) (vpn + n - rest_pages (Suc k) vpn n)))
          (vpn + n - rest_pages (Suc k) vpn n) (rest_pages (Suc k) vpn n)))"

lemma nopart_full: "vpn mod big (Suc l) = 0 \<Longrightarrow> nopart l m t vpn (big (Suc l))"
  using mod_big_Suc_mod[of vpn l] by (cases l) (auto simp: big_Suc head_pages_def rest_pages_def)

definition unmap_post :: "nat \<Rightarrow> nat \<Rightarrow> PTState \<Rightarrow> nat set \<Rightarrow> nat set \<Rightarrow> PTState \<Rightarrow> nat set \<Rightarrow> bool" where
  "unmap_post l t st F A st' F' \<longleftrightarrow>
     pt_inv l st' t F' (A - (F' - F)) \<and> F \<subseteq> F' \<and> F' - F \<subseteq> pt_frames l (pt_mem st) t - {t} \<and>
     pt_frames l (pt_mem st') t \<subseteq> pt_frames l (pt_mem st) t \<and>
     pt_frames l (pt_mem st) t - pt_frames l (pt_mem st') t \<subseteq> F' - F \<and>
     (\<forall>f. f \<notin> pt_frames l (pt_mem st) t \<longrightarrow> pt_mem st' f = pt_mem st f)"

text \<open>No table below \<open>t\<close> is empty.\<close>

primrec dense :: "nat \<Rightarrow> ptmem \<Rightarrow> nat \<Rightarrow> bool" where
  "dense 0 m = (\<lambda>t. True)"
| "dense (Suc l) m = (\<lambda>t. \<forall>i<512. isNode (m t i) \<longrightarrow>
     (\<exists>j<512. isValid (m (pte_ppn (m t i)) j)) \<and> dense l m (pte_ppn (m t i)))"

declare dense.simps(2) [simp del]

definition useg :: "nat \<Rightarrow> nat \<Rightarrow> PTState \<Rightarrow> nat set \<Rightarrow> nat set \<Rightarrow> PTState \<Rightarrow> nat set \<Rightarrow> nat \<Rightarrow> nat \<Rightarrow> bool" where
  "useg l t st F A st' F' vpn n \<longleftrightarrow> unmap_post l t st F A st' F' \<and> (dense l (pt_mem st) t \<longrightarrow> dense l (pt_mem st') t) \<and>
     (\<forall>v. walk l (pt_mem st') t v = (if in_range l vpn n v then None else walk l (pt_mem st) t v))"

definition unmap_spec :: "nat \<Rightarrow> unmap_fn \<Rightarrow> bool" where
  "unmap_spec l f \<longleftrightarrow> (\<forall>t vpn n st F A.
     pt_inv l st t F A \<longrightarrow> vpn mod big (Suc l) + n \<le> big (Suc l) \<longrightarrow> nopart l (pt_mem st) t vpn n \<longrightarrow>
     (\<exists>st' F'. f t vpn n st = Some st' \<and> useg l t st F A st' F' vpn n \<and>
        (n = big (Suc l) \<longrightarrow> (\<forall>i<512. \<not> isValid (pt_mem st' t i)))))"

lemma unmap_post_refl: "pt_inv l st t F A \<Longrightarrow> unmap_post l t st F A st F"
  by (simp add: unmap_post_def)

lemma useg_refl: "pt_inv l st t F A \<Longrightarrow> useg l t st F A st F vpn 0"
  by (auto simp: useg_def unmap_post_refl in_range_def)

lemma unmap_post_trans:
  assumes a: "unmap_post l t st F A st1 F1" and b: "unmap_post l t st1 F1 (A - (F1 - F)) st2 F2"
  shows "unmap_post l t st F A st2 F2"
proof -
  have A2: "A - (F1 - F) - (F2 - F1) = A - (F2 - F)" using a b unfolding unmap_post_def by blast
  have fr: "F \<subseteq> F1" "F1 \<subseteq> F2" "F1 - F \<subseteq> pt_frames l (pt_mem st) t - {t}" "F2 - F1 \<subseteq> pt_frames l (pt_mem st1) t - {t}"
    "pt_frames l (pt_mem st1) t \<subseteq> pt_frames l (pt_mem st) t" "pt_frames l (pt_mem st2) t \<subseteq> pt_frames l (pt_mem st1) t"
    "pt_frames l (pt_mem st) t - pt_frames l (pt_mem st1) t \<subseteq> F1 - F" "pt_frames l (pt_mem st1) t - pt_frames l (pt_mem st2) t \<subseteq> F2 - F1"
    using a b unfolding unmap_post_def by blast+
  have "pt_mem st2 f = pt_mem st f" if "f \<notin> pt_frames l (pt_mem st) t" for f
    using a b that fr(5) unfolding unmap_post_def by (metis subsetD)
  moreover have "pt_inv l st2 t F2 (A - (F2 - F))" using b A2 unfolding unmap_post_def by simp
  ultimately show ?thesis using fr unfolding unmap_post_def by blast
qed

lemma useg_trans:
  assumes a: "useg l t st F A st1 F1 vpn n1" and b: "useg l t st1 F1 (A - (F1 - F)) st2 F2 (vpn + n1) n2"
    and w: "vpn mod big (Suc l) + n1 + n2 \<le> big (Suc l)"
  shows "useg l t st F A st2 F2 vpn (n1 + n2)"
proof -
  have "n2 = 0 \<or> (vpn + n1) mod big (Suc l) = vpn mod big (Suc l) + n1"
    using w by (cases "n2 = 0") (auto intro!: mod_add_less)
  then have "walk l (pt_mem st2) t v = (if in_range l vpn (n1 + n2) v then None else walk l (pt_mem st) t v)" for v
    using a b unfolding useg_def by (auto simp: in_range_def)
  then show ?thesis using a b unmap_post_trans unfolding useg_def by blast
qed

lemma set_invalid_ok:
  assumes inv: "pt_inv l st t F A" and i: "i < 512" and nn: "\<not> isNode (pt_mem st t i)"
  shows "unmap_post l t st F A (set_entry t i setInvalid st) F"
    and "walk l (pt_mem (set_entry t i setInvalid st)) t v = (if idx l v = i then None else walk l (pt_mem st) t v)"
proof -
  define e where "e = setInvalid (pt_mem st t i)"
  have s: "set_entry t i setInvalid st = set_entry t i (\<lambda>_. e) st" by (simp add: set_entry_def e_def)
  have e: "pte_ok l e" "\<not> isNode e" "\<not> isValid e" by (auto simp: e_def pte_ok_def isNode_def)
  note sl = set_leaf_ok[OF inv i e(1,2), folded s]
  show "unmap_post l t st F A (set_entry t i setInvalid st) F"
    using sl(1,3) nn unfolding map_post_def unmap_post_def by (auto simp: sub_frames_def split: nat.splits)
  show "walk l (pt_mem (set_entry t i setInvalid st)) t v = (if idx l v = i then None else walk l (pt_mem st) t v)"
    using sl(2)[of v] e(3) by (simp add: ewalk_def)
qed

text \<open>The child of entry \<open>i\<close> was changed by \<open>rec\<close>; then the child is released if it is empty.\<close>

lemma child_step:
  assumes inv: "pt_inv (Suc k) st t F A" and i: "i < 512" and nd: "isNode (pt_mem st t i)"
    and post: "unmap_post k (pte_ppn (pt_mem st t i)) st F A st1 F1"
  shows "unmap_post (Suc k) t st F A st1 F1"
    and "walk (Suc k) (pt_mem st1) t v = (if idx (Suc k) v = i then walk k (pt_mem st1) (pte_ppn (pt_mem st t i)) v
           else walk (Suc k) (pt_mem st) t v)"
    and "pt_mem st1 t = pt_mem st t"
proof -
  note D = pt_invD[OF inv]
  let ?m = "pt_mem st" and ?m1 = "pt_mem st1" and ?c = "pte_ppn (pt_mem st t i)"
  have X: "sub_frames (Suc k) ?m (?m t i) = pt_frames k ?m ?c" using nd by (simp add: sub_frames_def)
  have tX: "t \<notin> pt_frames k ?m ?c" using D(4) i X unfolding pt_wf_eq[of "Suc k"] by metis
  have p: "pt_inv k st1 ?c F1 (A - (F1 - F))" "F \<subseteq> F1" "F1 - F \<subseteq> pt_frames k ?m ?c - {?c}"
    "pt_frames k ?m1 ?c \<subseteq> pt_frames k ?m ?c" "\<And>f. f \<notin> pt_frames k ?m ?c \<Longrightarrow> ?m1 f = ?m f"
    "pt_frames k ?m ?c - pt_frames k ?m1 ?c \<subseteq> F1 - F"
    using post unfolding unmap_post_def by blast+
  show t1: "?m1 t = ?m t" using p(5) tX by blast
  have e1: "sub_frames (Suc k) ?m1 (?m1 t i) = pt_frames k ?m1 ?c" using nd t1 by (simp add: sub_frames_def)
  have dis: "sub_frames (Suc k) ?m (?m t j) \<inter> pt_frames k ?m ?c = {}" if "j < 512" "j \<noteq> i" for j
    using D(4) that i X unfolding pt_wf_eq[of "Suc k"] by metis
  have new: "pte_ok (Suc k) (?m1 t i)" "sub_wf (Suc k) ?m1 (?m1 t i)" "sub_frames (Suc k) ?m1 (?m1 t i) \<subseteq> pt_frames k ?m ?c"
    using D(4) i p(1,4) e1 nd unfolding t1 by (auto simp: sub_wf_def pt_inv_def)
  have same: "?m1 t j = ?m t j" for j using t1 by simp
  note eu = entry_update[OF D(4) i p(5) same tX dis new]
  have cA: "pt_frames k ?m ?c \<subseteq> A" using D(5) X i unfolding pt_frames_eq[of "Suc k"] by blast
  have "pt_frames (Suc k) ?m1 t \<subseteq> A - (F1 - F)"
  proof -
    have "pt_frames k ?m1 ?c \<subseteq> A - (F1 - F)" using p(1) by (simp add: pt_inv_def)
    then show ?thesis using eu(4) D(5) p(3) e1 by blast
  qed
  then have "pt_inv (Suc k) st1 t F1 (A - (F1 - F))" using eu(1) p(1) by (auto simp: pt_inv_def)
  moreover have fr: "pt_frames (Suc k) ?m1 t \<subseteq> pt_frames (Suc k) ?m t" "pt_frames k ?m ?c \<subseteq> pt_frames (Suc k) ?m t"
    using eu(2) X i unfolding pt_frames_eq[of "Suc k" ?m t] by blast+
  moreover have "pt_frames (Suc k) ?m t - pt_frames (Suc k) ?m1 t \<subseteq> F1 - F"
  proof -
    have "pt_frames k ?m1 ?c \<subseteq> pt_frames (Suc k) ?m1 t" using e1 i unfolding pt_frames_eq[of "Suc k" ?m1 t] by blast
    then show ?thesis using eu(5) p(6) X by blast
  qed
  ultimately show "unmap_post (Suc k) t st F A st1 F1"
    using p(2,3,5) tX unfolding unmap_post_def by blast
  show "walk (Suc k) ?m1 t v = (if idx (Suc k) v = i then walk k ?m1 ?c v else walk (Suc k) ?m t v)"
    using eu(3)[of v] nd t1 by (simp add: sub_walk_def ewalk_def isNode_def)
qed


lemma entries_512: "pageEntriesPerPage = 512"
  by (simp add: pageEntriesPerPage_def pageSize_def)

lemma list_ex_upt: "list_ex P [0..<n] \<longleftrightarrow> (\<exists>i<n. P i)"
  by (auto simp: list_ex_iff)

lemma freePTNode_keep: "i < 512 \<Longrightarrow> isValid (pt_mem st c i) \<Longrightarrow> freePTNode c st = Some (False, st)"
  by (auto simp: freePTNode_def entries_512 list_ex_upt)

lemma freePTNode_free:
  assumes "frames_inv (pt_pm st) F A" "c \<in> A" "\<forall>i<512. \<not> isValid (pt_mem st c i)"
  obtains st' where "freePTNode c st = Some (True, st')" "pt_mem st' = pt_mem st"
    "frames_inv (pt_pm st') (insert c F) (A - {c})"
proof -
  from frames.free1_Some[OF assms(1,2)] obtain pm where "free c 0 (pt_pm st) = Some pm" "frames_inv pm (insert c F) (A - {c})"
    by blast
  then show thesis using that[of "st\<lparr>pt_pm := pm\<rparr>"] assms(3)
    by (simp add: freePTNode_def entries_512 list_ex_upt del: upt_rec_numeral)
qed

lemma empty_entries:
  assumes "\<forall>i<512. \<not> isValid (m c i)"
  shows "pt_frames k m c = {c}" "walk k m c v = None"
  using assms by (auto simp: pt_frames_eq walk_eq ewalk_def sub_frames_def isNode_def split: nat.splits)

lemma release_step:
  assumes inv: "pt_inv (Suc k) st t F A" and i: "i < 512" and nd: "isNode (pt_mem st t i)"
    and c: "c = pte_ppn (pt_mem st t i)" and em: "\<forall>j<512. \<not> isValid (pt_mem st c j)"
    and fr: "pt_mem st1 = pt_mem st" "frames_inv (pt_pm st1) (insert c F) (A - {c})"
  shows "unmap_post (Suc k) t st F A (set_entry t i setInvalid st1) (insert c F)"
    and "walk (Suc k) (pt_mem (set_entry t i setInvalid st1)) t v = (if idx (Suc k) v = i then None else walk (Suc k) (pt_mem st) t v)"
proof -
  note D = pt_invD[OF inv]
  let ?m = "pt_mem st" and ?m2 = "pt_mem (set_entry t i setInvalid st1)"
  have X: "sub_frames (Suc k) ?m (?m t i) = {c}" using nd c empty_entries(1)[where m = "pt_mem st" and c = c and k = k, OF em] by (simp add: sub_frames_def)
  have tX: "t \<notin> {c}" using D(4) i X unfolding pt_wf_eq[of "Suc k"] by metis
  have dis: "sub_frames (Suc k) ?m (?m t j) \<inter> {c} = {}" if "j < 512" "j \<noteq> i" for j
    using D(4) that i X unfolding pt_wf_eq[of "Suc k"] by metis
  have new: "pte_ok (Suc k) (?m2 t i)" "sub_wf (Suc k) ?m2 (?m2 t i)" "sub_frames (Suc k) ?m2 (?m2 t i) = {}"
    by (auto simp: pte_ok_def sub_wf_def sub_frames_def isNode_def)
  have out: "?m2 f = ?m f" if "f \<noteq> t" "f \<notin> {c}" for f using that fr(1) by simp
  have same: "?m2 t j = ?m t j" if "j \<noteq> i" for j using that fr(1) by simp
  have "sub_frames (Suc k) ?m2 (?m2 t i) \<subseteq> {c}" using new(3) by simp
  note eu = entry_update[OF D(4) i out same tX dis new(1,2) this]
  have cA: "c \<in> A" "c \<in> pt_frames (Suc k) ?m t" "c \<notin> F"
    using D(5,6) X i unfolding pt_frames_eq[of "Suc k"] by blast+
  have f2: "pt_frames (Suc k) ?m2 t \<subseteq> pt_frames (Suc k) ?m t - {c}" using eu(4) new(3) by blast
  have gone: "pt_frames (Suc k) ?m t \<subseteq> pt_frames (Suc k) ?m2 t \<union> sub_frames (Suc k) ?m (?m t i)" by (rule eu(5))
  have Ad: "A - (insert c F - F) = A - {c}" using cA(3) by blast
  have "pt_inv (Suc k) (set_entry t i setInvalid st1) t (insert c F) (A - (insert c F - F))"
    unfolding Ad pt_inv_def
  proof (intro conjI)
    show "insert c F \<subseteq> {..<2 ^ 44}" using D(3) pte_ppn_less[of "?m t i"] c by auto
    show "pt_wf (Suc k) ?m2 t" by (rule eu(1))
    show "pt_frames (Suc k) ?m2 t \<subseteq> A - {c}" using f2 D(5) by blast
  qed (use fr(2) D(2) in simp_all)
  then show "unmap_post (Suc k) t st F A (set_entry t i setInvalid st1) (insert c F)"
    unfolding unmap_post_def
  proof (intro conjI allI impI)
    show "?m2 f = ?m f" if "f \<notin> pt_frames (Suc k) ?m t" for f
      by (rule out) (use that cA(2) pt_frames_self[of t "Suc k" ?m] in blast)+
    show "pt_frames (Suc k) ?m t - pt_frames (Suc k) ?m2 t \<subseteq> insert c F - F" using gone cA(3) unfolding X by blast
  qed (use f2 cA tX in blast)+
  show "walk (Suc k) ?m2 t v = (if idx (Suc k) v = i then None else walk (Suc k) ?m t v)"
    using eu(3)[of v] by (simp add: ewalk_def)
qed

text \<open>What lies below the other entries of a table is left alone.\<close>

definition kept :: "nat \<Rightarrow> ptmem \<Rightarrow> ptmem \<Rightarrow> nat \<Rightarrow> nat \<Rightarrow> bool" where
  "kept l m m' t j \<longleftrightarrow> m' t j = m t j \<and> (\<forall>f \<in> sub_frames l m (m t j). m' f = m f)"

lemma kept_refl [simp]: "kept l m m t j"
  by (simp add: kept_def)

lemma kept_trans: "kept l m m1 t j \<Longrightarrow> kept l m1 m2 t j \<Longrightarrow> kept l m m2 t j"
  unfolding kept_def using sub_cong(1)[of l m "m t j" m1] by simp

lemma keptI:
  assumes "pt_wf l m t" "i < 512" "j < 512" "j \<noteq> i" "m' t j = m t j"
    and "\<And>f. f \<noteq> t \<Longrightarrow> f \<notin> sub_frames l m (m t i) \<Longrightarrow> m' f = m f"
  shows "kept l m m' t j"
  unfolding kept_def
proof (intro conjI ballI)
  fix f
  assume f: "f \<in> sub_frames l m (m t j)"
  have "t \<notin> sub_frames l m (m t j)" "sub_frames l m (m t i) \<inter> sub_frames l m (m t j) = {}"
    using assms(1-4) unfolding pt_wf_eq by auto
  then show "m' f = m f" using f by (intro assms(6)) auto
qed (rule assms(5))

lemma pt_frames_child: "i < 512 \<Longrightarrow> isNode (m t i) \<Longrightarrow> pt_frames k m (pte_ppn (m t i)) \<subseteq> pt_frames (Suc k) m t"
  unfolding pt_frames_eq[of "Suc k"] by (auto simp: sub_frames_def)

lemma nopart_cong: "(\<And>f. f \<in> pt_frames k m c \<Longrightarrow> m' f = m f) \<Longrightarrow> nopart k m c = nopart k m' c"
proof (induction k arbitrary: c)
  case (Suc k)
  have c: "m' c = m c" using Suc.prems pt_frames_self by blast
  have "part_ok (nopart k m) (m c (idx (Suc k) v)) w n = part_ok (nopart k m') (m c (idx (Suc k) v)) w n" for v w n
  proof (cases "isNode (m c (idx (Suc k) v))")
    case True
    then have "nopart k m (pte_ppn (m c (idx (Suc k) v))) = nopart k m' (pte_ppn (m c (idx (Suc k) v)))"
      using Suc.prems pt_frames_child[of "idx (Suc k) v" m c k, OF idx_less True] by (intro Suc.IH) blast
    then show ?thesis by (simp add: part_ok_def)
  qed (auto simp: part_ok_def isNode_def)
  then show ?case by (simp add: c fun_eq_iff)
qed simp

definition dense_sub :: "nat \<Rightarrow> ptmem \<Rightarrow> pte \<Rightarrow> bool" where
  "dense_sub l m e = (case l of 0 \<Rightarrow> True
     | Suc k \<Rightarrow> isNode e \<longrightarrow> (\<exists>j<512. isValid (m (pte_ppn e) j)) \<and> dense k m (pte_ppn e))"

lemma dense_eq: "dense l m t \<longleftrightarrow> (\<forall>i<512. dense_sub l m (m t i))"
  by (cases l) (simp_all add: dense_sub_def dense.simps(2))

lemma dense_cong: "(\<And>f. f \<in> pt_frames l m t \<Longrightarrow> m' f = m f) \<Longrightarrow> dense l m' t = dense l m t"
proof (induction l arbitrary: t)
  case (Suc l)
  have t: "m' t = m t" using Suc.prems pt_frames_self by blast
  have "m' c = m c \<and> dense l m' c = dense l m c" if "i < 512" "isNode (m t i)" "c = pte_ppn (m t i)" for i c
  proof -
    have "m' f = m f" if "f \<in> pt_frames l m c" for f
      using Suc.prems that pt_frames_child[of i m t l, OF \<open>i < 512\<close> \<open>isNode (m t i)\<close>] \<open>c = pte_ppn (m t i)\<close> by blast
    then show ?thesis using Suc.IH[of c] pt_frames_self[of c l m] by blast
  qed
  then show ?case by (simp add: dense.simps(2) t cong: conj_cong)
qed simp

lemma dense_kept:
  assumes "kept l m m' t j"
  shows "dense_sub l m' (m' t j) = dense_sub l m (m t j)"
proof (cases l)
  case (Suc k)
  then show ?thesis
    using assms dense_cong[of k m "pte_ppn (m t j)" m'] pt_frames_self[of "pte_ppn (m t j)" k m]
    by (auto simp: kept_def dense_sub_def sub_frames_def)
qed (simp add: dense_sub_def)

lemma dense_update:
  assumes "\<And>j. j < 512 \<Longrightarrow> \<not> P j \<Longrightarrow> kept l m m' t j" "\<And>j. j < 512 \<Longrightarrow> P j \<Longrightarrow> dense_sub l m' (m' t j)" "dense l m t"
  shows "dense l m' t"
  using assms dense_kept unfolding dense_eq by blast

lemma dense_sub_invalid: "\<not> isValid e \<Longrightarrow> dense_sub l m e"
  by (simp add: dense_sub_def isNode_def split: nat.splits)

lemma part_ok_kept:
  assumes "kept (Suc k) m m' t j" "part_ok (nopart k m) (m t j) vpn n"
  shows "part_ok (nopart k m') (m' t j) vpn n"
  using assms nopart_cong[of k m "pte_ppn (m t j)" m'] unfolding kept_def part_ok_def
  by (auto simp: sub_frames_def isNode_def)

lemma unmap_specD:
  assumes "unmap_spec l f" "pt_inv l st t F A" "vpn mod big (Suc l) + n \<le> big (Suc l)" "nopart l (pt_mem st) t vpn n"
  obtains st' F' where "f t vpn n st = Some st'" "unmap_post l t st F A st' F'"
    "\<And>v. walk l (pt_mem st') t v = (if in_range l vpn n v then None else walk l (pt_mem st) t v)"
    "n = big (Suc l) \<Longrightarrow> \<forall>i<512. \<not> isValid (pt_mem st' t i)" "dense l (pt_mem st) t \<Longrightarrow> dense l (pt_mem st') t"
  using assms unfolding unmap_spec_def useg_def by blast

lemma node_inv:
  assumes "pt_inv (Suc k) st t F A" "i < 512" "isNode (pt_mem st t i)"
  shows "pt_inv k st (pte_ppn (pt_mem st t i)) F A"
proof -
  note D = pt_invD[OF assms(1)]
  have "sub_frames (Suc k) (pt_mem st) (pt_mem st t i) = pt_frames k (pt_mem st) (pte_ppn (pt_mem st t i))"
    using assms(3) by (simp add: sub_frames_def)
  then have "pt_frames k (pt_mem st) (pte_ppn (pt_mem st t i)) \<subseteq> A"
    using D(5) assms(2) unfolding pt_frames_eq[of "Suc k"] by blast
  moreover have "pt_wf k (pt_mem st) (pte_ppn (pt_mem st t i))" using D(4) assms(2,3) by simp
  ultimately show ?thesis using D by (simp add: pt_inv_def)
qed

text \<open>A call on the child and the conditional release, for a node entry.\<close>

lemma child_remove:
  assumes spec: "unmap_spec k rec" and inv: "pt_inv (Suc k) st t F A" and i: "i < 512" and nd: "isNode (pt_mem st t i)"
    and c: "c = pte_ppn (pt_mem st t i)"
    and rg: "vpn mod big (Suc k) + n \<le> big (Suc k)" "nopart k (pt_mem st) c vpn n"
  shows "\<exists>st1 freed st2 F2. rec c vpn n st = Some st1 \<and> pt_mem st1 t = pt_mem st t \<and>
     freePTNode c st1 = Some (freed, st2) \<and> pt_mem st2 t = pt_mem st t \<and> (n = big (Suc k) \<longrightarrow> freed) \<and>
     unmap_post (Suc k) t st F A (if freed then set_entry t i setInvalid st2 else st2) F2 \<and>
     (\<forall>v. walk (Suc k) (pt_mem (if freed then set_entry t i setInvalid st2 else st2)) t v =
        (if idx (Suc k) v = i \<and> in_range k vpn n v then None else walk (Suc k) (pt_mem st) t v)) \<and>
     (\<forall>j<512. j \<noteq> i \<longrightarrow> kept (Suc k) (pt_mem st) (pt_mem (if freed then set_entry t i setInvalid st2 else st2)) t j) \<and>
     (dense (Suc k) (pt_mem st) t \<longrightarrow> dense (Suc k) (pt_mem (if freed then set_entry t i setInvalid st2 else st2)) t)"
proof -
  note ninv = node_inv[OF inv i nd, folded c]
  obtain st1 F1 where r: "rec c vpn n st = Some st1" "unmap_post k c st F A st1 F1"
    and w: "\<And>v. walk k (pt_mem st1) c v = (if in_range k vpn n v then None else walk k (pt_mem st) c v)"
    and full: "n = big (Suc k) \<Longrightarrow> \<forall>i<512. \<not> isValid (pt_mem st1 c i)"
    and dn: "dense k (pt_mem st) c \<Longrightarrow> dense k (pt_mem st1) c" using unmap_specD[OF spec ninv rg] by blast
  note cs = child_step[OF inv i nd r(2)[unfolded c], folded c]
  have w0: "walk (Suc k) (pt_mem st) t v = walk k (pt_mem st) c v" if "idx (Suc k) v = i" for v
    using nd that c by (simp add: ewalk_def isNode_def)
  have inv1: "pt_inv (Suc k) st1 t F1 (A - (F1 - F))" using cs(1) by (simp add: unmap_post_def)
  have nd1: "isNode (pt_mem st1 t i)" "c = pte_ppn (pt_mem st1 t i)" using nd c cs(3) by simp_all
  have "sub_frames (Suc k) (pt_mem st) (pt_mem st t i) = pt_frames k (pt_mem st) c" using nd c by (simp add: sub_frames_def)
  then have kp: "kept (Suc k) (pt_mem st) m t j"
    if "j < 512" "j \<noteq> i" "m t j = pt_mem st t j" "\<And>f. f \<noteq> t \<Longrightarrow> m f = pt_mem st1 f" for m j
    using keptI[of "Suc k" "pt_mem st" t i j m, OF pt_invD(4)[OF inv] i that(1,2,3)] that(4) r(2)
    unfolding unmap_post_def by auto
  show ?thesis
  proof (cases "\<exists>j<512. isValid (pt_mem st1 c j)")
    case True
    then have "freePTNode c st1 = Some (False, st1)" using freePTNode_keep by blast
    moreover have "n \<noteq> big (Suc k)" using True full by blast
    moreover have "walk (Suc k) (pt_mem st1) t v = (if idx (Suc k) v = i \<and> in_range k vpn n v then None
       else walk (Suc k) (pt_mem st) t v)" for v using cs(2)[of v] w[of v] w0[of v] by simp
    moreover have k1: "kept (Suc k) (pt_mem st) (pt_mem st1) t j" if "j < 512" "j \<noteq> i" for j
      by (rule kp[OF that]) (use cs(3) in auto)
    moreover have "dense (Suc k) (pt_mem st1) t" if d: "dense (Suc k) (pt_mem st) t"
    proof (rule dense_update[OF _ _ d, of "\<lambda>j. j = i"])
      have "dense k (pt_mem st) c" using d i nd c by (simp add: dense.simps(2))
      then show "dense_sub (Suc k) (pt_mem st1) (pt_mem st1 t j)" if "j = i" for j
        using that True dn nd1(2) by (simp add: dense_sub_def)
    qed (rule k1)
    ultimately show ?thesis using r(1) cs(1,3)
      by (intro exI[of _ st1] exI[of _ False] exI[of _ F1]) simp
  next
    case False
    then have em: "\<forall>j<512. \<not> isValid (pt_mem st1 c j)" by blast
    have cA: "c \<in> A - (F1 - F)" using r(2) pt_invD(7) unfolding unmap_post_def by blast
    obtain st2 where f: "freePTNode c st1 = Some (True, st2)" "pt_mem st2 = pt_mem st1"
      "frames_inv (pt_pm st2) (insert c F1) (A - (F1 - F) - {c})"
      using freePTNode_free[OF pt_invD(1)[OF inv1] cA em] by blast
    note rs = release_step[OF inv1 i nd1 em f(2,3)]
    have "walk (Suc k) (pt_mem (set_entry t i setInvalid st2)) t v = (if idx (Suc k) v = i \<and> in_range k vpn n v then None
       else walk (Suc k) (pt_mem st) t v)" for v
      using rs(2)[of v] cs(2)[of v] w[of v] w0[of v] empty_entries(2)[where m = "pt_mem st1" and c = c and k = k and v = v, OF em] by auto
    moreover have k2: "kept (Suc k) (pt_mem st) (pt_mem (set_entry t i setInvalid st2)) t j" if "j < 512" "j \<noteq> i" for j
      by (rule kp[OF that]) (use cs(3) f(2) that in auto)
    moreover have "dense (Suc k) (pt_mem (set_entry t i setInvalid st2)) t" if d: "dense (Suc k) (pt_mem st) t"
      by (rule dense_update[OF _ _ d, of "\<lambda>j. j = i"]) (use k2 in \<open>auto intro: dense_sub_invalid\<close>)
    ultimately show ?thesis using r(1) cs(3) f(1,2) unmap_post_trans[OF cs(1) rs(1)]
      by (intro exI[of _ st1] exI[of _ True] exI[of _ st2] exI[of _ "insert c F1"]) simp
  qed
qed


lemma useg_sub:
  assumes spec: "unmap_spec k rec" and inv: "pt_inv (Suc k) st t F A" and rg: "vpn mod big (Suc k) + n \<le> big (Suc k)"
    and pk: "part_ok (nopart k (pt_mem st)) (pt_mem st t (idx (Suc k) vpn)) vpn n"
  shows "\<exists>st' F'. sub_remove rec t (idx (Suc k) vpn) vpn n st = Some st' \<and> useg (Suc k) t st F A st' F' vpn n \<and>
     (\<forall>j<512. j \<noteq> idx (Suc k) vpn \<longrightarrow> kept (Suc k) (pt_mem st) (pt_mem st') t j)"
proof (cases "isValid (pt_mem st t (idx (Suc k) vpn))")
  case False
  have "walk (Suc k) (pt_mem st) t v = None" if "in_range (Suc k) vpn n v" for v
    using False range_sub(1)[OF rg, of v] that by (simp add: ewalk_def)
  then have "useg (Suc k) t st F A st F vpn n"
    using inv by (simp add: useg_def unmap_post_refl)
  then show ?thesis using False by (auto simp: sub_remove_def)
next
  case True
  let ?i = "idx (Suc k) vpn" and ?c = "pte_ppn (pt_mem st t (idx (Suc k) vpn))"
  have nd: "isNode (pt_mem st t ?i)" "nopart k (pt_mem st) ?c vpn n" using pk True by (auto simp: part_ok_def isNode_def)
  obtain st1 freed st2 F2 where
    r: "rec ?c vpn n st = Some st1" "freePTNode ?c st1 = Some (freed, st2)"
    and p: "unmap_post (Suc k) t st F A (if freed then set_entry t ?i setInvalid st2 else st2) F2"
    and w: "\<And>v. walk (Suc k) (pt_mem (if freed then set_entry t ?i setInvalid st2 else st2)) t v =
        (if idx (Suc k) v = ?i \<and> in_range k vpn n v then None else walk (Suc k) (pt_mem st) t v)"
    and kp: "\<forall>j<512. j \<noteq> ?i \<longrightarrow> kept (Suc k) (pt_mem st) (pt_mem (if freed then set_entry t ?i setInvalid st2 else st2)) t j"
    and dn: "dense (Suc k) (pt_mem st) t \<longrightarrow> dense (Suc k) (pt_mem (if freed then set_entry t ?i setInvalid st2 else st2)) t"
    using child_remove[OF spec inv idx_less nd(1) refl rg nd(2)] by blast
  have "sub_remove rec t ?i vpn n st = Some (if freed then set_entry t ?i setInvalid st2 else st2)"
    using r nd(1) by (simp add: sub_remove_def isNode_def Let_def)
  moreover have "useg (Suc k) t st F A (if freed then set_entry t ?i setInvalid st2 else st2) F2 vpn n"
    using p w dn range_sub(1)[OF rg] by (simp add: useg_def)
  ultimately show ?thesis using kp by blast
qed

lemma unmap_entry:
  assumes spec: "\<And>k. l = Suc k \<Longrightarrow> unmap_spec k rec" and inv: "pt_inv l st t F A" and i: "i < 512"
    and al: "vpn mod big l = 0"
  shows "\<exists>st' F'. (if isValid (pt_mem st t i) then
              (if isLeaf (pt_mem st t i) then Some (set_entry t i setInvalid st)
               else do {
                 st \<leftarrow> rec (pte_ppn (pt_mem st t i)) vpn (big l) st;
                 (freed, st) \<leftarrow> freePTNode (pte_ppn (pt_mem st t i)) st;
                 ensure freed;
                 Some (set_entry t i setInvalid st)
               })
            else Some st) = Some st' \<and> unmap_post l t st F A st' F' \<and>
     (\<forall>v. walk l (pt_mem st') t v = (if idx l v = i then None else walk l (pt_mem st) t v)) \<and>
     \<not> isValid (pt_mem st' t i) \<and> (\<forall>j<512. j \<noteq> i \<longrightarrow> kept l (pt_mem st) (pt_mem st') t j)"
proof (cases "isNode (pt_mem st t i)")
  case False
  show ?thesis
  proof (cases "isValid (pt_mem st t i)")
    case True
    have "kept l (pt_mem st) (pt_mem (set_entry t i setInvalid st)) t j" if "j < 512" "j \<noteq> i" for j
      by (rule keptI[of l "pt_mem st" t i j, OF pt_invD(4)[OF inv] i that]) (use that in auto)
    then show ?thesis using True False set_invalid_ok[OF inv i False] by (auto simp: isNode_def)
  next
    case nv: False
    then have "walk l (pt_mem st) t v = None" if "idx l v = i" for v using that by (simp add: walk_eq ewalk_def)
    then show ?thesis using nv unmap_post_refl[OF inv] by auto
  qed
next
  case True
  then obtain k where k: "l = Suc k" using pt_invD(4)[OF inv] i by (cases l) auto
  let ?c = "pte_ppn (pt_mem st t i)"
  have rg: "vpn mod big (Suc k) + big l \<le> big (Suc k)" "nopart k (pt_mem st) ?c vpn (big l)"
    using al nopart_full[of vpn k] k by simp_all
  obtain st1 freed st2 F2 where
    r: "rec ?c vpn (big l) st = Some st1" "pt_mem st1 t = pt_mem st t" "freePTNode ?c st1 = Some (freed, st2)" "pt_mem st2 t = pt_mem st t"
    and f: "big l = big (Suc k) \<longrightarrow> freed"
    and p: "unmap_post l t st F A (if freed then set_entry t i setInvalid st2 else st2) F2"
    and w: "\<And>v. walk l (pt_mem (if freed then set_entry t i setInvalid st2 else st2)) t v =
        (if idx l v = i \<and> in_range k vpn (big l) v then None else walk l (pt_mem st) t v)"
    and kp: "\<forall>j<512. j \<noteq> i \<longrightarrow> kept l (pt_mem st) (pt_mem (if freed then set_entry t i setInvalid st2 else st2)) t j"
    using child_remove[OF spec[OF k] inv[unfolded k] i True refl rg, folded k] by blast
  have fr: freed using f k by simp
  have ir: "in_range k vpn (big l) v" for v using al k by (simp add: in_range_def)
  let ?s = "set_entry t i setInvalid st2"
  have "\<forall>v. walk l (pt_mem ?s) t v = (if idx l v = i then None else walk l (pt_mem st) t v)"
    using w fr ir by (simp del: set_entry_sel)
  moreover have "\<not> isValid (pt_mem ?s t i)" by simp
  moreover have "\<forall>j<512. j \<noteq> i \<longrightarrow> kept l (pt_mem st) (pt_mem ?s) t j" using kp fr by (simp del: set_entry_sel)
  moreover have "unmap_post l t st F A ?s F2" using p fr by simp
  ultimately show ?thesis using r fr True by (intro exI[of _ ?s] exI[of _ F2]) (simp add: isNode_def del: set_entry_sel)
qed


lemma unmap_whole_ok:
  assumes spec: "\<And>k. l = Suc k \<Longrightarrow> unmap_spec k rec"
  shows "\<lbrakk>pt_inv l st t F A; i + q \<le> 512; vpn mod big l = 0\<rbrakk> \<Longrightarrow>
   \<exists>st' F'. unmap_whole rec q (big l) t i vpn st = Some st' \<and> unmap_post l t st F A st' F' \<and>
     (\<forall>v. walk l (pt_mem st') t v = (if i \<le> idx l v \<and> idx l v < i + q then None else walk l (pt_mem st) t v)) \<and>
     (\<forall>j. i \<le> j \<longrightarrow> j < i + q \<longrightarrow> \<not> isValid (pt_mem st' t j)) \<and>
     (\<forall>j<512. \<not> (i \<le> j \<and> j < i + q) \<longrightarrow> kept l (pt_mem st) (pt_mem st') t j)"
proof (induction q arbitrary: i vpn st F A)
  case 0
  then show ?case using unmap_post_refl[OF 0(1)] by auto
next
  case (Suc q)
  have i: "i < 512" using Suc.prems(2) by simp
  from unmap_entry[OF spec Suc.prems(1) i Suc.prems(3)] obtain st1 F1 where
    e: "(if isValid (pt_mem st t i) then
              (if isLeaf (pt_mem st t i) then Some (set_entry t i setInvalid st)
               else do {
                 st \<leftarrow> rec (pte_ppn (pt_mem st t i)) vpn (big l) st;
                 (freed, st) \<leftarrow> freePTNode (pte_ppn (pt_mem st t i)) st;
                 ensure freed;
                 Some (set_entry t i setInvalid st)
               })
            else Some st) = Some st1" "unmap_post l t st F A st1 F1"
    and w: "\<And>v. walk l (pt_mem st1) t v = (if idx l v = i then None else walk l (pt_mem st) t v)"
    and ni: "\<not> isValid (pt_mem st1 t i)" and oth: "\<And>j. j < 512 \<Longrightarrow> j \<noteq> i \<Longrightarrow> kept l (pt_mem st) (pt_mem st1) t j" by blast
  have inv1: "pt_inv l st1 t F1 (A - (F1 - F))" using e(2) by (simp add: unmap_post_def)
  have "i + 1 + q \<le> 512" "(vpn + big l) mod big l = 0" using Suc.prems(2,3) by simp_all
  from Suc.IH[OF inv1 this] obtain st' F' where
    r: "unmap_whole rec q (big l) t (i + 1) (vpn + big l) st1 = Some st'" "unmap_post l t st1 F1 (A - (F1 - F)) st' F'"
    and w': "\<And>v. walk l (pt_mem st') t v = (if i + 1 \<le> idx l v \<and> idx l v < i + 1 + q then None else walk l (pt_mem st1) t v)"
    and ni': "\<And>j. i + 1 \<le> j \<Longrightarrow> j < i + 1 + q \<Longrightarrow> \<not> isValid (pt_mem st' t j)"
    and oth': "\<And>j. j < 512 \<Longrightarrow> \<not> (i + 1 \<le> j \<and> j < i + 1 + q) \<Longrightarrow> kept l (pt_mem st1) (pt_mem st') t j" by blast
  have "unmap_whole rec (Suc q) (big l) t i vpn st = Some st'"
    using e(1) r(1) i by (simp add: entries_512 Let_def)
  moreover have "walk l (pt_mem st') t v = (if i \<le> idx l v \<and> idx l v < i + Suc q then None else walk l (pt_mem st) t v)" for v
    using w'[of v] w[of v] by (cases "idx l v = i") auto
  moreover have "\<not> isValid (pt_mem st' t j)" if "i \<le> j" "j < i + Suc q" for j
    using ni'[of j] oth'[of j] ni that i by (cases "j = i") (auto simp: kept_def)
  moreover have "kept l (pt_mem st) (pt_mem st') t j" if "j < 512" "\<not> (i \<le> j \<and> j < i + Suc q)" for j
    using kept_trans[OF oth[of j] oth'[of j]] that by auto
  ultimately show ?case using unmap_post_trans[OF e(2) r(2)] by blast
qed

lemma useg_whole:
  assumes spec: "\<And>k. l = Suc k \<Longrightarrow> unmap_spec k rec" and inv: "pt_inv l st t F A"
    and al: "q = 0 \<or> vpn mod big l = 0" and rg: "vpn mod big (Suc l) + q * big l \<le> big (Suc l)"
  shows "\<exists>st' F'. unmap_whole rec q (big l) t (idx l vpn) vpn st = Some st' \<and> useg l t st F A st' F' vpn (q * big l) \<and>
     (q = 512 \<longrightarrow> (\<forall>i<512. \<not> isValid (pt_mem st' t i))) \<and>
     (\<forall>j<512. \<not> (idx l vpn \<le> j \<and> j < idx l vpn + q) \<longrightarrow> kept l (pt_mem st) (pt_mem st') t j)"
proof (cases "q = 0")
  case False
  then have q: "0 < q" "vpn mod big l = 0" using al by auto
  note rw = range_whole[OF q(2) rg q(1)]
  from unmap_whole_ok[OF spec inv rw(1) q(2)] obtain st' F' where
    u: "unmap_whole rec q (big l) t (idx l vpn) vpn st = Some st'" "unmap_post l t st F A st' F'"
    "\<And>v. walk l (pt_mem st') t v = (if idx l vpn \<le> idx l v \<and> idx l v < idx l vpn + q then None else walk l (pt_mem st) t v)"
    "\<And>j. idx l vpn \<le> j \<Longrightarrow> j < idx l vpn + q \<Longrightarrow> \<not> isValid (pt_mem st' t j)"
    "\<forall>j<512. \<not> (idx l vpn \<le> j \<and> j < idx l vpn + q) \<longrightarrow> kept l (pt_mem st) (pt_mem st') t j" by blast
  have "dense l (pt_mem st') t" if d: "dense l (pt_mem st) t"
    by (rule dense_update[OF _ _ d, of "\<lambda>j. idx l vpn \<le> j \<and> j < idx l vpn + q"]) (use u(4,5) in \<open>auto intro: dense_sub_invalid\<close>)
  then have "useg l t st F A st' F' vpn (q * big l)" using u(2,3) rw(2) by (simp add: useg_def)
  moreover have "\<forall>i<512. \<not> isValid (pt_mem st' t i)" if "q = 512" using u(4) rw(1) that by simp
  ultimately show ?thesis using u(1,5) by blast
qed (use useg_refl[OF inv, of vpn] in auto)


lemma idx_add:
  assumes "vpn mod big l = 0" "vpn mod big (Suc l) + q * big l < big (Suc l)"
  shows "idx l (vpn + q * big l) = idx l vpn + q"
proof -
  have a: "(vpn + q * big l) mod big (Suc l) = vpn mod big (Suc l) + q * big l"
    using assms(2) by (rule mod_add_less)
  have b: "(vpn + q * big l) mod big l = 0" using assms(1) by simp
  have "idx l (vpn + q * big l) * big l = (idx l vpn + q) * big l"
    using a idx_mod[of "vpn + q * big l" l] idx_mod[of vpn l] b assms(1) by (simp add: algebra_simps)
  moreover have "big l \<noteq> 0" by simp
  ultimately show ?thesis by (simp only: mult_cancel2 simp_thms)
qed

lemma utail_ok:
  assumes spec: "unmap_spec k rec" and inv: "pt_inv (Suc k) st t F A"
    and al: "n = 0 \<or> vpn mod big (Suc k) = 0" and rg: "n = 0 \<or> vpn mod big (Suc (Suc k)) + n \<le> big (Suc (Suc k))"
    and pk: "n mod big (Suc k) \<noteq> 0 \<Longrightarrow> part_ok (nopart k (pt_mem st)) (pt_mem st t (idx (Suc k) (vpn + n - n mod big (Suc k))))
        (vpn + n - n mod big (Suc k)) (n mod big (Suc k))"
  shows "\<exists>st' F'. removeMapping_tail rec (Suc k) t vpn n st = Some st' \<and> useg (Suc k) t st F A st' F' vpn n \<and>
    (n = big (Suc (Suc k)) \<longrightarrow> (\<forall>i<512. \<not> isValid (pt_mem st' t i)))"
proof -
  let ?B = "big (Suc k)" and ?W = "big (Suc (Suc k))"
  define q where "q = n div ?B"
  define r where "r = n - q * ?B"
  have rm: "r = n mod ?B" unfolding r_def q_def by (rule minus_div_mult_eq_mod)
  then have nqr: "n = q * ?B + r" "r < ?B" by (simp_all add: q_def)
  have un: "removeMapping_tail rec (Suc k) t vpn n st = do {
      st \<leftarrow> unmap_whole rec q ?B t (idx (Suc k) vpn) vpn st;
      if r \<noteq> 0 then sub_remove rec t (idx (Suc k) (vpn + q * ?B)) (vpn + q * ?B) r st else Some st }"
    unfolding removeMapping_tail_def Let_def r_def q_def idx_def big_def[symmetric] ..
  have qn: "q * ?B \<le> n" using nqr(1) by linarith
  have q0: "q = 0 \<or> vpn mod ?B = 0" using al by (auto simp: q_def)
  have "vpn mod ?W < ?W" "n = 0 \<Longrightarrow> q = 0" by (simp_all add: q_def)
  then have rg0: "vpn mod ?W + q * ?B \<le> ?W" using rg qn by (cases "n = 0") simp_all
  have sp: "Suc k = Suc k' \<Longrightarrow> unmap_spec k' rec" for k' using spec by simp
  from useg_whole[OF sp inv q0 rg0] obtain st1 F1 where
    w: "unmap_whole rec q ?B t (idx (Suc k) vpn) vpn st = Some st1" "useg (Suc k) t st F A st1 F1 vpn (q * ?B)"
    "q = 512 \<longrightarrow> (\<forall>i<512. \<not> isValid (pt_mem st1 t i))"
    "\<forall>j<512. \<not> (idx (Suc k) vpn \<le> j \<and> j < idx (Suc k) vpn + q) \<longrightarrow> kept (Suc k) (pt_mem st) (pt_mem st1) t j" by blast
  have inv1: "pt_inv (Suc k) st1 t F1 (A - (F1 - F))" using w(2) by (simp add: useg_def unmap_post_def)
  have full: "r = 0 \<and> q = 512" if "n = ?W"
  proof -
    have W: "?W = 512 * ?B" by (rule big_Suc)
    have "r = 0" unfolding rm that W by simp
    moreover have "q = 512" unfolding q_def that W by (rule nonzero_mult_div_cancel_right) simp
    ultimately show ?thesis by blast
  qed
  show ?thesis
  proof (cases "r = 0")
    case True
    then have "n = q * ?B" using nqr(1) by simp
    then show ?thesis using w True full unfolding un by auto
  next
    case False
    then have n0: "n \<noteq> 0" using nqr(1) by linarith
    let ?w = "vpn + q * ?B"
    have W: "vpn mod ?W + n \<le> ?W" "vpn mod ?B = 0" using rg al n0 by auto
    have "vpn mod ?W + q * ?B < ?W" using W(1) nqr(1) False by linarith
    from idx_add[OF W(2) this] have jx: "idx (Suc k) ?w = idx (Suc k) vpn + q" .
    have we: "vpn + n - n mod ?B = ?w" using nqr(1) rm by linarith
    have "part_ok (nopart k (pt_mem st)) (pt_mem st t (idx (Suc k) ?w)) ?w r" using pk False unfolding we rm by blast
    moreover have "kept (Suc k) (pt_mem st) (pt_mem st1) t (idx (Suc k) ?w)" using w(4) jx idx_less[of "Suc k" ?w] by simp
    ultimately have pk1: "part_ok (nopart k (pt_mem st1)) (pt_mem st1 t (idx (Suc k) ?w)) ?w r" by (rule part_ok_kept[rotated])
    have "?w mod ?B + r \<le> ?B" using W(2) nqr(2) by simp
    from useg_sub[OF spec inv1 this pk1] obtain st' F' where
      s: "sub_remove rec t (idx (Suc k) ?w) ?w r st1 = Some st'" "useg (Suc k) t st1 F1 (A - (F1 - F)) st' F' ?w r" by blast
    have "useg (Suc k) t st F A st' F' vpn (q * ?B + r)"
      by (rule useg_trans[OF w(2) s(2)]) (use W(1) nqr(1) in linarith)
    then have "useg (Suc k) t st F A st' F' vpn n" using nqr(1) by simp
    then show ?thesis using w(1) s(1) False full unfolding un by auto
  qed
qed

lemma ubody_ok:
  assumes spec: "unmap_spec k rec" and inv: "pt_inv (Suc k) st t F A"
    and rg: "vpn mod big (Suc (Suc k)) + n \<le> big (Suc (Suc k))" and np: "nopart (Suc k) (pt_mem st) t vpn n"
  shows "\<exists>st' F'. removeMapping_body rec (Suc k) t vpn n st = Some st' \<and> useg (Suc k) t st F A st' F' vpn n \<and>
     (n = big (Suc (Suc k)) \<longrightarrow> (\<forall>i<512. \<not> isValid (pt_mem st' t i)))"
proof -
  let ?B = "big (Suc k)" and ?W = "big (Suc (Suc k))" and ?u = "vpn mod big (Suc k)"
  let ?p = "min (?B - ?u) n"
  show ?thesis
  proof (cases "?u = 0")
    case True
    then have "removeMapping_body rec (Suc k) t vpn n st = removeMapping_tail rec (Suc k) t vpn n st"
      unfolding removeMapping_body_def Let_def big_def[symmetric] by simp
    moreover have "part_ok (nopart k (pt_mem st)) (pt_mem st t (idx (Suc k) (vpn + n - n mod ?B))) (vpn + n - n mod ?B) (n mod ?B)"
      if "n mod ?B \<noteq> 0" using np True that by (simp add: rest_pages_def head_pages_def)
    ultimately show ?thesis using utail_ok[OF spec inv disjI2[OF True] disjI2[OF rg]] by simp
  next
    case False
    have un: "removeMapping_body rec (Suc k) t vpn n st = do {
         st \<leftarrow> sub_remove rec t (idx (Suc k) vpn) vpn ?p st;
         removeMapping_tail rec (Suc k) t (vpn + ?p) (n - ?p) st }"
      unfolding removeMapping_body_def Let_def big_def[symmetric] idx_def using False by simp
    have lt: "?u < ?B" by simp
    have hp: "head_pages (Suc k) vpn n = ?p" using False by (simp add: head_pages_def)
    have "?u + ?p \<le> ?B" using lt by linarith
    moreover have "part_ok (nopart k (pt_mem st)) (pt_mem st t (idx (Suc k) vpn)) vpn ?p" using np False hp by simp
    ultimately obtain st1 F1 where h: "sub_remove rec t (idx (Suc k) vpn) vpn ?p st = Some st1"
      and sg: "useg (Suc k) t st F A st1 F1 vpn ?p"
      and kp: "\<forall>j<512. j \<noteq> idx (Suc k) vpn \<longrightarrow> kept (Suc k) (pt_mem st) (pt_mem st1) t j" using useg_sub[OF spec inv] by blast
    have inv1: "pt_inv (Suc k) st1 t F1 (A - (F1 - F))" using sg by (simp add: useg_def unmap_post_def)
    have al: "n - ?p = 0 \<or> (vpn + ?p) mod ?B = 0"
    proof (cases "n \<le> ?B - ?u")
      case False
      then have "?p = ?B - ?u" by simp
      then have "vpn + ?p = vpn - ?u + ?B" using lt mod_less_eq_dividend[of vpn ?B] by linarith
      also have "vpn - ?u = ?B * (vpn div ?B)" by (rule minus_mod_eq_mult_div)
      finally have "vpn + ?p = ?B * (vpn div ?B + 1)" by simp
      then show ?thesis by (metis mod_mult_self1_is_0)
    qed simp
    have md: "(vpn + ?p) mod ?W = vpn mod ?W + ?p" if "n - ?p \<noteq> 0" using rg that by (intro mod_add_less) linarith
    then have rg2: "n - ?p = 0 \<or> (vpn + ?p) mod ?W + (n - ?p) \<le> ?W" using rg by linarith
    let ?r = "(n - ?p) mod ?B" and ?w = "vpn + ?p + (n - ?p) - (n - ?p) mod ?B"
    have pk: "part_ok (nopart k (pt_mem st1)) (pt_mem st1 t (idx (Suc k) ?w)) ?w ?r" if r: "?r \<noteq> 0"
    proof -
      have n0: "n - ?p \<noteq> 0" using r by (metis mod_0)
      then have al': "(vpn + ?p) mod ?B = 0" using al by (simp only: simp_thms)
      define q where "q = (n - ?p) div ?B"
      have nq: "n - ?p = q * ?B + ?r" unfolding q_def by simp
      have we: "?w = vpn + ?p + q * ?B" using nq by linarith
      have "(vpn + ?p) mod ?W + q * ?B < ?W" using rg2 n0 nq r by linarith
      from idx_add[OF al' this] have j: "idx (Suc k) ?w = idx (Suc k) (vpn + ?p) + q" unfolding we .
      have "idx (Suc k) vpn < idx (Suc k) (vpn + ?p)"
      proof -
        have "idx (Suc k) vpn * ?B + ?u + ?p = idx (Suc k) (vpn + ?p) * ?B"
          using md[OF n0] idx_mod[of vpn "Suc k"] idx_mod[of "vpn + ?p" "Suc k"] al' by simp
        moreover have "0 < ?u + ?p" using False by simp
        ultimately have "idx (Suc k) vpn * ?B < idx (Suc k) (vpn + ?p) * ?B" by linarith
        then show ?thesis by (simp only: mult_less_cancel2)
      qed
      then have "idx (Suc k) ?w \<noteq> idx (Suc k) vpn" using j by linarith
      then have "kept (Suc k) (pt_mem st) (pt_mem st1) t (idx (Suc k) ?w)" using kp idx_less[of "Suc k" ?w] by blast
      moreover have "vpn + n - rest_pages (Suc k) vpn n = ?w" "rest_pages (Suc k) vpn n = ?r"
        using hp by (simp_all add: rest_pages_def)
      then have "part_ok (nopart k (pt_mem st)) (pt_mem st t (idx (Suc k) ?w)) ?w ?r"
        using np r by (metis nopart.simps(2))
      ultimately show ?thesis by (rule part_ok_kept)
    qed
    obtain st' F' where t: "removeMapping_tail rec (Suc k) t (vpn + ?p) (n - ?p) st1 = Some st'"
      "useg (Suc k) t st1 F1 (A - (F1 - F)) st' F' (vpn + ?p) (n - ?p)"
      using utail_ok[OF spec inv1 al rg2 pk] by blast
    have "useg (Suc k) t st F A st' F' vpn (?p + (n - ?p))"
      by (rule useg_trans[OF sg t(2)]) (use rg in simp)
    moreover have "n \<noteq> ?W"
    proof
      assume "n = ?W"
      then have "vpn mod ?W = 0" using rg by simp
      then have "?u = 0" using mod_big_Suc_mod[of vpn "Suc k"] by simp
      with False show False by simp
    qed
    ultimately show ?thesis using h t(1) unfolding un by auto
  qed
qed

lemma removeMapping_spec: "unmap_spec l (removeMapping l)"
proof (induction l)
  case 0
  show ?case unfolding unmap_spec_def
  proof (intro allI impI)
    fix t vpn n st F A
    assume inv: "pt_inv 0 st t F A" and rg: "vpn mod big (Suc 0) + n \<le> big (Suc 0)"
    have e: "removeMapping 0 t vpn n st = unmap_whole (\<lambda>_ _ _ _. None) n (big 0) t (idx 0 vpn) vpn st"
      by (simp add: removeMapping_body_def removeMapping_tail_def Let_def idx_def)
    show "\<exists>st' F'. removeMapping 0 t vpn n st = Some st' \<and> useg 0 t st F A st' F' vpn n \<and>
        (n = big (Suc 0) \<longrightarrow> (\<forall>i<512. \<not> isValid (pt_mem st' t i)))"
      using useg_whole[of 0 "\<lambda>_ _ _ _. None", OF _ inv, of n vpn] rg unfolding e by (auto simp: big_Suc)
  qed
next
  case (Suc k)
  then show ?case using ubody_ok[OF Suc] unfolding unmap_spec_def by simp
qed

end
