(* ===== verification/PageTableProps.thy ===== *)
theory PageTableProps
  imports PageTableSpec
begin

text \<open>
  The properties of the page tables: translation agrees with the hardware walk, mapping and
  unmapping change exactly the range they are given, and what cutting a big page loses.
\<close>

subsection \<open>Translation and walk\<close>

lemma trans_walk_level: "pt_wf l m t \<Longrightarrow> trans l m t v = map_option fst (walk l m t v)"
proof (induction l arbitrary: t)
  case 0
  then show ?case by (subst trans.simps) (auto simp: Let_def ewalk_def idx_def big_def)
next
  case (Suc l)
  let ?e = "m t (idx (Suc l) v)"
  have e: "trans (Suc l) m t v = (ensure (isValid ?e) \<bind>
      (\<lambda>_. if isLeaf ?e then Some (pte_ppn ?e + v mod big (Suc l)) else trans l m (pte_ppn ?e) v))"
    by (subst trans.simps) (simp only: Let_def big_def idx_def nat.case)
  have "isNode ?e \<Longrightarrow> pt_wf l m (pte_ppn ?e)" using Suc.prems idx_less[of "Suc l" v] by simp
  then show ?case using Suc.IH[of "pte_ppn ?e"] unfolding e
    by (cases "isValid ?e"; cases "isLeaf ?e") (simp_all add: ewalk_def isNode_def)
qed

subsection \<open>A concrete table\<close>

lemma odd_not_pow2: "odd n \<Longrightarrow> 1 < n \<Longrightarrow> n \<noteq> (2::nat) ^ k"
  by (cases k) auto

lemma pt_example30:
  "\<exists>st root F A. pt_inv l st root F A \<and> 30 \<le> card F \<and> pt_mem st root = (\<lambda>_. 0) \<and> A \<subseteq> {..< 2 ^ 44}"
proof -
  have "(31::nat) \<noteq> 2 ^ k" for k by (rule odd_not_pow2) simp_all
  moreover have "log2up 31 = 5" by (simp add: log2up_def log2up_loop.simps)
  ultimately obtain pm where pm: "pm_inv pm {1 ..< 1 + 31} (single_pages (1 + 31) (1 + 2 ^ log2up 31))"
    using PageMgr_init_ok[of 1 31 0] by auto
  then have "frames_inv pm {1 ..< 32} {}" by (auto simp: frames_inv_def)
  then obtain p st where p: "createPTNode \<lparr>pt_mem = (\<lambda>_ _. 0), pt_pm = pm\<rparr> = Some (p, st)" "p \<in> {1 ..< 32}"
    "frames_inv (pt_pm st) ({1 ..< 32} - {p}) (insert p {})" "pt_mem st = (\<lambda>_ _. 0)(p := (\<lambda>_. 0))"
    using createPTNode_Some[of "\<lparr>pt_mem = (\<lambda>_ _. 0), pt_pm = pm\<rparr>" "{1 ..< 32}" "{}"] by auto
  have z: "pt_mem st p = (\<lambda>_. 0)" using p(4) by simp
  have "{1 ..< 32} - {p} \<subseteq> {..< 2 ^ 44}" by auto
  then have "pt_inv l st p ({1 ..< 32} - {p}) {p}"
    using p(3) empty_table[of "pt_mem st" p l, OF z] by (auto simp: pt_inv_def)
  moreover have "card ({1 ..< 32} - {p}) = 30" using p(2) by simp
  ultimately show ?thesis using z p(2) by (intro exI[of _ st] exI[of _ p] exI[of _ "{1 ..< 32} - {p}"] exI[of _ "{p}"]) simp
qed

lemma pt_example: "\<exists>st root F A. pt_inv l st root F A \<and> 10 \<le> card F \<and> pt_mem st root = (\<lambda>_. 0)"
proof -
  have "10 \<le> n" if "30 \<le> n" for n :: nat using that by simp
  then show ?thesis using pt_example30[of l] by blast
qed

lemma perm_ok_7: "perm_ok 7"
  by (simp add: perm_ok_def)

lemma nopart_empty: "m t = (\<lambda>_. 0) \<Longrightarrow> nopart l m t vpn n"
  by (cases l) (simp_all add: part_ok_def)

lemma idx_mod_big: "idx l (v mod big (Suc l)) = idx l v"
proof -
  have "v mod big l < big l" by simp
  then have "(idx l v * big l + v mod big l) div big l = idx l v" by simp
  then show ?thesis unfolding idx_mod[of v l] by (simp add: idx_def)
qed

lemma walk_mod: "walk l m t v = walk l m t (v mod big (Suc l))"
proof (induction l arbitrary: t v)
  case 0
  then show ?case using idx_mod_big[of 0 v] by (simp add: ewalk_def)
next
  case (Suc l)
  have "walk l m c (v mod big (Suc (Suc l))) = walk l m c v" for c
    using Suc.IH[of c v] Suc.IH[of c "v mod big (Suc (Suc l))"] by simp
  then show ?case using idx_mod_big[of "Suc l" v] by (simp add: ewalk_def)
qed

text \<open>A table that is not empty maps something, unless a table below it is empty.\<close>

lemma dense_mapped:
  "dense l m t \<Longrightarrow> pt_wf l m t \<Longrightarrow> i < 512 \<Longrightarrow> isValid (m t i) \<Longrightarrow> \<exists>v < big (Suc l). idx l v = i \<and> walk l m t v \<noteq> None"
proof (induction l arbitrary: t i)
  case 0
  then have "idx 0 i = i" "isLeaf (m t i)" by (auto simp: idx_def isNode_def)
  then show ?case using 0 by (intro exI[of _ i]) (simp add: ewalk_def big_Suc)
next
  case (Suc l)
  have b: "i * big (Suc l) + v < big (Suc (Suc l))" "idx (Suc l) (i * big (Suc l) + v) = i" "(i * big (Suc l) + v) mod big (Suc l) = v"
    if "v < big (Suc l)" for v
  proof -
    have "i * big (Suc l) + big (Suc l) \<le> 512 * big (Suc l)" using mult_le_mono1[of "i + 1" 512 "big (Suc l)"] Suc.prems(3) by simp
    then show "i * big (Suc l) + v < big (Suc (Suc l))" using that unfolding big_Suc[of "Suc l"] by linarith
    have "(i * big (Suc l) + v) div big (Suc l) = i" using that by simp
    then show "idx (Suc l) (i * big (Suc l) + v) = i" using Suc.prems(3) by (simp add: idx_def)
    show "(i * big (Suc l) + v) mod big (Suc l) = v" using that by simp
  qed
  show ?case
  proof (cases "isLeaf (m t i)")
    case True
    have z: "i * big (Suc l) < big (Suc (Suc l))" "idx (Suc l) (i * big (Suc l)) = i" using b(1,2)[of 0] by simp_all
    then have "walk (Suc l) m t (i * big (Suc l)) \<noteq> None" using True Suc.prems(4) by (simp add: ewalk_def)
    then show ?thesis using z by blast
  next
    case False
    let ?c = "pte_ppn (m t i)"
    have n: "isNode (m t i)" using False Suc.prems(4) by (simp add: isNode_def)
    then obtain j where j: "j < 512" "isValid (m ?c j)" "dense l m ?c" using Suc.prems(1,3) unfolding dense.simps(2) by blast
    have w: "pt_wf l m ?c" using Suc.prems(2,3) n unfolding pt_wf.simps by blast
    from Suc.IH[OF j(3) w j(1,2)] obtain v where v: "v < big (Suc l)" "walk l m ?c v \<noteq> None" by blast
    have "walk l m ?c (i * big (Suc l) + v) = walk l m ?c v" using walk_mod[of l m ?c "i * big (Suc l) + v"] unfolding b(3)[OF v(1)] .
    then have "walk (Suc l) m t (i * big (Suc l) + v) \<noteq> None" using b(2)[OF v(1)] v(2) n by (simp add: ewalk_def isNode_def)
    then show ?thesis using b(1,2)[OF v(1)] by blast
  qed
qed

lemma dense_nothing_mapped:
  assumes "dense l m t" "pt_wf l m t" "\<And>v. v < big (Suc l) \<Longrightarrow> walk l m t v = None"
  shows "pt_frames l m t = {t}"
proof (rule empty_entries(1), intro allI impI notI)
  fix i :: nat
  assume "i < 512" "isValid (m t i)"
  from dense_mapped[OF assms(1,2) this] show False using assms(3) by auto
qed

text \<open>A root table with one table below it, one table below that and one page mapped in the lowest.\<close>

definition chain :: "nat \<Rightarrow> nat \<Rightarrow> nat \<Rightarrow> ptmem \<Rightarrow> ptmem" where
  "chain r c1 c2 m = m(r := (\<lambda>_. 0)(0 := set_ppn 1 c1), c1 := (\<lambda>_. 0)(1 := set_ppn 1 c2), c2 := (\<lambda>_. 0)(1 := set_ppn (set_perm 0 7) 100))"

lemma pte_0: "\<not> isValid 0" "\<not> isNode 0" "pte_ok l 0" "pte_ok l (set_ppn 1 c)" "isNode (set_ppn 1 c)" "isValid (set_ppn 1 c)" "\<not> isLeaf (set_ppn 1 c)"
  by (auto simp: isValid_def isNode_def pte_ok_def isLeaf_def bit_pte)

lemma pte_leaf: "isValid (set_ppn (set_perm 0 7) 100)" "isLeaf (set_ppn (set_perm 0 7) 100)" "\<not> isNode (set_ppn (set_perm 0 7) 100)"
  "pte_ok 0 (set_ppn (set_perm 0 7) 100)"
  by (simp_all add: isNode_def pte_ok_def)

lemma chain_facts:
  fixes r c1 c2 v :: nat and m :: ptmem
  assumes "distinct [r, c1, c2]" "c1 < 2 ^ 44" "c2 < 2 ^ 44"
  defines "m' \<equiv> chain r c1 c2 m"
  shows "pt_wf 2 m' r" "pt_frames 2 m' r = {r, c1, c2}" "dense 2 m' r"
    "walk 2 m' r v = (if idx 2 v = 0 \<and> idx 1 v = 1 \<and> idx 0 v = 1 then Some (100, 7) else None)"
proof -
  have e: "m' r i = (if i = 0 then set_ppn 1 c1 else 0)" "m' c1 i = (if i = 1 then set_ppn 1 c2 else 0)"
    "m' c2 i = (if i = 1 then set_ppn (set_perm 0 7) 100 else 0)" for i using assms(1) by (auto simp: m'_def chain_def)
  have p: "pte_ppn (set_ppn 1 c1) = c1" "pte_ppn (set_ppn 1 c2) = c2" using assms(2,3) by simp_all
  have ok: "pte_ok (Suc 0) (m' c1 i)" "pte_ok 2 (m' r i)" "pte_ok 0 (m' c2 i)" "\<not> isNode (m' c2 i)" for i
    unfolding e using pte_0 pte_leaf by simp_all
  have w0: "pt_wf 0 m' c2" "pt_frames 0 m' c2 = {c2}" using ok by simp_all
  have s1: "sub_frames (Suc 0) m' (m' c1 i) = (if i = 1 then {c2} else {})" for i unfolding e using pte_0(2,5) p by (simp add: sub_frames_def)
  have f1: "pt_frames (Suc 0) m' c1 = {c1, c2}" unfolding pt_frames_eq[of "Suc 0"] s1 by auto
  have "sub_wf (Suc 0) m' (m' c1 i)" for i unfolding e using pte_0(2) p w0(1) by (simp add: sub_wf_def)
  then have w1: "pt_wf (Suc 0) m' c1" unfolding pt_wf_eq[of "Suc 0"] s1 using ok(1) assms(1) by simp
  have sf: "sub_frames 2 m' (m' r i) = (if i = 0 then {c1, c2} else {})" for i
    unfolding e using pte_0(2,5) p f1 by (simp add: sub_frames_def numeral_2_eq_2)
  show "pt_frames 2 m' r = {r, c1, c2}" unfolding pt_frames_eq[of 2] sf by auto
  have "sub_wf 2 m' (m' r i)" for i unfolding e using pte_0(2) p w1 by (simp add: sub_wf_def numeral_2_eq_2)
  then show "pt_wf 2 m' r" unfolding pt_wf_eq[of 2] sf using ok(2) assms(1) by simp
  have v: "isValid (m' c1 1)" "isValid (m' c2 1)" unfolding e using pte_0(6) pte_leaf(1) by simp_all
  have "dense (Suc 0) m' c1" unfolding dense.simps(2)
  proof (intro allI impI)
    fix i :: nat assume "i < 512" "isNode (m' c1 i)"
    then have "pte_ppn (m' c1 i) = c2" unfolding e using pte_0(2) p by (simp split: if_splits)
    then show "(\<exists>j<512. isValid (m' (pte_ppn (m' c1 i)) j)) \<and> dense 0 m' (pte_ppn (m' c1 i))"
      using v(2) by (intro conjI exI[of _ 1]) simp_all
  qed
  moreover have "pte_ppn (m' r i) = c1" if "isNode (m' r i)" for i using that unfolding e using pte_0(2) p by (simp split: if_splits)
  ultimately show "dense 2 m' r" unfolding numeral_2_eq_2 dense.simps(2)[of "Suc 0"] using v(1)
    by (intro allI impI conjI exI[of _ 1]) simp_all
  show "walk 2 m' r v = (if idx 2 v = 0 \<and> idx 1 v = 1 \<and> idx 0 v = 1 then Some (100, 7) else None)"
  proof -
    have "pte_ppn (set_ppn (set_perm 0 7) 100) = 100" "pte_perm (set_ppn (set_perm 0 7) 100) = 7" by simp_all
    then show ?thesis using pte_0 p pte_leaf by (simp add: numeral_2_eq_2 ewalk_def e)
  qed
qed

lemma idx_513:
  assumes "v < 2 ^ 27"
  shows "idx 2 v = 0 \<and> idx 1 v = 1 \<and> idx 0 v = 1 \<longleftrightarrow> v = 513"
proof
  assume i: "idx 2 v = 0 \<and> idx 1 v = 1 \<and> idx 0 v = 1"
  have "v = v mod big (Suc 2)" using assms by (simp add: big_def)
  also have "\<dots> = v mod big (Suc 1)" using idx_mod[of v 2] i by (simp add: numeral_2_eq_2)
  also have "\<dots> = big 1 + v mod big (Suc 0)" using idx_mod[of v 1] i by simp
  also have "\<dots> = 513" using idx_mod[of v 0] i by (simp add: big_def)
  finally show "v = 513" .
qed (simp add: idx_def big_def)

lemma chain_nopart:
  assumes "distinct [r, c1, c2]" "c1 < 2 ^ 44" "c2 < 2 ^ 44"
  shows "nopart 2 (chain r c1 c2 m) r 513 1"
proof -
  have h: "head_pages (Suc 0) 513 1 = 1" "head_pages (Suc (Suc 0)) 513 1 = 1" "rest_pages (Suc 0) 513 1 = 0" "rest_pages (Suc (Suc 0)) 513 1 = 0"
    "idx (Suc 0) 513 = 1" "idx (Suc (Suc 0)) 513 = 0" by (simp_all add: head_pages_def rest_pages_def big_def idx_def)
  have e: "chain r c1 c2 m r 0 = set_ppn 1 c1" "chain r c1 c2 m c1 1 = set_ppn 1 c2" using assms(1) by (auto simp: chain_def)
  have "pte_ppn (set_ppn 1 c1) = c1" using assms(2) by simp
  then have "part_ok (nopart (Suc 0) (chain r c1 c2 m)) (chain r c1 c2 m r 0) 513 1"
    using pte_0 e h by (simp add: part_ok_def del: One_nat_def)
  then show ?thesis using h by (simp add: numeral_2_eq_2 del: One_nat_def)
qed

lemma pt_example_chain:
  "\<exists>st r c1 c2 F A. pt_inv 2 st r F A \<and> distinct [r, c1, c2] \<and> pt_frames 2 (pt_mem st) r = {r, c1, c2} \<and>
     dense 2 (pt_mem st) r \<and> nopart 2 (pt_mem st) r 513 1 \<and>
     (\<forall>v < 2 ^ 27. walk 2 (pt_mem st) r v = (if v = 513 then Some (100, 7) else None))"
proof -
  obtain st r F A where e: "pt_inv 2 st r F A" "30 \<le> card F" using pt_example30[of 2] by blast
  note D = pt_invD[OF e(1)]
  have "F \<noteq> {}" using e(2) by auto
  then obtain c1 pm1 where c1: "c1 \<in> F" "c1 \<notin> A" "frames_inv pm1 (F - {c1}) (insert c1 A)" using frames.alloc1_Ex[OF D(1)] by metis
  have "card (F - {c1}) \<noteq> 0" using e(2) c1(1) D(2) by simp
  then have "F - {c1} \<noteq> {}" by (metis card.empty)
  then obtain c2 pm2 where c2: "c2 \<in> F - {c1}" "c2 \<notin> insert c1 A" "frames_inv pm2 (F - {c1} - {c2}) (insert c2 (insert c1 A))"
    using frames.alloc1_Ex[OF c1(3)] by metis
  let ?st = "\<lparr>pt_mem = chain r c1 c2 (pt_mem st), pt_pm = pm2\<rparr>"
  have d: "distinct [r, c1, c2]" "c1 < 2 ^ 44" "c2 < 2 ^ 44" using c1 c2 D(3,7) by auto
  note f = chain_facts[OF d, of "pt_mem st"]
  have inv: "pt_inv 2 ?st r (F - {c1} - {c2}) (insert c2 (insert c1 A))" using f(1,2) c2(3) D(2,3,7) by (auto simp: pt_inv_def)
  have "nopart 2 (chain r c1 c2 (pt_mem st)) r 513 1" by (rule chain_nopart[OF d])
  then show ?thesis using inv d f(2,3,4) idx_513 by (intro exI[of _ ?st] exI[of _ r] exI[of _ c1] exI[of _ c2]) auto
qed

subsection \<open>Mapping and unmapping from the root\<close>

lemma trans_window: "pt_wf 2 m root \<Longrightarrow> PageTable_trans m root vpn = map_option fst (walk 2 m root vpn)"
  using trans_walk_level[of 2 m root vpn] by (simp add: PageTable_trans_def)

lemma big_3: "big (Suc 2) = 2 ^ 27"
  by (simp add: big_def)

lemma window_mod: "v < 2 ^ 27 \<Longrightarrow> v mod big (Suc 2) = v"
  unfolding big_3 by simp

lemma createMapping_window_card:
  assumes "pt_inv 2 st root F A" "10 \<le> card F" "vpn + pages \<le> 2 ^ 27" "vpn < 2 ^ 27" "ppn + pages \<le> 2 ^ 44" "perm_ok perm"
    and "nosplit 2 (pt_mem st) root vpn pages"
  shows "\<exists>st' F'. PageTable_createMapping root vpn ppn pages perm st = Some st' \<and>
     pt_inv 2 st' root F' (A \<union> (F - F')) \<and> F' \<subseteq> F \<and> card F \<le> card F' + 10 \<and>
     (\<forall>v < 2 ^ 27. walk 2 (pt_mem st') root v =
        (if vpn \<le> v \<and> v < vpn + pages then (if bit perm 0 then Some (ppn + (v - vpn), perm) else None)
         else walk 2 (pt_mem st) root v))"
proof -
  have N: "new_tables 2 \<le> card F" using assms(2) by (simp add: numeral_2_eq_2)
  have pre: "map_pre 2 root vpn ppn pages perm st"
    using assms window_mod[OF assms(4)] big_3 by (simp add: map_pre_def)
  obtain st' F' where "createMapping 2 root vpn ppn pages perm st = Some st'" "map_post 2 root st F A (new_tables 2) st' F'"
    "\<And>v. walk 2 (pt_mem st') root v =
       (if in_range 2 vpn pages v then mapped_to 2 vpn ppn perm v else walk 2 (pt_mem st) root v)"
    using map_specD[OF createMapping_spec assms(1) N pre] by blast
  moreover have "new_tables 2 = 10" by (simp add: numeral_2_eq_2)
  ultimately show ?thesis using window_mod assms(4)
    by (intro exI[of _ st'] exI[of _ F']) (auto simp: PageTable_createMapping_def map_post_def in_range_def mapped_to_def)
qed

lemma createMapping_window:
  assumes "pt_inv 2 st root F A" "10 \<le> card F" "vpn + pages \<le> 2 ^ 27" "vpn < 2 ^ 27" "ppn + pages \<le> 2 ^ 44" "perm_ok perm"
    and "nosplit 2 (pt_mem st) root vpn pages"
  shows "\<exists>st' F'. PageTable_createMapping root vpn ppn pages perm st = Some st' \<and>
     pt_inv 2 st' root F' (A \<union> (F - F')) \<and> F' \<subseteq> F \<and>
     (\<forall>v < 2 ^ 27. walk 2 (pt_mem st') root v =
        (if vpn \<le> v \<and> v < vpn + pages then (if bit perm 0 then Some (ppn + (v - vpn), perm) else None)
         else walk 2 (pt_mem st) root v))"
  using createMapping_window_card[OF assms] by blast

lemma removeMapping_window:
  assumes "pt_inv 2 st root F A" "vpn + pages \<le> 2 ^ 27" "vpn < 2 ^ 27" "nopart 2 (pt_mem st) root vpn pages"
  shows "\<exists>st' F'. PageTable_removeMapping root vpn pages st = Some st' \<and>
     pt_inv 2 st' root F' (A - (F' - F)) \<and> F \<subseteq> F' \<and>
     F' - F = pt_frames 2 (pt_mem st) root - pt_frames 2 (pt_mem st') root \<and>
     (dense 2 (pt_mem st) root \<longrightarrow> dense 2 (pt_mem st') root) \<and>
     (\<forall>v < 2 ^ 27. walk 2 (pt_mem st') root v =
        (if vpn \<le> v \<and> v < vpn + pages then None else walk 2 (pt_mem st) root v))"
proof -
  have rg: "vpn mod big (Suc 2) + pages \<le> big (Suc 2)" using assms(2) window_mod[OF assms(3)] big_3 by simp
  show ?thesis
  proof (rule unmap_specD[OF removeMapping_spec assms(1) rg assms(4)])
    fix st' F'
    assume "removeMapping 2 root vpn pages st = Some st'" "unmap_post 2 root st F A st' F'"
      "\<And>v. walk 2 (pt_mem st') root v = (if in_range 2 vpn pages v then None else walk 2 (pt_mem st) root v)"
      "dense 2 (pt_mem st) root \<Longrightarrow> dense 2 (pt_mem st') root"
    moreover from this(2) have "F' - F = pt_frames 2 (pt_mem st) root - pt_frames 2 (pt_mem st') root"
      unfolding unmap_post_def pt_inv_def by blast
    ultimately show ?thesis using window_mod assms(3)
      by (intro exI[of _ st'] exI[of _ F']) (auto simp: PageTable_removeMapping_def unmap_post_def in_range_def)
  qed
qed

subsection \<open>Properties\<close>



text \<open>C7: \<open>createMapping\<close> maps every page of the range to its frame with the given permissions, leaves
  the translation of all other pages as it was, keeps the tables a tree of allocated frames, and
  succeeds when ten frames are free.  A big page that is cut must be cut at its end
  (\<open>nosplit\<close>).\<close>

theorem createMapping_correct:
  assumes "pt_inv 2 st root F A" "10 \<le> card F" "vpn + pages \<le> 2 ^ 27" "vpn < 2 ^ 27" "ppn + pages \<le> 2 ^ 44" "perm_ok perm"
    and "nosplit 2 (pt_mem st) root vpn pages"
  shows "\<exists>st' F'. PageTable_createMapping root vpn ppn pages perm st = Some st' \<and>
     pt_inv 2 st' root F' (A \<union> (F - F')) \<and> F' \<subseteq> F \<and>
     (\<forall>v < 2 ^ 27. walk 2 (pt_mem st') root v =
        (if vpn \<le> v \<and> v < vpn + pages then (if bit perm 0 then Some (ppn + (v - vpn), perm) else None)
         else walk 2 (pt_mem st) root v))"
  using assms by (rule createMapping_window)

theorem createMapping_correct_witness:
  "\<exists>st root F A st'. pt_inv 2 st root F A \<and> PageTable_createMapping root 513 100 600 7 st = Some st' \<and>
     walk 2 (pt_mem st') root 514 = Some (101, 7)"
proof -
  obtain st root F A where e: "pt_inv 2 st root F A" "10 \<le> card F" "pt_mem st root = (\<lambda>_. 0)" using pt_example[of 2] by blast
  have "nosplit 2 (pt_mem st) root 513 600" by (rule nosplit_unmapped) (rule empty_table(3), rule e(3))
  from createMapping_correct[OF e(1,2) _ _ _ perm_ok_7 this, of 100] obtain st' where
    st': "PageTable_createMapping root 513 100 600 7 st = Some st'"
      "\<forall>v < 2 ^ 27. walk 2 (pt_mem st') root v = (if 513 \<le> v \<and> v < 513 + 600 then (if bit (7 :: perm_t) 0
          then Some (100 + (v - 513), 7) else None) else walk 2 (pt_mem st) root v)" by auto
  from st'(2)[rule_format, of 514] have "walk 2 (pt_mem st') root 514 = Some (101, 7)" by simp
  then show ?thesis using e(1) st'(1) by blast
qed

text \<open>C8: \<open>removeMapping\<close> unmaps every page of the range and no other, provided no big page is covered in part
  (\<open>nopart\<close>; the code fails an assertion otherwise).  The frames it gives back to the page allocator are
  exactly those of the tables that are no longer part of the tree, and no table it leaves behind is
  empty when none was empty before (\<open>dense\<close>).\<close>

theorem removeMapping_correct:
  assumes "pt_inv 2 st root F A" "vpn + pages \<le> 2 ^ 27" "vpn < 2 ^ 27" "nopart 2 (pt_mem st) root vpn pages"
  shows "\<exists>st' F'. PageTable_removeMapping root vpn pages st = Some st' \<and>
     pt_inv 2 st' root F' (A - (F' - F)) \<and> F \<subseteq> F' \<and>
     F' - F = pt_frames 2 (pt_mem st) root - pt_frames 2 (pt_mem st') root \<and>
     (dense 2 (pt_mem st) root \<longrightarrow> dense 2 (pt_mem st') root) \<and>
     (\<forall>v < 2 ^ 27. walk 2 (pt_mem st') root v =
        (if vpn \<le> v \<and> v < vpn + pages then None else walk 2 (pt_mem st) root v))"
  using assms by (rule removeMapping_window)

theorem removeMapping_correct_witness:
  "\<exists>st root F A st' F'. pt_inv 2 st root F A \<and> walk 2 (pt_mem st) root 513 = Some (100, 7) \<and>
     PageTable_removeMapping root 513 1 st = Some st' \<and> walk 2 (pt_mem st') root 513 = None \<and>
     pt_inv 2 st' root F' (A - (F' - F)) \<and> card F' = card F + 2"
proof -
  obtain st r c1 c2 F A where e: "pt_inv 2 st r F A" "distinct [r, c1, c2]" "pt_frames 2 (pt_mem st) r = {r, c1, c2}"
    "dense 2 (pt_mem st) r" "nopart 2 (pt_mem st) r 513 1" "\<forall>v < 2 ^ 27. walk 2 (pt_mem st) r v = (if v = 513 then Some (100, 7) else None)"
    using pt_example_chain by blast
  from removeMapping_correct[OF e(1) _ _ e(5)] obtain st' F' where
    st': "PageTable_removeMapping r 513 1 st = Some st'" "pt_inv 2 st' r F' (A - (F' - F))" "F \<subseteq> F'"
      "F' - F = {r, c1, c2} - pt_frames 2 (pt_mem st') r" "dense 2 (pt_mem st') r"
      "\<forall>v < 2 ^ 27. walk 2 (pt_mem st') r v = (if 513 \<le> v \<and> v < 513 + 1 then None else walk 2 (pt_mem st) r v)"
    using e(3,4) by auto
  have none: "walk 2 (pt_mem st') r v = None" if "v < 2 ^ 27" for v using st'(6) e(6) that by auto
  have "pt_frames 2 (pt_mem st') r = {r}" by (rule dense_nothing_mapped) (use st'(2,5) none big_3 in \<open>auto simp: pt_inv_def\<close>)
  then have "F' = F \<union> {c1, c2}" "c1 \<notin> F" "c2 \<notin> F" using st'(3,4) e(2) pt_invD(6)[OF e(1)] by auto
  then have "card F' = card F + 2" using pt_invD(2)[OF e(1)] e(2) by simp
  then show ?thesis using e(1,6) st'(1,2) none[of 513] by (intro exI[of _ st] exI[of _ r] exI[of _ F] exI[of _ A] exI[of _ st'] exI[of _ F']) simp
qed

text \<open>C10: cutting a big page in the middle loses its end: when the range starts and ends strictly inside
  one big page, the page right after the range was mapped before and is not mapped afterwards.\<close>

theorem createMapping_loses_tail:
  assumes inv: "pt_inv (Suc k) st t F A" and N: "new_tables (Suc k) \<le> card F"
    and leaf: "isValid (pt_mem st t (idx (Suc k) vpn))" "isLeaf (pt_mem st t (idx (Suc k) vpn))"
    and cut: "vpn mod big (Suc k) \<noteq> 0" "vpn mod big (Suc k) + n < big (Suc k)" "ppn + n \<le> 2 ^ 44" "perm_ok perm"
  shows "\<exists>st'. createMapping (Suc k) t vpn ppn n perm st = Some st' \<and>
     walk (Suc k) (pt_mem st) t (vpn + n) \<noteq> None \<and> walk (Suc k) (pt_mem st') t (vpn + n) = None"
proof -
  let ?B = "big (Suc k)" and ?i = "idx (Suc k) vpn" and ?u = "vpn mod big (Suc k)" and ?N = "new_tables k"
  let ?rec = "createMapping k"
  have i: "?i < 512" by simp
  have j: "idx (Suc k) (vpn + n) = ?i"
  proof -
    have "vpn + n = (?u + n) + vpn div ?B * ?B" using div_mult_mod_eq[of vpn ?B] by linarith
    then have "(vpn + n) div ?B = vpn div ?B + (?u + n) div ?B" by (metis div_mult_self1 big_pos less_numeral_extra(3))
    also have "(?u + n) div ?B = 0" using cut(2) by simp
    finally have "(vpn + n) div ?B = vpn div ?B" by simp
    then show ?thesis by (simp add: idx_def)
  qed
  have m: "(vpn + n) mod ?B = ?u + n" using cut(2) by (rule mod_add_less)
  have nn: "\<not> isNode (pt_mem st t ?i)" using leaf by (simp add: isNode_def)
  have pv: "(vpn - ?u) mod ?B = 0" unfolding minus_mod_eq_mult_div by (rule mod_mult_self1_is_0)
  have "?u < ?B" by (rule mod_less_divisor) (rule big_pos)
  then have L: "(vpn - ?u) mod ?B = 0 \<and> 0 + ?u \<le> ?B" using pv by linarith
  have N1: "1 + ?N \<le> card F" using N by simp
  obtain sub st1 F1 where s: "subTable_of ?rec t ?i (vpn - ?u) 0 ?u st = Some (sub, st1)"
    and rd: "sub_ready k t ?i (vpn - ?u) ?u st F A ?N sub st1 F1"
    using subTable_new[OF createMapping_spec inv i nn N1 L] by blast
  have w1: "walk k (pt_mem st1) sub v = None" if "idx (Suc k) v = ?i" "\<not> in_range k (vpn - ?u) ?u v" for v
  proof -
    have "walk k (pt_mem st1) sub v = (if isValid (pt_mem st t ?i) \<and> isLeaf (pt_mem st t ?i) \<and> \<not> in_range k (vpn - ?u) ?u v
       then None else ewalk (walk k (pt_mem st)) (Suc k) (pt_mem st t ?i) v)"
      using rd unfolding sub_ready_def Let_def by blast
    then show ?thesis using leaf that(2) by presburger
  qed
  have i1: "pt_inv k st1 sub F1 (A \<union> (F - F1))" "card F \<le> card F1 + (1 + ?N)" using rd unfolding sub_ready_def Let_def by blast+
  have "\<not> in_range k (vpn - ?u) ?u vpn" unfolding in_range_def pv by linarith
  then have "walk k (pt_mem st1) sub vpn = None" by (rule w1[OF refl])
  then have "nosplit k (pt_mem st1) sub vpn n" by (rule nosplit_unmapped)
  then have "map_pre k sub vpn ppn n perm st1" using cut unfolding map_pre_def by linarith
  moreover have "?N \<le> card F1" using N i1(2) by simp
  ultimately obtain st2 F2 where r: "?rec sub vpn ppn n perm st1 = Some st2" "map_post k sub st1 F1 (A \<union> (F - F1)) ?N st2 F2"
    and w: "\<And>v. walk k (pt_mem st2) sub v = (if in_range k vpn n v then mapped_to k vpn ppn perm v else walk k (pt_mem st1) sub v)"
    using map_specD[OF createMapping_spec i1(1)] by blast
  have p: "min (?B - ?u) n = n" using cut(2) by simp
  have "createMapping (Suc k) t vpn ppn n perm st = createMapping_tail ?rec (Suc k) t (vpn + n) (ppn + n) 0 perm st2"
    using cut(1) s r(1) p unfolding createMapping.simps createMapping_body_def Let_def big_def[symmetric] idx_def[symmetric] by simp
  also have "\<dots> = Some st2" by (simp add: createMapping_tail_def Let_def)
  finally have "createMapping (Suc k) t vpn ppn n perm st = Some st2" .
  moreover have "walk (Suc k) (pt_mem st2) t (vpn + n) = None"
  proof -
    have "\<not> in_range k vpn n (vpn + n)" "\<not> in_range k (vpn - ?u) ?u (vpn + n)"
      unfolding in_range_def m pv by linarith+
    then have "walk k (pt_mem st2) sub (vpn + n) = None" using w[of "vpn + n"] w1[OF j] by presburger
    then show ?thesis using sub_ready_step(2)[OF inv i rd r(2), of "vpn + n"] j by presburger
  qed
  moreover have "walk (Suc k) (pt_mem st) t (vpn + n) \<noteq> None" using leaf j by (simp add: ewalk_def)
  ultimately show ?thesis by blast
qed

theorem createMapping_loses_tail_witness:
  "\<exists>st t st'. createMapping (Suc 0) t 5 1000 3 7 st = Some st' \<and>
     walk (Suc 0) (pt_mem st) t (5 + 3) \<noteq> None \<and> walk (Suc 0) (pt_mem st') t (5 + 3) = None"
proof -
  obtain st t F A where e: "pt_inv (Suc 0) st t F A" "10 \<le> card F" using pt_example[of "Suc 0"] by blast
  define b where "b = set_ppn (set_perm 0 7) 0"
  have b: "pte_ok (Suc 0) b" "\<not> isNode b" "isValid b" "isLeaf b"
    by (simp_all add: b_def pte_ok_def isNode_def big_def)
  let ?st = "set_entry t 0 (\<lambda>_. b) st"
  have inv: "pt_inv (Suc 0) ?st t F A" using set_leaf_ok(1)[OF e(1) _ b(1,2), of 0] by (simp add: map_post_def)
  have i: "idx (Suc 0) 5 = 0" by (simp add: idx_def big_def)
  have "new_tables (Suc 0) \<le> card F" using e(2) by simp
  then have "\<exists>st'. createMapping (Suc 0) t 5 1000 3 7 ?st = Some st' \<and>
     walk (Suc 0) (pt_mem ?st) t (5 + 3) \<noteq> None \<and> walk (Suc 0) (pt_mem st') t (5 + 3) = None"
    by (rule createMapping_loses_tail[OF inv]) (use b perm_ok_7 i in \<open>simp_all add: big_def\<close>)
  then show ?thesis by blast
qed

end
