(* ===== verification/Vmo.thy ===== *)
theory Vmo
  imports PageTableProps
begin

text \<open>
  The memory objects of \<open>include/vm/vmo.hh\<close> with the pagers of \<open>include/vm/pager.hh\<close> and the page buffers
  of \<open>include/vm/pcache.hh\<close>.  Objects that the code shares by reference are entries of a heap, named by
  numbers.  Physical memory is a map from frame numbers to the bytes of a page.  The contents of a file
  page come from the file system: \<open>readPages\<close> is a parameter that gives the bytes of a page of an inode.
  A reference count that drops to zero is not modelled, so that page buffers are not given back here.
\<close>

datatype Pager =
    VnodePager nat "nat \<rightharpoonup> nat" nat
  | SwapPager "nat option" "nat \<rightharpoonup> nat" Segment

datatype VMO =
    VMOPaged "nat option list" nat
  | VMOContiguous nat nat

record vmheap =
  vh_pt :: PTState
  vh_phys :: "nat \<Rightarrow> byte list"
  vh_pagers :: "nat \<Rightarrow> Pager option"
  vh_vmos :: "nat \<Rightarrow> VMO option"
  vh_next :: nat

type_synonym reader = "nat \<Rightarrow> nat \<Rightarrow> byte list"

definition new_pager :: "Pager \<Rightarrow> vmheap \<Rightarrow> nat \<times> vmheap" where
  "new_pager p h = (vh_next h, h\<lparr>vh_pagers := (vh_pagers h)(vh_next h \<mapsto> p), vh_next := vh_next h + 1\<rparr>)"

definition new_vmo :: "VMO \<Rightarrow> vmheap \<Rightarrow> nat \<times> vmheap" where
  "new_vmo v h = (vh_next h, h\<lparr>vh_vmos := (vh_vmos h)(vh_next h \<mapsto> v), vh_next := vh_next h + 1\<rparr>)"

subsection \<open>Page buffers\<close>

definition new_PageBuf :: "vmheap \<Rightarrow> (nat \<times> vmheap) option" where
  "new_PageBuf h =
     do { (ppn, pm) \<leftarrow> alloc 1 (pt_pm (vh_pt h));
          Some (ppn, h\<lparr>vh_pt := (vh_pt h)\<lparr>pt_pm := pm\<rparr>\<rparr>) }"

definition fillzero :: "nat \<Rightarrow> vmheap \<Rightarrow> vmheap" where
  "fillzero ppn h = h\<lparr>vh_phys := (vh_phys h)(ppn := replicate pageSize 0)\<rparr>"

definition fillwith :: "nat \<Rightarrow> nat \<Rightarrow> vmheap \<Rightarrow> vmheap" where
  "fillwith ppn other h = h\<lparr>vh_phys := (vh_phys h)(ppn := vh_phys h other)\<rparr>"

text \<open>\<open>memset\<close> of a part of a page to zero.\<close>

definition zero_part :: "nat \<Rightarrow> nat \<Rightarrow> nat \<Rightarrow> vmheap \<Rightarrow> vmheap" where
  "zero_part ppn from n h =
     h\<lparr>vh_phys := (vh_phys h)(ppn :=
        take from (vh_phys h ppn) @ replicate n 0 @ drop (from + n) (vh_phys h ppn))\<rparr>"

fun copyframes :: "nat \<Rightarrow> nat \<Rightarrow> nat \<Rightarrow> vmheap \<Rightarrow> vmheap" where
  "copyframes src dst 0 h = h"
| "copyframes src dst (Suc pages) h = copyframes (src + 1) (dst + 1) pages (fillwith dst src h)"

subsection \<open>Pagers\<close>

definition vnode_load :: "reader \<Rightarrow> nat \<Rightarrow> nat \<Rightarrow> vmheap \<Rightarrow> (nat \<times> vmheap) option" where
  "vnode_load readPages pg offset h =
     (case vh_pagers h pg of
        Some (VnodePager ino pages rc) \<Rightarrow>
          (case pages offset of
             Some ppn \<Rightarrow> Some (ppn, h)
           | None \<Rightarrow>
               do { (ppn, h) \<leftarrow> new_PageBuf h;
                    Some (ppn, h\<lparr>vh_phys := (vh_phys h)(ppn := readPages ino offset),
                                 vh_pagers := (vh_pagers h)(pg \<mapsto> VnodePager ino (pages(offset \<mapsto> ppn)) rc)\<rparr>) })
      | _ \<Rightarrow> None)"

definition vnode_loadTo :: "reader \<Rightarrow> nat \<Rightarrow> nat \<Rightarrow> nat \<Rightarrow> vmheap \<Rightarrow> vmheap option" where
  "vnode_loadTo readPages pg offset ppn h =
     (case vh_pagers h pg of
        Some (VnodePager ino pages rc) \<Rightarrow>
          do { (src, h) \<leftarrow> vnode_load readPages pg offset
                 (h\<lparr>vh_pagers := (vh_pagers h)(pg \<mapsto> VnodePager ino pages (rc + 1))\<rparr>);
               Some (fillwith ppn src h) }
      | _ \<Rightarrow> None)"

text \<open>
  \<open>loadTo\<close> of either kind of pager.  The pager behind a swap pager was created before it, so the chain of
  backing pagers is shorter than the number of the pager, which is the fuel \<open>pager_loadTo\<close> gives.
\<close>

fun loadTo :: "nat \<Rightarrow> reader \<Rightarrow> nat \<Rightarrow> nat \<Rightarrow> nat \<Rightarrow> vmheap \<Rightarrow> vmheap option" where
  "loadTo 0 readPages pg offset ppn h = None"
| "loadTo (Suc fuel) readPages pg offset ppn h =
     (case vh_pagers h pg of
        None \<Rightarrow> None
      | Some (VnodePager ino pages rc) \<Rightarrow> vnode_loadTo readPages pg offset ppn h
      | Some (SwapPager backing pages region) \<Rightarrow>
          (case pages offset of
             Some src \<Rightarrow> Some (fillwith ppn src h)
           | None \<Rightarrow>
               (let backingoff = addr2pn (seg_l region) + offset in
                case backing of
                  Some b \<Rightarrow>
                    if backingoff \<le> addr2pn (seg_r region) then
                      do { h \<leftarrow> loadTo fuel readPages b backingoff ppn h;
                           let h = (if offset = 0
                                    then zero_part ppn 0 (sub64 (seg_l region) (pn2addr backingoff)) h else h);
                           let partial = sub64 (seg_r region) (pn2addr backingoff);
                           Some (if backingoff = addr2pn (seg_r region)
                                 then zero_part ppn partial (pageSize - partial) h else h) }
                    else Some (fillzero ppn h)
                | None \<Rightarrow> Some (fillzero ppn h))))"

definition pager_loadTo :: "reader \<Rightarrow> nat \<Rightarrow> nat \<Rightarrow> nat \<Rightarrow> vmheap \<Rightarrow> vmheap option" where
  "pager_loadTo readPages pg offset ppn h = loadTo (pg + 1) readPages pg offset ppn h"

definition swap_load :: "reader \<Rightarrow> nat \<Rightarrow> nat \<Rightarrow> vmheap \<Rightarrow> (nat \<times> vmheap) option" where
  "swap_load readPages pg offset h =
     (case vh_pagers h pg of
        Some (SwapPager backing pages region) \<Rightarrow>
          (case pages offset of
             Some ppn \<Rightarrow> Some (ppn, h)
           | None \<Rightarrow>
               do { (ppn, h) \<leftarrow> new_PageBuf h;
                    h \<leftarrow> pager_loadTo readPages pg offset ppn h;
                    Some (ppn, h\<lparr>vh_pagers := (vh_pagers h)(pg \<mapsto> SwapPager backing (pages(offset \<mapsto> ppn)) region)\<rparr>) })
      | _ \<Rightarrow> None)"

definition pager_load :: "reader \<Rightarrow> nat \<Rightarrow> nat \<Rightarrow> vmheap \<Rightarrow> (nat \<times> vmheap) option" where
  "pager_load readPages pg offset h =
     (case vh_pagers h pg of
        None \<Rightarrow> None
      | Some (VnodePager _ _ _) \<Rightarrow> vnode_load readPages pg offset h
      | Some (SwapPager _ _ _) \<Rightarrow> swap_load readPages pg offset h)"

subsection \<open>Memory objects\<close>

definition VMO_len :: "VMO \<Rightarrow> nat" where
  "VMO_len v = (case v of VMOPaged pages _ \<Rightarrow> length pages | VMOContiguous _ pages \<Rightarrow> pages)"

text \<open>\<open>req\<close>: the slice (offset, frame, pages) that holds a page of the object.\<close>

definition VMO_req :: "reader \<Rightarrow> nat \<Rightarrow> nat \<Rightarrow> vmheap \<Rightarrow> ((nat \<times> nat \<times> nat) \<times> vmheap) option" where
  "VMO_req readPages v offset h =
     (case vh_vmos h v of
        None \<Rightarrow> None
      | Some (VMOContiguous ppn pages) \<Rightarrow> Some ((0, ppn, pages), h)
      | Some (VMOPaged pages pg) \<Rightarrow>
          do { p \<leftarrow> rd pages offset;
               case p of
                 Some ppn \<Rightarrow> Some ((offset, ppn, 1), h)
               | None \<Rightarrow>
                   do { (ppn, h) \<leftarrow> pager_load readPages pg offset h;
                        Some ((offset, ppn, 1),
                              h\<lparr>vh_vmos := (vh_vmos h)(v \<mapsto> VMOPaged (pages[offset := Some ppn]) pg)\<rparr>) } })"

definition VMO_clone :: "nat \<Rightarrow> vmheap \<Rightarrow> (nat \<times> vmheap) option" where
  "VMO_clone v h =
     (case vh_vmos h v of
        None \<Rightarrow> None
      | Some (VMOPaged pages pg) \<Rightarrow>
          (let (q, h) = new_pager (SwapPager (Some pg) Map.empty \<lparr>seg_l = 0, seg_r = pn2addr (length pages)\<rparr>) h
           in Some (new_vmo (VMOPaged (replicate (length pages) None) q) h))
      | Some (VMOContiguous ppn pages) \<Rightarrow>
          do { (q, pm) \<leftarrow> alloc pages (pt_pm (vh_pt h));
               Some (new_vmo (VMOContiguous q pages)
                       (copyframes ppn q pages (h\<lparr>vh_pt := (vh_pt h)\<lparr>pt_pm := pm\<rparr>\<rparr>))) })"

text \<open>The destructor of a contiguous object.\<close>

definition VMOContiguous_destroy :: "nat \<Rightarrow> nat \<Rightarrow> vmheap \<Rightarrow> vmheap option" where
  "VMOContiguous_destroy ppn pages h =
     do { pm \<leftarrow> freeUnaligned ppn pages (pt_pm (vh_pt h));
          Some (h\<lparr>vh_pt := (vh_pt h)\<lparr>pt_pm := pm\<rparr>\<rparr>) }"

end
