(* ===== verification/Vmar.thy ===== *)
theory Vmar
  imports Vmo Klibc
begin

text \<open>
  Address spaces: \<open>PageMapping\<close> and \<open>VMAR\<close> of \<open>include/vm.hh\<close> and \<open>kernel/vm/vm.cc\<close>.  The set of mappings is a
  list sorted by its key, the first page; inserting a mapping whose first page is taken changes nothing,
  as in \<open>eastl::set\<close>.  An iterator over the set is the key of its element.
\<close>

subsection \<open>Mappings\<close>

datatype MappingType = Msystem | Mfile | Manon

datatype SharingType = Privt | Shared

record PageMapping =
  mp_vpn :: nat
  mp_len :: nat
  mp_offset :: nat
  mp_vmo :: nat
  mp_perm :: perm_t
  mp_mapping :: MappingType
  mp_sharing :: SharingType

definition vend :: "PageMapping \<Rightarrow> nat" where
  "vend m = sub64 (add64 (mp_vpn m) (mp_len m)) 1"

definition vsegment :: "PageMapping \<Rightarrow> Segment" where
  "vsegment m = \<lparr>seg_l = mp_vpn m, seg_r = vend m\<rparr>"

definition mp_contains :: "PageMapping \<Rightarrow> nat \<Rightarrow> bool" where
  "mp_contains m addr \<longleftrightarrow> addr2pn addr \<ge> mp_vpn m \<and> addr2pn addr \<le> vend m"

definition splitChild :: "PageMapping \<Rightarrow> Segment \<Rightarrow> perm_t \<Rightarrow> PageMapping" where
  "splitChild m region newperm =
     m\<lparr>mp_vpn := seg_l region, mp_len := Segment_length region,
       mp_offset := sub64 (add64 (mp_offset m) (seg_l region)) (mp_vpn m),
       mp_perm := (if newperm \<noteq> 0 then newperm else mp_perm m)\<rparr>"

definition mp_req :: "reader \<Rightarrow> PageMapping \<Rightarrow> nat \<Rightarrow> vmheap \<Rightarrow> ((nat \<times> nat \<times> nat) \<times> vmheap) option" where
  "mp_req readPages m i h = VMO_req readPages (mp_vmo m) (add64 (mp_offset m) i) h"

definition mp_clone :: "PageMapping \<Rightarrow> vmheap \<Rightarrow> (PageMapping \<times> vmheap) option" where
  "mp_clone m h =
     (if mp_sharing m = Shared then Some (m, h)
      else do { (v, h) \<leftarrow> VMO_clone (mp_vmo m) h; Some (m\<lparr>mp_vmo := v\<rparr>, h) })"

definition prot2perm :: "8 word \<Rightarrow> perm_t" where
  "prot2perm prot =
     (if prot = 0 then mask_u else (mask_v OR mask_u) OR push_bit 1 (prot AND 0xf))"

subsection \<open>Address spaces\<close>

record VMAR =
  va_mappings :: "PageMapping list"
  va_root :: nat

type_synonym vmst = "VMAR \<times> vmheap"

fun set_insert :: "PageMapping \<Rightarrow> PageMapping list \<Rightarrow> PageMapping list" where
  "set_insert m [] = [m]"
| "set_insert m (x # xs) =
     (if mp_vpn m < mp_vpn x then m # x # xs
      else if mp_vpn x < mp_vpn m then x # set_insert m xs
      else x # xs)"

text \<open>\<open>find\<close>: on an empty set the code dereferences the end iterator; otherwise the result may be the end.\<close>

definition VMAR_find :: "VMAR \<Rightarrow> nat \<Rightarrow> PageMapping option option" where
  "VMAR_find v addr =
     (case va_mappings v of
        [] \<Rightarrow> None
      | x # xs \<Rightarrow>
          (let low = takeWhile (\<lambda>m. mp_vpn m \<le> addr2pn addr) (x # xs);
               m = (if low = [] then x else last low)
           in Some (if mp_contains m addr then Some m else None)))"

definition VMAR_contains :: "VMAR \<Rightarrow> nat \<Rightarrow> bool" where
  "VMAR_contains v addr \<longleftrightarrow> list_ex (\<lambda>m. mp_contains m addr) (va_mappings v)"

text \<open>A call of \<open>createMapping\<close> or \<open>removeMapping\<close> on the table of the space.\<close>

definition va_createMapping :: "nat \<Rightarrow> nat \<Rightarrow> nat \<Rightarrow> perm_t \<Rightarrow> vmst \<Rightarrow> vmst option" where
  "va_createMapping vpn ppn pages perm = (\<lambda>(v, h).
     do { pt \<leftarrow> PageTable_createMapping (va_root v) vpn ppn pages perm (vh_pt h);
          Some (v, h\<lparr>vh_pt := pt\<rparr>) })"

definition va_removeMapping :: "PageMapping \<Rightarrow> vmst \<Rightarrow> vmst option" where
  "va_removeMapping m = (\<lambda>(v, h).
     do { pt \<leftarrow> PageTable_removeMapping (va_root v) (mp_vpn m) (mp_len m) (vh_pt h);
          Some (v, h\<lparr>vh_pt := pt\<rparr>) })"

text \<open>
  The loop of \<open>VMAR::map\<close>.  For a paged object every pass advances by one page, for a contiguous object a
  pass covers the whole object; a loop that makes no more progress never ends and is \<open>None\<close>.
\<close>

fun map_loop :: "nat \<Rightarrow> reader \<Rightarrow> PageMapping \<Rightarrow> nat \<Rightarrow> vmst \<Rightarrow> vmst option" where
  "map_loop fuel readPages m i (v, h) =
     (if i < mp_len m then
        (case fuel of
           0 \<Rightarrow> None
         | Suc fuel \<Rightarrow>
             do { ((off, ppn, pages), h) \<leftarrow> mp_req readPages m i h;
                  let voff = sub64 off (mp_offset m);
                  st \<leftarrow> va_createMapping (add64 (mp_vpn m) voff) ppn pages (mp_perm m) (v, h);
                  map_loop fuel readPages m (add64 voff pages) st })
      else Some (v, h))"

definition VMAR_map :: "reader \<Rightarrow> PageMapping \<Rightarrow> bool \<Rightarrow> vmst \<Rightarrow> vmst option" where
  "VMAR_map readPages m ondemand = (\<lambda>(v, h).
     let v = v\<lparr>va_mappings := set_insert m (va_mappings v)\<rparr>
     in if ondemand then Some (v, h) else map_loop (mp_len m) readPages m 0 (v, h))"

definition pfhandler :: "reader \<Rightarrow> nat \<Rightarrow> vmst \<Rightarrow> vmst option" where
  "pfhandler readPages addr = (\<lambda>(v, h).
     do { f \<leftarrow> VMAR_find v addr;
          m \<leftarrow> f;
          ((off, ppn, pages), h) \<leftarrow> mp_req readPages m (addr2pn addr - mp_vpn m) h;
          let voff = sub64 off (mp_offset m);
          va_createMapping (add64 (mp_vpn m) voff) ppn pages (mp_perm m) (v, h) })"

text \<open>Iteration: the element after the key \<open>k\<close> (\<open>None\<close> is the end), and erasing an element, which returns the next.\<close>

type_synonym iterator = "PageMapping option"

definition next_after :: "nat \<Rightarrow> vmst \<Rightarrow> iterator" where
  "next_after k st = List.find (\<lambda>m. mp_vpn m > k) (va_mappings (fst st))"

definition va_erase :: "nat \<Rightarrow> vmst \<Rightarrow> iterator \<times> vmst" where
  "va_erase k = (\<lambda>(v, h).
     let st = (v\<lparr>va_mappings := filter (\<lambda>m. mp_vpn m \<noteq> k) (va_mappings v)\<rparr>, h) in (next_after k st, st))"

definition left_part :: "PageMapping \<Rightarrow> Segment \<Rightarrow> Segment" where
  "left_part i ovlp = \<lparr>seg_l = mp_vpn i, seg_r = sub64 (seg_l ovlp) 1\<rparr>"

definition right_part :: "PageMapping \<Rightarrow> Segment \<Rightarrow> Segment" where
  "right_part i ovlp = \<lparr>seg_l = add64 (seg_r ovlp) 1, seg_r = vend i\<rparr>"

definition map_slice :: "reader \<Rightarrow> PageMapping \<Rightarrow> Segment \<Rightarrow> vmst \<Rightarrow> vmst option" where
  "map_slice readPages i region st =
     (if Segment_bool region then VMAR_map readPages (splitChild i region 0) False st else Some st)"

text \<open>One pass of the loops over the set at the element \<open>i\<close>, with the iterator it leaves.\<close>

definition unmap_one :: "reader \<Rightarrow> Segment \<Rightarrow> PageMapping \<Rightarrow> vmst \<Rightarrow> (iterator \<times> vmst) option" where
  "unmap_one readPages region i st =
     (let ovlp = Segment_and (vsegment i) region in
      if Segment_bool ovlp
      then do { st \<leftarrow> map_slice readPages i (left_part i ovlp) st;
                st \<leftarrow> map_slice readPages i (right_part i ovlp) st;
                st \<leftarrow> va_removeMapping i st;
                Some (va_erase (mp_vpn i) st) }
      else Some (next_after (mp_vpn i) st, st))"

definition protect_one :: "reader \<Rightarrow> Segment \<Rightarrow> perm_t \<Rightarrow> PageMapping \<Rightarrow> vmst \<Rightarrow> (iterator \<times> vmst) option" where
  "protect_one readPages region perm i st =
     (let ovlp = Segment_and (vsegment i) region in
      if Segment_bool ovlp
      then do { st \<leftarrow> va_removeMapping i st;
                st \<leftarrow> map_slice readPages i (left_part i ovlp) st;
                st \<leftarrow> map_slice readPages i (right_part i ovlp) st;
                let (it, st) = va_erase (mp_vpn i) st;
                st \<leftarrow> VMAR_map readPages (splitChild i ovlp perm) False st;
                Some (it, st) }
      else Some (next_after (mp_vpn i) st, st))"

definition reset_one :: "PageMapping \<Rightarrow> vmst \<Rightarrow> (iterator \<times> vmst) option" where
  "reset_one i st =
     (if mp_mapping i \<noteq> Msystem
      then do { st \<leftarrow> va_removeMapping i st; Some (va_erase (mp_vpn i) st) }
      else Some (next_after (mp_vpn i) st, st))"

text \<open>
  The loops.  A pass at \<open>i\<close> adds at most one element above \<open>i\<close>, so twice the size of the set is enough fuel.
\<close>

fun set_loop :: "nat \<Rightarrow> (PageMapping \<Rightarrow> vmst \<Rightarrow> (iterator \<times> vmst) option) \<Rightarrow> iterator \<Rightarrow> vmst \<Rightarrow> vmst option" where
  "set_loop fuel f None st = Some st"
| "set_loop 0 f (Some i) st = None"
| "set_loop (Suc fuel) f (Some i) st = do { (it, st) \<leftarrow> f i st; set_loop fuel f it st }"

definition over_set :: "(PageMapping \<Rightarrow> vmst \<Rightarrow> (iterator \<times> vmst) option) \<Rightarrow> vmst \<Rightarrow> vmst option" where
  "over_set f st =
     set_loop (2 * length (va_mappings (fst st)) + 1) f
       (case va_mappings (fst st) of [] \<Rightarrow> None | x # _ \<Rightarrow> Some x) st"

definition VMAR_unmap :: "reader \<Rightarrow> Segment \<Rightarrow> vmst \<Rightarrow> vmst option" where
  "VMAR_unmap readPages region st = over_set (unmap_one readPages region) st"

definition VMAR_protect :: "reader \<Rightarrow> Segment \<Rightarrow> perm_t \<Rightarrow> vmst \<Rightarrow> vmst option" where
  "VMAR_protect readPages region perm st = over_set (protect_one readPages region perm) st"

definition VMAR_reset :: "vmst \<Rightarrow> vmst option" where
  "VMAR_reset st = over_set reset_one st"

subsection \<open>Construction\<close>

text \<open>A space with a fresh table, and the copy of a space: every mapping is cloned and mapped.\<close>

definition VMAR_new :: "vmheap \<Rightarrow> vmst option" where
  "VMAR_new h =
     do { (root, pt) \<leftarrow> createPTNode (vh_pt h);
          Some (\<lparr>va_mappings = [], va_root = root\<rparr>, h\<lparr>vh_pt := pt\<rparr>) }"

fun clone_mappings :: "reader \<Rightarrow> PageMapping list \<Rightarrow> vmst \<Rightarrow> vmst option" where
  "clone_mappings readPages [] st = Some st"
| "clone_mappings readPages (m # ms) (v, h) =
     do { (m, h) \<leftarrow> mp_clone m h;
          st \<leftarrow> VMAR_map readPages m False (v, h);
          clone_mappings readPages ms st }"

definition VMAR_clone :: "reader \<Rightarrow> VMAR \<Rightarrow> vmheap \<Rightarrow> vmst option" where
  "VMAR_clone readPages other h =
     do { st \<leftarrow> VMAR_new h;
          clone_mappings readPages (va_mappings other) st }"

definition VMAR_satp :: "VMAR \<Rightarrow> 64 word" where
  "VMAR_satp v = toSATP (va_root v)"

subsection \<open>Access to user memory\<close>

definition VMAR_transaddr :: "nat \<Rightarrow> vmst \<Rightarrow> nat option" where
  "VMAR_transaddr vaddr = (\<lambda>(v, h). transaddr (pt_mem (vh_pt h)) (va_root v) vaddr)"

text \<open>Physical memory by byte address.\<close>

definition phys_byte :: "vmheap \<Rightarrow> nat \<Rightarrow> byte option" where
  "phys_byte h a = rd (vh_phys h (addr2pn a)) (addr2offset a)"

fun phys_read :: "vmheap \<Rightarrow> nat \<Rightarrow> nat \<Rightarrow> byte list option" where
  "phys_read h a 0 = Some []"
| "phys_read h a (Suc n) = do { b \<leftarrow> phys_byte h a; bs \<leftarrow> phys_read h (a + 1) n; Some (b # bs) }"

text \<open>\<open>copyin\<close> and \<open>copyinstr\<close> translate the first address only and read physical memory from there.\<close>

definition copyin :: "nat \<Rightarrow> nat \<Rightarrow> vmst \<Rightarrow> byte list option" where
  "copyin addr len st =
     do { paddr \<leftarrow> VMAR_transaddr addr st;
          phys_read (snd st) paddr len }"

fun phys_strncpy :: "vmheap \<Rightarrow> nat \<Rightarrow> nat \<Rightarrow> byte list option" where
  "phys_strncpy h a 0 = do { c \<leftarrow> phys_byte h a; Some [] }"
| "phys_strncpy h a (Suc n) =
     do { c \<leftarrow> phys_byte h a;
          if c \<noteq> 0 then map_option (\<lambda>bs. c # bs) (phys_strncpy h (a + 1) n)
          else Some (replicate (Suc n) 0) }"

definition copyinstr :: "nat \<Rightarrow> nat \<Rightarrow> vmst \<Rightarrow> byte list option" where
  "copyinstr addr len st =
     do { paddr \<leftarrow> VMAR_transaddr addr st;
          bs \<leftarrow> phys_strncpy (snd st) paddr len;
          Some (bs @ [0]) }"

text \<open>
  \<open>copyout\<close> maps the memory object behind the address into the kernel (\<open>VMOMapper\<close>) and copies into it; a
  page of the object is loaded when the copy touches it.
\<close>

fun vmo_store :: "reader \<Rightarrow> nat \<Rightarrow> nat \<Rightarrow> byte list \<Rightarrow> vmheap \<Rightarrow> vmheap option" where
  "vmo_store readPages vmo off [] h = Some h"
| "vmo_store readPages vmo off (b # bs) h =
     do { ((o1, ppn, pages), h) \<leftarrow> VMO_req readPages vmo (off div pageSize) h;
          let f = ppn + (off div pageSize - o1);
          page \<leftarrow> wr (vh_phys h f) (off mod pageSize) b;
          vmo_store readPages vmo (off + 1) bs (h\<lparr>vh_phys := (vh_phys h)(f := page)\<rparr>) }"

function copyout :: "reader \<Rightarrow> nat \<Rightarrow> byte list \<Rightarrow> vmst \<Rightarrow> vmst option" where
  "copyout readPages va_begin buff (v, h) =
     (if buff = [] then Some (v, h)
      else do { f \<leftarrow> VMAR_find v va_begin;
                m \<leftarrow> f;
                vmo \<leftarrow> vh_vmos h (mp_vmo m);
                let off = va_begin - pn2addr (mp_vpn m) + pn2addr (mp_offset m);
                ensure (off < VMO_len vmo * pageSize);
                let cpylen = min (length buff) (VMO_len vmo * pageSize - off);
                h \<leftarrow> vmo_store readPages (mp_vmo m) off (take cpylen buff) h;
                copyout readPages (add64 va_begin cpylen) (drop cpylen buff) (v, h) })"
  by pat_completeness auto
termination
  by (relation "measure (\<lambda>(_, _, buff, _). length buff)") auto

subsection \<open>Streams over user memory (\<open>VMAR::Writer\<close>)\<close>

record Writer =
  w_vaddr :: nat
  w_reverse :: bool

definition Writer_put :: "reader \<Rightarrow> byte list \<Rightarrow> Writer \<times> vmst \<Rightarrow> (Writer \<times> vmst) option" where
  "Writer_put readPages bytes = (\<lambda>(w, st).
     if \<not> w_reverse w
     then do { st \<leftarrow> copyout readPages (w_vaddr w) bytes st;
               Some (w\<lparr>w_vaddr := add64 (w_vaddr w) (length bytes)\<rparr>, st) }
     else do { let a = sub64 (w_vaddr w) (length bytes);
               st \<leftarrow> copyout readPages a bytes st;
               Some (w\<lparr>w_vaddr := a\<rparr>, st) })"

definition Writer_get :: "nat \<Rightarrow> Writer \<times> vmst \<Rightarrow> (byte list \<times> Writer) option" where
  "Writer_get n = (\<lambda>(w, st).
     let a = (if w_reverse w then sub64 (w_vaddr w) n else w_vaddr w)
     in do { bs \<leftarrow> copyin a n st;
             Some (bs, w\<lparr>w_vaddr := (if w_reverse w then a else add64 a n)\<rparr>) })"

declare copyout.simps [simp del] map_loop.simps [simp del]

end
