(* ===== verification/VmoSpec.thy ===== *)
theory VmoSpec
  imports Vmo
begin

text \<open>
  What loading pages rests on: a free frame for every new page buffer, the file pages a vnode pager has
  cached, and the bytes a swap pager shows of the window of a file it was given, with zeros around them.
\<close>

lemma new_PageBuf_Ex:
  assumes "frames_inv (pt_pm (vh_pt h)) F A" "F \<noteq> {}"
  obtains p pm where "new_PageBuf h = Some (p, h\<lparr>vh_pt := (vh_pt h)\<lparr>pt_pm := pm\<rparr>\<rparr>)" "p \<in> F" "p \<notin> A"
    "frames_inv pm (F - {p}) (insert p A)"
proof -
  from frames.alloc1_Ex[OF assms] obtain p pm where
    "alloc 1 (pt_pm (vh_pt h)) = Some (p, pm)" "p \<in> F" "p \<notin> A" "frames_inv pm (F - {p}) (insert p A)" .
  then show thesis using that by (simp add: new_PageBuf_def)
qed

text \<open>The file pages a vnode pager has cached are allocated frames with the bytes of the file.\<close>

definition vnode_ok :: "reader \<Rightarrow> nat \<Rightarrow> nat \<Rightarrow> nat set \<Rightarrow> vmheap \<Rightarrow> bool" where
  "vnode_ok readPages pg ino A h \<longleftrightarrow>
     (\<exists>pages rc. vh_pagers h pg = Some (VnodePager ino pages rc)
        \<and> (\<forall>off p. pages off = Some p \<longrightarrow> p \<in> A \<and> vh_phys h p = readPages ino off))"

text \<open>The bytes a swap pager shows at the page \<open>off\<close> of its window \<open>[l, r)\<close> of a file.\<close>

definition window_byte :: "(nat \<Rightarrow> byte list) \<Rightarrow> nat \<Rightarrow> nat \<Rightarrow> nat \<Rightarrow> byte" where
  "window_byte file l r a = (if l \<le> a \<and> a < r then file (a div 4096) ! (a mod 4096) else 0)"

definition window_page :: "(nat \<Rightarrow> byte list) \<Rightarrow> nat \<Rightarrow> nat \<Rightarrow> nat \<Rightarrow> byte list" where
  "window_page file l r off = map (\<lambda>j. window_byte file l r ((l div 4096 + off) * 4096 + j)) [0..<4096]"

lemma page_arith: "(q * 4096 + j) div 4096 = q" "(q * 4096 + j) mod 4096 = j" if "j < 4096" for q j :: nat
  using that by simp_all

lemma window_inside:
  assumes q: "q = l div 4096 + off" "q \<le> r div 4096" and len: "length (file q) = 4096"
    and x: "x = (if off = 0 then replicate (l mod 4096) 0 @ drop (l mod 4096) (file q) else file q)"
    and y: "y = (if q = r div 4096 then take (r mod 4096) x @ replicate (4096 - r mod 4096) 0 else x)"
  shows "y = window_page file l r off"
proof -
  have mr: "r mod 4096 < 4096" and ml: "l mod 4096 < 4096" by simp_all
  have lx: "length x = 4096" using x len ml by auto
  then have ly: "length y = 4096" using y mr by auto
  have xj: "x ! j = (if l \<le> q * 4096 + j then file q ! j else 0)" if "j < 4096" for j
  proof (cases "off = 0")
    case True
    then have "l = q * 4096 + l mod 4096" using q(1) by simp
    then have "l \<le> q * 4096 + j \<longleftrightarrow> l mod 4096 \<le> j" by linarith
    then show ?thesis using True x len that ml by (auto simp: nth_append)
  next
    case False
    then have "l div 4096 < q" using q(1) by simp
    then have "l \<le> q * 4096 + j" by (simp add: div_less_iff_less_mult)
    then show ?thesis using False x by simp
  qed
  have yj: "y ! j = (if l \<le> q * 4096 + j \<and> q * 4096 + j < r then file q ! j else 0)" if j: "j < 4096" for j
  proof (cases "q = r div 4096")
    case True
    then have "r = q * 4096 + r mod 4096" by simp
    then have "q * 4096 + j < r \<longleftrightarrow> j < r mod 4096" by linarith
    then show ?thesis using True y lx mr j xj[OF j] by (auto simp: nth_append)
  next
    case False
    then have "q + 1 \<le> r div 4096" using q(2) by linarith
    then have "(q + 1) * 4096 \<le> r" by (subst (asm) less_eq_div_iff_mult_less_eq) simp_all
    then have "q * 4096 + j < r" using j by simp
    then show ?thesis using False y xj[OF j] by simp
  qed
  show ?thesis
  proof (rule nth_equalityI)
    show "length y = length (window_page file l r off)" using ly by (simp add: window_page_def)
    fix j assume "j < length y"
    then have j: "j < 4096" using ly by simp
    then have "window_page file l r off ! j = window_byte file l r (q * 4096 + j)"
      using q(1) by (simp add: window_page_def)
    then show "y ! j = window_page file l r off ! j"
      using yj[OF j] unfolding window_byte_def page_arith[OF j] by simp
  qed
qed

lemma window_outside: "r div 4096 < l div 4096 + off \<Longrightarrow> window_page file l r off = replicate 4096 0"
proof -
  assume a: "r div 4096 < l div 4096 + off"
  have "r \<le> (l div 4096 + off) * 4096 + j" for j
    using a by (simp add: div_less_iff_less_mult)
  then have "window_byte file l r ((l div 4096 + off) * 4096 + j) = 0" for j
    by (simp add: window_byte_def leD)
  then show ?thesis unfolding window_page_def by (simp add: map_replicate_const)
qed

lemma pn2addr_small: "p < 2 ^ 52 \<Longrightarrow> pn2addr p = p * 4096"
  by (simp add: pn2addr_def)

lemma frames_example: "\<exists>pm. frames_inv pm {1 ..< 32} {}"
proof -
  have "(31::nat) \<noteq> 2 ^ k" for k by (rule odd_not_pow2) simp_all
  moreover have "log2up 31 = 5" by (simp add: log2up_def log2up_loop.simps)
  ultimately obtain pm where "pm_inv pm {1 ..< 1 + 31} (single_pages (1 + 31) (1 + 2 ^ log2up 31))"
    using PageMgr_init_ok[of 1 31 0] by auto
  then have "frames_inv pm {1 ..< 32} {}" by (auto simp: frames_inv_def)
  then show ?thesis ..
qed

end
