(* ===== verification/VmarSpec.thy ===== *)
theory VmarSpec
  imports Vmar VmoSpec
begin

text \<open>
  Address spaces on top of the page tables: what \<open>map\<close> makes the hardware see, that bytes copied out to
  user memory are copied in again, and what \<open>unmap\<close> does to the set of mappings.
\<close>

subsection \<open>Mapping a contiguous object\<close>

lemma map_loop_stop: "\<not> i < mp_len m \<Longrightarrow> map_loop fuel readPages m i (v, h) = Some (v, h)"
  by (subst map_loop.simps) simp

lemma map_loop_contiguous:
  assumes "vh_vmos h (mp_vmo m) = Some (VMOContiguous ppn (mp_len m))" "mp_offset m = 0" "0 < mp_len m"
    "mp_vpn m < 2 ^ 64" "mp_len m < 2 ^ 64"
    "PageTable_createMapping (va_root v) (mp_vpn m) ppn (mp_len m) (mp_perm m) (vh_pt h) = Some pt"
  shows "map_loop (mp_len m) readPages m 0 (v, h) = Some (v, h\<lparr>vh_pt := pt\<rparr>)"
proof -
  obtain k where k: "mp_len m = Suc k" using assms(3) by (cases "mp_len m") auto
  have z: "sub64 0 0 = 0" "add64 (mp_vpn m) 0 = mp_vpn m" "add64 0 0 = 0" "add64 0 (mp_len m) = mp_len m"
    using assms(4,5) by (simp_all add: add64_def sub64_def)
  have "va_createMapping (add64 (mp_vpn m) (sub64 0 (mp_offset m))) ppn (mp_len m) (mp_perm m) (v, h)
      = Some (v, h\<lparr>vh_pt := pt\<rparr>)"
    using assms(2,6) z by (simp add: va_createMapping_def)
  then have "map_loop (Suc k) readPages m 0 (v, h) = map_loop k readPages m (mp_len m) (v, h\<lparr>vh_pt := pt\<rparr>)"
    using assms(1,2,3) z by (subst map_loop.simps) (simp add: mp_req_def VMO_req_def)
  then show ?thesis using map_loop_stop[of "mp_len m" m] k by simp
qed

text \<open>Mapping a contiguous object makes the hardware translate every page of the mapping to its frame
  with the permissions of the mapping, leaves every other page alone, and enters the mapping in the set.
\<close>

theorem VMAR_map_contiguous:
  assumes vmo: "vh_vmos h (mp_vmo m) = Some (VMOContiguous ppn (mp_len m))" "mp_offset m = 0" "0 < mp_len m"
    and rng: "mp_vpn m + mp_len m \<le> 2 ^ 27" "ppn + mp_len m \<le> 2 ^ 44" "perm_ok (mp_perm m)" "bit (mp_perm m) 0"
    and pt: "pt_inv 2 (vh_pt h) (va_root v) F A" "10 \<le> card F" "nosplit 2 (pt_mem (vh_pt h)) (va_root v) (mp_vpn m) (mp_len m)"
  shows "\<exists>v' h'. VMAR_map readPages m False (v, h) = Some (v', h')
     \<and> va_mappings v' = set_insert m (va_mappings v)
     \<and> (\<forall>p < 2 ^ 27. walk 2 (pt_mem (vh_pt h')) (va_root v') p =
          (if mp_vpn m \<le> p \<and> p \<le> vend m then Some (ppn + (p - mp_vpn m), mp_perm m)
           else walk 2 (pt_mem (vh_pt h)) (va_root v) p))"
proof -
  have lt: "mp_vpn m < 2 ^ 27" "mp_vpn m < 2 ^ 64" "mp_len m < 2 ^ 64" using rng(1) vmo(3) by auto
  have ve: "vend m = mp_vpn m + mp_len m - 1"
    using rng(1) vmo(3) by (simp add: vend_def add64_in_range sub64_in_range)
  let ?v = "v\<lparr>va_mappings := set_insert m (va_mappings v)\<rparr>"
  from createMapping_window[OF pt(1,2) rng(1) lt(1) rng(2,3) pt(3)] obtain st' where
    st': "PageTable_createMapping (va_root ?v) (mp_vpn m) ppn (mp_len m) (mp_perm m) (vh_pt h) = Some st'"
      "\<forall>p < 2 ^ 27. walk 2 (pt_mem st') (va_root v) p =
        (if mp_vpn m \<le> p \<and> p < mp_vpn m + mp_len m
         then (if bit (mp_perm m) 0 then Some (ppn + (p - mp_vpn m), mp_perm m) else None)
         else walk 2 (pt_mem (vh_pt h)) (va_root v) p)"
    by auto
  have "VMAR_map readPages m False (v, h) = Some (?v, h\<lparr>vh_pt := st'\<rparr>)"
    using map_loop_contiguous[OF vmo lt(2,3) st'(1)] by (simp add: VMAR_map_def)
  moreover have "mp_vpn m \<le> p \<and> p < mp_vpn m + mp_len m \<longleftrightarrow> mp_vpn m \<le> p \<and> p \<le> vend m" for p
    using ve vmo(3) by auto
  ultimately show ?thesis using st'(2) rng(4) by (intro exI[of _ ?v] exI[of _ "h\<lparr>vh_pt := st'\<rparr>"]) simp
qed

definition map_ex :: PageMapping where
  "map_ex = \<lparr>mp_vpn = 40, mp_len = 3, mp_offset = 0, mp_vmo = 0, mp_perm = 7, mp_mapping = Manon, mp_sharing = Privt\<rparr>"

theorem VMAR_map_contiguous_witness:
  "\<exists>v h v' h'. VMAR_map (\<lambda>_ _. []) map_ex False (v, h) = Some (v', h')
     \<and> walk 2 (pt_mem (vh_pt h')) (va_root v') 41 = Some (101, 7)"
proof -
  obtain st root F A where e: "pt_inv 2 st root F A" "10 \<le> card F" "pt_mem st root = (\<lambda>_. 0)" using pt_example[of 2] by blast
  let ?v = "\<lparr>va_mappings = [], va_root = root\<rparr>"
  let ?h = "\<lparr>vh_pt = st, vh_phys = (\<lambda>_. []), vh_pagers = Map.empty, vh_vmos = [0 \<mapsto> VMOContiguous 100 3], vh_next = 1\<rparr>"
  have ns: "nosplit 2 (pt_mem st) root 40 3" by (rule nosplit_unmapped) (rule empty_table(3), rule e(3))
  have "\<exists>v' h'. VMAR_map (\<lambda>_ _. []) map_ex False (?v, ?h) = Some (v', h')
     \<and> va_mappings v' = set_insert map_ex (va_mappings ?v)
     \<and> (\<forall>p < 2 ^ 27. walk 2 (pt_mem (vh_pt h')) (va_root v') p =
          (if mp_vpn map_ex \<le> p \<and> p \<le> vend map_ex then Some (100 + (p - mp_vpn map_ex), mp_perm map_ex)
           else walk 2 (pt_mem (vh_pt ?h)) (va_root ?v) p))"
    by (rule VMAR_map_contiguous[where F = F and A = A]) (use e ns perm_ok_7 in \<open>simp_all add: map_ex_def\<close>)
  then obtain v' h' where r: "VMAR_map (\<lambda>_ _. []) map_ex False (?v, ?h) = Some (v', h')"
      "\<forall>p < 2 ^ 27. walk 2 (pt_mem (vh_pt h')) (va_root v') p =
          (if 40 \<le> p \<and> p \<le> vend map_ex then Some (100 + (p - 40), 7) else walk 2 (pt_mem st) root p)"
    by (auto simp: map_ex_def)
  have "vend map_ex = 42" by (simp add: map_ex_def vend_def add64_def sub64_def)
  with r(2)[rule_format, of 41] have "walk 2 (pt_mem (vh_pt h')) (va_root v') 41 = Some (101, 7)" by simp
  with r(1) show ?thesis by blast
qed

subsection \<open>Copying to and from user memory\<close>

text \<open>The bytes of a contiguous object by their offset.\<close>

definition obj_byte :: "vmheap \<Rightarrow> nat \<Rightarrow> nat \<Rightarrow> byte" where
  "obj_byte h ppn k = vh_phys h (ppn + k div 4096) ! (k mod 4096)"

lemma vmo_store_contiguous:
  "vh_vmos h vmo = Some (VMOContiguous ppn n) \<Longrightarrow> off + length bs \<le> n * 4096 \<Longrightarrow>
   \<forall>f. ppn \<le> f \<longrightarrow> f < ppn + n \<longrightarrow> length (vh_phys h f) = 4096 \<Longrightarrow>
   \<exists>h'. vmo_store readPages vmo off bs h = Some h' \<and> vh_pt h' = vh_pt h \<and> vh_vmos h' = vh_vmos h
     \<and> (\<forall>f. ppn \<le> f \<longrightarrow> f < ppn + n \<longrightarrow> length (vh_phys h' f) = 4096)
     \<and> (\<forall>f. f < ppn \<or> ppn + n \<le> f \<longrightarrow> vh_phys h' f = vh_phys h f)
     \<and> (\<forall>k < n * 4096. obj_byte h' ppn k = (if off \<le> k \<and> k < off + length bs then bs ! (k - off) else obj_byte h ppn k))"
proof (induction bs arbitrary: off h)
  case Nil
  then show ?case by auto
next
  case (Cons b bs)
  let ?f = "ppn + off div 4096" and ?o = "off mod 4096"
  have q: "off div 4096 < n" using Cons.prems(2) by (simp add: div_less_iff_less_mult)
  have len: "length (vh_phys h ?f) = 4096" using Cons.prems(3) q by simp
  let ?h = "h\<lparr>vh_phys := (vh_phys h)(?f := (vh_phys h ?f)[?o := b])\<rparr>"
  have s: "vmo_store readPages vmo off (b # bs) h = vmo_store readPages vmo (off + 1) bs ?h"
    using Cons.prems(1) len by (simp add: VMO_req_def pageSize_def wr_def Let_def)
  have ob: "obj_byte ?h ppn k = (if k = off then b else obj_byte h ppn k)" for k
  proof (cases "k div 4096 = off div 4096")
    case True
    then have "k mod 4096 = ?o \<longleftrightarrow> k = off" by (metis div_mult_mod_eq)
    with True len show ?thesis by (auto simp: obj_byte_def nth_list_update)
  next
    case False
    then show ?thesis by (auto simp: obj_byte_def)
  qed
  obtain h' where h': "vmo_store readPages vmo (off + 1) bs ?h = Some h'" "vh_pt h' = vh_pt ?h \<and> vh_vmos h' = vh_vmos ?h"
      "\<forall>f. ppn \<le> f \<longrightarrow> f < ppn + n \<longrightarrow> length (vh_phys h' f) = 4096"
      "\<forall>f. f < ppn \<or> ppn + n \<le> f \<longrightarrow> vh_phys h' f = vh_phys ?h f"
      "\<forall>k < n * 4096. obj_byte h' ppn k =
         (if off + 1 \<le> k \<and> k < off + 1 + length bs then bs ! (k - (off + 1)) else obj_byte ?h ppn k)"
  proof -
    have p3: "\<forall>f. ppn \<le> f \<longrightarrow> f < ppn + n \<longrightarrow> length (vh_phys ?h f) = 4096" using Cons.prems(3) by simp
    have "vh_vmos ?h vmo = Some (VMOContiguous ppn n)" "off + 1 + length bs \<le> n * 4096" using Cons.prems by simp_all
    from Cons.IH[OF this p3] show thesis using that by blast
  qed
  have "obj_byte h' ppn k = (if off \<le> k \<and> k < off + length (b # bs) then (b # bs) ! (k - off) else obj_byte h ppn k)"
    if k: "k < n * 4096" for k
    using h'(5)[rule_format, OF k] unfolding ob by (auto simp: nth_Cons')
  with s h' q show ?case by (intro exI[of _ h']) auto
qed

lemma phys_read_eq:
  "(\<And>j. j < length xs \<Longrightarrow> phys_byte h (a + j) = Some (xs ! j)) \<Longrightarrow> phys_read h a (length xs) = Some xs"
proof (induction xs arbitrary: a)
  case (Cons x xs)
  have "phys_byte h (a + 1 + j) = Some (xs ! j)" if "j < length xs" for j
    using Cons.prems[of "Suc j"] that by simp
  then have "phys_read h (a + 1) (length xs) = Some xs" by (rule Cons.IH)
  moreover have "phys_byte h a = Some x" using Cons.prems[of 0] by simp
  ultimately show ?case by simp
qed simp

lemma phys_byte_obj:
  assumes "length (vh_phys h (ppn + k div 4096)) = 4096"
  shows "phys_byte h (ppn * 4096 + k) = Some (obj_byte h ppn k)"
  using assms by (simp add: phys_byte_def obj_byte_def addr2pn_def addr2offset_def pageSize_def rd_def)

text \<open>A copy into memory that a contiguous object backs, and where its bytes are found.\<close>

lemma copyout_contiguous:
  assumes m: "VMAR_find v addr = Some (Some m)" "mp_offset m = 0" "mp_vpn m < 2 ^ 52"
    and vmo: "vh_vmos h (mp_vmo m) = Some (VMOContiguous ppn n)" "\<forall>f. ppn \<le> f \<longrightarrow> f < ppn + n \<longrightarrow> length (vh_phys h f) = 4096"
    and len: "addr + length bs \<le> (mp_vpn m + n) * 4096" "bs \<noteq> []"
  shows "\<exists>h'. copyout readPages addr bs (v, h) = Some (v, h') \<and> vh_pt h' = vh_pt h \<and> vh_vmos h' = vh_vmos h
     \<and> mp_vpn m * 4096 \<le> addr \<and> (\<forall>f. ppn \<le> f \<longrightarrow> f < ppn + n \<longrightarrow> length (vh_phys h' f) = 4096)
     \<and> (\<forall>f. f < ppn \<or> ppn + n \<le> f \<longrightarrow> vh_phys h' f = vh_phys h f)
     \<and> (\<forall>k < n * 4096. obj_byte h' ppn k = (if addr - mp_vpn m * 4096 \<le> k \<and> k < addr - mp_vpn m * 4096 + length bs
          then bs ! (k - (addr - mp_vpn m * 4096)) else obj_byte h ppn k))"
proof -
  have c: "mp_contains m addr" using m(1) by (auto simp: VMAR_find_def Let_def split: list.splits if_splits)
  define off where "off = addr - mp_vpn m * 4096"
  have vp: "pn2addr (mp_vpn m) = mp_vpn m * 4096" "pn2addr 0 = 0" using pn2addr_small[OF m(3)] pn2addr_small[of 0] by simp_all
  have ge: "mp_vpn m \<le> addr div 4096" using c by (simp add: mp_contains_def addr2pn_def)
  then have ad: "addr = mp_vpn m * 4096 + off" by (simp add: off_def less_eq_div_iff_mult_less_eq)
  have ol: "off + length bs \<le> n * 4096" using len(1) ad by (simp add: algebra_simps)
  then have olt: "off < n * 4096" using len(2) by (cases bs) auto
  obtain h' where h': "vmo_store readPages (mp_vmo m) off bs h = Some h'" "vh_pt h' = vh_pt h" "vh_vmos h' = vh_vmos h"
      "\<forall>f. ppn \<le> f \<longrightarrow> f < ppn + n \<longrightarrow> length (vh_phys h' f) = 4096"
      "\<forall>f. f < ppn \<or> ppn + n \<le> f \<longrightarrow> vh_phys h' f = vh_phys h f"
      "\<forall>k < n * 4096. obj_byte h' ppn k = (if off \<le> k \<and> k < off + length bs then bs ! (k - off) else obj_byte h ppn k)"
    using vmo_store_contiguous[OF vmo(1) ol vmo(2)] by blast
  have mn: "min (length bs) (n * 4096 - off) = length bs" using ol by simp
  have "copyout readPages addr bs (v, h) = copyout readPages (add64 addr (length bs)) [] (v, h')"
    using m vmo(1) len(2) h'(1) vp olt mn
    by (subst copyout.simps) (simp add: VMO_len_def pageSize_def off_def[symmetric])
  also have "\<dots> = Some (v, h')" by (subst copyout.simps) simp
  finally show ?thesis using h'(2-6) ad unfolding off_def[symmetric] by (intro exI[of _ h']) simp
qed

text \<open>The bytes of a contiguous object that its pages translate to are read from the address of the first.\<close>

lemma copyin_contiguous:
  assumes "vpn * 4096 \<le> addr" "addr + length bs \<le> (vpn + n) * 4096" "bs \<noteq> []" "ppn + n \<le> 2 ^ 44"
    and "\<forall>f. ppn \<le> f \<longrightarrow> f < ppn + n \<longrightarrow> length (vh_phys h f) = 4096"
    and "PageTable_trans (pt_mem (vh_pt h)) (va_root v) (addr2pn addr) = Some (ppn + (addr2pn addr - vpn))"
    and "\<And>j. j < length bs \<Longrightarrow> obj_byte h ppn (addr - vpn * 4096 + j) = bs ! j"
  shows "copyin addr (length bs) (v, h) = Some bs"
proof -
  define off where "off = addr - vpn * 4096"
  have ad: "addr = vpn * 4096 + off" using assms(1) by (simp add: off_def)
  have ol: "off + length bs \<le> n * 4096" using assms(2) ad by (simp add: algebra_simps)
  then have olt: "off < n * 4096" using assms(3) by (cases bs) auto
  have pq: "addr2pn addr - vpn = off div 4096" "addr2offset addr = off mod 4096"
    using ad by (simp_all add: addr2pn_def addr2offset_def pageSize_def)
  have fr: "off div 4096 < n" using olt by (simp add: div_less_iff_less_mult)
  have "pn2addr (ppn + off div 4096) = (ppn + off div 4096) * 4096"
    by (rule pn2addr_small) (use assms(4) fr in simp)
  moreover have "(ppn + off div 4096) * 4096 + off mod 4096 = ppn * 4096 + off" by (simp add: algebra_simps)
  moreover have "ppn * 4096 + off < 2 ^ 64" using assms(4) olt by simp
  ultimately have ta: "VMAR_transaddr addr (v, h) = Some (ppn * 4096 + off)"
    using assms(6) pq by (simp add: VMAR_transaddr_def transaddr_def add64_in_range)
  have "phys_byte h (ppn * 4096 + off + j) = Some (bs ! j)" if "j < length bs" for j
  proof -
    have "(off + j) div 4096 < n" using that ol by (simp add: div_less_iff_less_mult)
    then show ?thesis using phys_byte_obj[of h ppn "off + j"] assms(5) assms(7)[OF that] by (simp add: add.assoc off_def)
  qed
  then have "phys_read h (ppn * 4096 + off) (length bs) = Some bs" by (rule phys_read_eq)
  then show ?thesis using ta by (simp add: copyin_def)
qed

text \<open>C14: Bytes copied out to user memory that a contiguous object backs are read back by \<open>copyin\<close> from the
  same address, across page borders, and nothing outside the object changes.
\<close>

theorem copyout_copyin:
  assumes m: "VMAR_find v addr = Some (Some m)" "mp_offset m = 0" "mp_vpn m < 2 ^ 52"
    and vmo: "vh_vmos h (mp_vmo m) = Some (VMOContiguous ppn n)" "ppn + n \<le> 2 ^ 44"
      "\<forall>f. ppn \<le> f \<longrightarrow> f < ppn + n \<longrightarrow> length (vh_phys h f) = 4096"
    and tr: "PageTable_trans (pt_mem (vh_pt h)) (va_root v) (addr2pn addr) = Some (ppn + (addr2pn addr - mp_vpn m))"
    and len: "addr + length bs \<le> (mp_vpn m + n) * 4096" "bs \<noteq> []"
  shows "\<exists>h'. copyout readPages addr bs (v, h) = Some (v, h') \<and> copyin addr (length bs) (v, h') = Some bs
     \<and> (\<forall>f. f < ppn \<or> ppn + n \<le> f \<longrightarrow> vh_phys h' f = vh_phys h f)"
proof -
  obtain h' where h': "copyout readPages addr bs (v, h) = Some (v, h')" "vh_pt h' = vh_pt h" "mp_vpn m * 4096 \<le> addr"
      "\<forall>f. ppn \<le> f \<longrightarrow> f < ppn + n \<longrightarrow> length (vh_phys h' f) = 4096" "\<forall>f. f < ppn \<or> ppn + n \<le> f \<longrightarrow> vh_phys h' f = vh_phys h f"
      "\<forall>k < n * 4096. obj_byte h' ppn k = (if addr - mp_vpn m * 4096 \<le> k \<and> k < addr - mp_vpn m * 4096 + length bs
          then bs ! (k - (addr - mp_vpn m * 4096)) else obj_byte h ppn k)"
    using copyout_contiguous[OF m vmo(1,3) len] by blast
  have "obj_byte h' ppn (addr - mp_vpn m * 4096 + j) = bs ! j" if "j < length bs" for j
  proof -
    have "addr - mp_vpn m * 4096 + j < n * 4096" using that len(1) h'(3) by (simp add: algebra_simps)
    then show ?thesis using h'(6) that by simp
  qed
  then have "copyin addr (length bs) (v, h') = Some bs"
    using copyin_contiguous[OF h'(3) len vmo(2) h'(4)] tr h'(2) by simp
  with h'(1,5) show ?thesis by blast
qed

theorem copyout_copyin_witness:
  "\<exists>v h h'. copyout (\<lambda>_ _. []) (41 * 4096 + 4095) [1, 2, 3] (v, h) = Some (v, h')
     \<and> copyin (41 * 4096 + 4095) (length [1 :: byte, 2, 3]) (v, h') = Some [1, 2, 3]"
proof -
  obtain st root F A where e: "pt_inv 2 st root F A" "10 \<le> card F" "pt_mem st root = (\<lambda>_. 0)" using pt_example[of 2] by blast
  have ns: "nosplit 2 (pt_mem st) root 40 3" by (rule nosplit_unmapped) (rule empty_table(3), rule e(3))
  from createMapping_window[OF e(1,2) _ _ _ perm_ok_7 ns, of 100] obtain st' F' where
    st': "pt_inv 2 st' root F' (A \<union> (F - F'))" "\<forall>v < 2 ^ 27. walk 2 (pt_mem st') root v = (if 40 \<le> v \<and> v < 40 + 3
          then (if bit (7 :: perm_t) 0 then Some (100 + (v - 40), 7) else None) else walk 2 (pt_mem st) root v)" by auto
  have "walk 2 (pt_mem st') root 41 = Some (101, 7)" using st'(2)[rule_format, of 41] by simp
  then have tr: "PageTable_trans (pt_mem st') root 41 = Some 101"
    using trans_window[of "pt_mem st'" root 41] st'(1) by (simp add: pt_inv_def)
  let ?v = "\<lparr>va_mappings = [map_ex], va_root = root\<rparr>"
  let ?h = "\<lparr>vh_pt = st', vh_phys = (\<lambda>_. replicate 4096 0), vh_pagers = Map.empty, vh_vmos = [0 \<mapsto> VMOContiguous 100 3], vh_next = 1\<rparr>"
  have f: "VMAR_find ?v (41 * 4096 + 4095) = Some (Some map_ex)"
    by (simp add: VMAR_find_def map_ex_def mp_contains_def vend_def addr2pn_def add64_def sub64_def)
  have "\<exists>h'. copyout (\<lambda>_ _. []) (41 * 4096 + 4095) [1, 2, 3] (?v, ?h) = Some (?v, h')
     \<and> copyin (41 * 4096 + 4095) (length [1 :: byte, 2, 3]) (?v, h') = Some [1, 2, 3]
     \<and> (\<forall>f. f < 100 \<or> 100 + 3 \<le> f \<longrightarrow> vh_phys h' f = vh_phys ?h f)"
    by (rule copyout_copyin[OF f]) (use tr in \<open>simp_all add: map_ex_def addr2pn_def\<close>)
  then show ?thesis by blast
qed

subsection \<open>Unmapping\<close>

definition mp_ok :: "PageMapping \<Rightarrow> bool" where
  "mp_ok m \<longleftrightarrow> 0 < mp_len m \<and> mp_vpn m + mp_len m \<le> 2 ^ 52"

text \<open>Mappings in ascending order and without overlap.\<close>

fun va_ok :: "PageMapping list \<Rightarrow> bool" where
  "va_ok [] = True"
| "va_ok (m # ms) = (mp_ok m \<and> (\<forall>x \<in> set ms. vend m < mp_vpn x) \<and> va_ok ms)"

definition in_mapping :: "nat \<Rightarrow> PageMapping \<Rightarrow> bool" where
  "in_mapping p m \<longleftrightarrow> mp_vpn m \<le> p \<and> p \<le> vend m"

definition overlaps :: "Segment \<Rightarrow> PageMapping \<Rightarrow> bool" where
  "overlaps region m \<longleftrightarrow> mp_vpn m \<le> seg_r region \<and> seg_l region \<le> vend m"

lemma vend_eq: "mp_ok m \<Longrightarrow> vend m = mp_vpn m + mp_len m - 1"
  by (simp add: vend_def mp_ok_def add64_in_range sub64_in_range)

lemma vend_ge: "mp_ok m \<Longrightarrow> mp_vpn m \<le> vend m \<and> vend m < 2 ^ 52"
  using vend_eq[of m] by (auto simp: mp_ok_def)

text \<open>What stays of a mapping in the set: only the part to the right of the region.\<close>

definition remains :: "Segment \<Rightarrow> PageMapping \<Rightarrow> PageMapping list" where
  "remains region i =
     (let ovlp = Segment_and (vsegment i) region in
      if Segment_bool ovlp
      then if Segment_bool (right_part i ovlp) then [splitChild i (right_part i ovlp) 0] else []
      else [i])"

lemma overlaps_iff:
  assumes "mp_ok m" "seg_l region \<le> seg_r region"
  shows "Segment_bool (Segment_and (vsegment m) region) \<longleftrightarrow> overlaps region m"
  using vend_ge[OF assms(1)] assms(2)
  by (auto simp: Segment_bool_def Segment_and_def vsegment_def overlaps_def)

lemma right_slice:
  assumes "mp_ok i" "seg_l region \<le> seg_r region" "overlaps region i" "seg_r region < vend i"
  defines "r \<equiv> splitChild i (right_part i (Segment_and (vsegment i) region)) 0"
  shows "mp_vpn r = seg_r region + 1" "vend r = vend i" "mp_ok r"
proof -
  have b: "vend i < 2 ^ 52" "mp_vpn i \<le> vend i" using vend_ge[OF assms(1)] by auto
  have rp: "right_part i (Segment_and (vsegment i) region) = \<lparr>seg_l = seg_r region + 1, seg_r = vend i\<rparr>"
    using assms(4) b by (simp add: right_part_def Segment_and_def vsegment_def add64_in_range min_def)
  show v: "mp_vpn r = seg_r region + 1" by (simp add: r_def rp splitChild_def)
  have "mp_len r = add64 (sub64 (vend i) (seg_r region + 1)) 1" by (simp add: r_def rp splitChild_def Segment_length_def)
  also have "\<dots> = vend i - seg_r region" using assms(4) b by (simp add: add64_in_range sub64_in_range)
  finally have l: "mp_len r = vend i - seg_r region" .
  show ok: "mp_ok r" using v l assms(4) b by (simp add: mp_ok_def)
  show "vend r = vend i" using vend_eq[OF ok] v l assms(4) by simp
qed

lemma right_part_iff:
  assumes "mp_ok i" "seg_l region \<le> seg_r region" "overlaps region i"
  shows "Segment_bool (right_part i (Segment_and (vsegment i) region)) \<longleftrightarrow> seg_r region < vend i"
proof -
  have b: "vend i < 2 ^ 52" using vend_ge[OF assms(1)] by auto
  then have "add64 (min (vend i) (seg_r region)) 1 = min (vend i) (seg_r region) + 1"
    by (intro add64_in_range) (auto simp: min_def)
  then show ?thesis by (auto simp: right_part_def Segment_and_def vsegment_def Segment_bool_def)
qed

lemma remains_cases:
  assumes "mp_ok i" "seg_l region \<le> seg_r region"
  obtains (away) "\<not> overlaps region i" "remains region i = [i]"
  | (cut) r where "overlaps region i" "remains region i = [r]" "seg_r region < vend i" "mp_ok r"
      "mp_vpn r = seg_r region + 1" "vend r = vend i" "r = splitChild i (right_part i (Segment_and (vsegment i) region)) 0"
  | (gone) "overlaps region i" "remains region i = []" "vend i \<le> seg_r region"
proof (cases "overlaps region i")
  case False
  then show thesis using away overlaps_iff[OF assms] by (simp add: remains_def)
next
  case True
  show thesis
  proof (cases "seg_r region < vend i")
    case c: True
    show thesis
      by (rule cut[OF True _ c]) (use right_slice[OF assms True c] overlaps_iff[OF assms] right_part_iff[OF assms True] True c
            in \<open>auto simp: remains_def Let_def\<close>)
  next
    case False
    then show thesis using gone[OF True] overlaps_iff[OF assms] right_part_iff[OF assms True] True
      by (simp add: remains_def Let_def)
  qed
qed

lemma map_loop_v: "map_loop fuel readPages m i (v, h) = Some (v', h') \<Longrightarrow> v' = v"
proof (induction fuel arbitrary: i h)
  case 0
  then show ?case by (subst (asm) map_loop.simps) (simp split: if_splits)
next
  case (Suc fuel)
  show ?case
    using Suc.prems
    by (subst (asm) map_loop.simps)
       (auto simp: bind_eq_Some_iff va_createMapping_def Let_def dest: Suc.IH split: if_splits)
qed

lemma VMAR_map_set:
  "VMAR_map readPages m d (v, h) = Some (v', h') \<Longrightarrow> v' = v\<lparr>va_mappings := set_insert m (va_mappings v)\<rparr>"
  by (auto simp: VMAR_map_def Let_def split: if_splits dest: map_loop_v)

lemma va_removeMapping_v: "va_removeMapping m (v, h) = Some (v', h') \<Longrightarrow> v' = v"
  by (auto simp: va_removeMapping_def bind_eq_Some_iff)

lemma va_ok_append:
  "va_ok (xs @ ys) \<longleftrightarrow> va_ok xs \<and> va_ok ys \<and> (\<forall>x \<in> set xs. \<forall>y \<in> set ys. vend x < mp_vpn y)"
  by (induction xs) auto

lemma va_ok_mp: "va_ok ms \<Longrightarrow> m \<in> set ms \<Longrightarrow> mp_ok m"
  by (induction ms) auto

lemma set_insert_same:
  "va_ok (xs @ i # ys) \<Longrightarrow> mp_vpn m = mp_vpn i \<Longrightarrow> set_insert m (xs @ i # ys) = xs @ i # ys"
proof (induction xs)
  case (Cons x xs)
  then have "mp_vpn x < mp_vpn i" using vend_ge[of x] by (auto simp: va_ok_append)
  with Cons show ?case by simp
qed simp

lemma set_insert_after:
  "va_ok (xs @ i # ys) \<Longrightarrow> mp_vpn i < mp_vpn m \<Longrightarrow> \<forall>y \<in> set ys. mp_vpn m < mp_vpn y \<Longrightarrow>
   set_insert m (xs @ i # ys) = xs @ i # m # ys"
proof (induction xs)
  case Nil
  then show ?case by (cases ys) auto
next
  case (Cons x xs)
  then have "mp_vpn x < mp_vpn i" using vend_ge[of x] by (auto simp: va_ok_append)
  with Cons show ?case by simp
qed

lemma filter_out:
  "va_ok (xs @ i # ys) \<Longrightarrow> filter (\<lambda>m. mp_vpn m \<noteq> mp_vpn i) (xs @ i # zs) = xs @ filter (\<lambda>m. mp_vpn m \<noteq> mp_vpn i) zs"
proof -
  assume a: "va_ok (xs @ i # ys)"
  have "mp_vpn x \<noteq> mp_vpn i" if "x \<in> set xs" for x
    using a that vend_ge[of x] by (force simp: va_ok_append dest: va_ok_mp)
  then show ?thesis by (simp add: filter_id_conv)
qed

lemma next_after_first:
  assumes "\<forall>x \<in> set xs. mp_vpn x \<le> k" "\<forall>y \<in> set ys. k < mp_vpn y" "va_mappings v = xs @ ys"
  shows "next_after k (v, h) = (case ys of [] \<Rightarrow> None | y # _ \<Rightarrow> Some y)"
proof -
  have "List.find (\<lambda>m. k < mp_vpn m) (xs @ ys) = (case ys of [] \<Rightarrow> None | y # _ \<Rightarrow> Some y)"
    using assms(1,2) by (induction xs) (auto split: list.splits)
  then show ?thesis using assms(3) by (simp add: next_after_def)
qed

definition first :: "PageMapping list \<Rightarrow> iterator" where
  "first ms = (case ms of [] \<Rightarrow> None | m # _ \<Rightarrow> Some m)"

lemma map_slice_set:
  "map_slice readPages i s (v, h) = Some (v', h') \<Longrightarrow>
   va_mappings v' = (if Segment_bool s then set_insert (splitChild i s 0) (va_mappings v) else va_mappings v)"
  by (auto simp: map_slice_def split: if_splits dest: VMAR_map_set)

lemma va_ok_order:
  assumes "va_ok (pre @ i # post)"
  shows "\<forall>x \<in> set pre. mp_vpn x < mp_vpn i" "\<forall>y \<in> set post. mp_vpn i < mp_vpn y" "\<forall>y \<in> set post. vend i < mp_vpn y" "mp_ok i"
proof -
  show "mp_ok i" "\<forall>y \<in> set post. vend i < mp_vpn y" using assms by (auto simp: va_ok_append)
  then show "\<forall>y \<in> set post. mp_vpn i < mp_vpn y" using vend_ge[of i] by auto
  show "\<forall>x \<in> set pre. mp_vpn x < mp_vpn i"
  proof
    fix x assume x: "x \<in> set pre"
    then have "mp_ok x" "vend x < mp_vpn i" using assms va_ok_mp[of pre x] by (auto simp: va_ok_append)
    then show "mp_vpn x < mp_vpn i" using vend_ge[of x] by simp
  qed
qed

lemma unmap_one_set:
  assumes ok: "va_ok (pre @ i # post)" and rg: "seg_l region \<le> seg_r region"
    and ms: "va_mappings v = pre @ i # post" and r: "unmap_one readPages region i (v, h) = Some (it, v', h')"
  shows "va_mappings v' = pre @ remains region i @ post"
    "it = (if overlaps region i then first (remains region i @ post) else first post)"
proof -
  note ord = va_ok_order[OF ok]
  let ?ov = "Segment_and (vsegment i) region"
  have "va_mappings v' = pre @ remains region i @ post
     \<and> it = (if overlaps region i then first (remains region i @ post) else first post)"
  proof (cases "overlaps region i")
    case False
    then have "it = next_after (mp_vpn i) (v, h)" "v' = v" "remains region i = [i]"
      using r overlaps_iff[OF ord(4) rg] by (auto simp: unmap_one_def remains_def Let_def)
    moreover have "next_after (mp_vpn i) (v, h) = first post"
      unfolding first_def by (rule next_after_first[of "pre @ [i]"]) (use ord ms in \<open>auto simp: less_imp_le\<close>)
    ultimately show ?thesis using False ms by simp
  next
    case True
    then obtain v1 h1 v2 h2 v3 h3 where
      1: "map_slice readPages i (left_part i ?ov) (v, h) = Some (v1, h1)" and
      2: "map_slice readPages i (right_part i ?ov) (v1, h1) = Some (v2, h2)" and
      3: "va_removeMapping i (v2, h2) = Some (v3, h3)" and e: "(it, v', h') = va_erase (mp_vpn i) (v3, h3)"
      using r overlaps_iff[OF ord(4) rg] by (auto simp: unmap_one_def Let_def bind_eq_Some_iff)
    have s1: "va_mappings v1 = pre @ i # post"
      using map_slice_set[OF 1] ms set_insert_same[OF ok, of "splitChild i (left_part i ?ov) 0"]
      by (simp add: splitChild_def left_part_def)
    have s2: "va_mappings v2 = pre @ i # remains region i @ post"
    proof (cases "seg_r region < vend i")
      case c: True
      note rs = right_slice[OF ord(4) rg True c]
      let ?r = "splitChild i (right_part i ?ov) 0"
      have "mp_vpn i < mp_vpn ?r" using rs(1) True by (simp add: overlaps_def)
      moreover have "\<forall>y \<in> set post. mp_vpn ?r < mp_vpn y" using ord(3) rs(1) c by auto
      ultimately have "set_insert ?r (pre @ i # post) = pre @ i # ?r # post" by (rule set_insert_after[OF ok])
      then show ?thesis
        using map_slice_set[OF 2] s1 right_part_iff[OF ord(4) rg True] c overlaps_iff[OF ord(4) rg] True
        by (simp add: remains_def Let_def)
    next
      case False
      then show ?thesis
        using map_slice_set[OF 2] s1 right_part_iff[OF ord(4) rg True] overlaps_iff[OF ord(4) rg] True
        by (simp add: remains_def Let_def)
    qed
    have kp: "\<forall>y \<in> set (remains region i @ post). mp_vpn i < mp_vpn y"
      by (rule remains_cases[OF ord(4) rg]) (use True ord(2) in \<open>auto simp: overlaps_def\<close>)
    have "v' = v3\<lparr>va_mappings := filter (\<lambda>m. mp_vpn m \<noteq> mp_vpn i) (va_mappings v3)\<rparr>"
        "it = next_after (mp_vpn i) (v', h3)" using e by (auto simp: va_erase_def Let_def)
    moreover have "filter (\<lambda>m. mp_vpn m \<noteq> mp_vpn i) (va_mappings v3) = pre @ remains region i @ post"
    proof -
      have "filter (\<lambda>m. mp_vpn m \<noteq> mp_vpn i) pre = pre" using ord(1) by (auto simp: filter_id_conv)
      moreover have "filter (\<lambda>m. mp_vpn m \<noteq> mp_vpn i) (remains region i @ post) = remains region i @ post"
        using kp by (subst filter_id_conv) (auto dest!: bspec)
      ultimately show ?thesis using va_removeMapping_v[OF 3] s2 by simp
    qed
    ultimately show ?thesis
      using True next_after_first[of pre "mp_vpn i" "remains region i @ post" v' h3] ord(1) kp
      by (auto simp: first_def less_imp_le)
  qed
  then show "va_mappings v' = pre @ remains region i @ post"
    "it = (if overlaps region i then first (remains region i @ post) else first post)" by auto
qed

lemma remains_va_ok:
  assumes ok: "va_ok (pre @ i # post)" and rg: "seg_l region \<le> seg_r region"
  shows "va_ok (pre @ remains region i @ post)" "\<And>r. r \<in> set (remains region i) \<Longrightarrow> remains region r = [r] \<and> \<not> overlaps region r"
proof -
  note ord = va_ok_order[OF ok]
  show "va_ok (pre @ remains region i @ post)"
    by (rule remains_cases[OF ord(4) rg]) (use ok in \<open>auto simp: va_ok_append overlaps_def\<close>)
  fix r assume r: "r \<in> set (remains region i)"
  have no: "\<not> overlaps region r" and "mp_ok r"
    by (rule remains_cases[OF ord(4) rg]; use r ord(4) in \<open>auto simp: overlaps_def\<close>)+
  then show "remains region r = [r] \<and> \<not> overlaps region r" using overlaps_iff[of r region, OF _ rg] by (simp add: remains_def Let_def)
qed

lemma concat_map_single: "(\<And>r. r \<in> set xs \<Longrightarrow> f r = [r] \<and> P r) \<Longrightarrow> concat (map f xs) = xs"
  by (induction xs) auto

lemma unmap_loop_set:
  assumes rg: "seg_l region \<le> seg_r region"
  shows "set_loop fuel (unmap_one readPages region) (first rest) (v, h) = Some (v', h') \<Longrightarrow>
    va_ok (pre @ rest) \<Longrightarrow> va_mappings v = pre @ rest \<Longrightarrow>
    va_mappings v' = pre @ concat (map (remains region) rest)"
proof (induction fuel arbitrary: pre rest v h)
  case 0
  then show ?case by (cases rest) (auto simp: first_def)
next
  case (Suc fuel)
  show ?case
  proof (cases rest)
    case Nil
    then show ?thesis using Suc.prems by (simp add: first_def)
  next
    case (Cons i post)
    then obtain it v1 h1 where u: "unmap_one readPages region i (v, h) = Some (it, v1, h1)"
        "set_loop fuel (unmap_one readPages region) it (v1, h1) = Some (v', h')"
      using Suc.prems(1) by (auto simp: first_def bind_eq_Some_iff)
    have ok: "va_ok (pre @ i # post)" using Suc.prems(2) Cons by simp
    note one = unmap_one_set[OF ok rg _ u(1)] and kk = remains_va_ok[OF ok rg]
    have m1: "va_mappings v1 = pre @ remains region i @ post" using one(1) Suc.prems(3) Cons by simp
    have same: "concat (map (remains region) (remains region i)) = remains region i"
      using kk(2) by (rule concat_map_single)
    show ?thesis
    proof (cases "overlaps region i")
      case True
      then have "set_loop fuel (unmap_one readPages region) (first (remains region i @ post)) (v1, h1) = Some (v', h')"
        using one(2) Suc.prems(3) Cons u(2) by simp
      from Suc.IH[OF this kk(1) m1] same Cons show ?thesis by simp
    next
      case False
      then have k: "remains region i = [i]" using overlaps_iff[OF va_ok_order(4)[OF ok] rg] by (simp add: remains_def Let_def)
      from False have "set_loop fuel (unmap_one readPages region) (first post) (v1, h1) = Some (v', h')"
        using one(2) Suc.prems(3) Cons u(2) by simp
      from Suc.IH[OF this, of "pre @ [i]"] m1 ok k Cons show ?thesis by simp
    qed
  qed
qed

lemma VMAR_unmap_set:
  assumes "VMAR_unmap readPages region (v, h) = Some (v', h')" "va_ok (va_mappings v)" "seg_l region \<le> seg_r region"
  shows "va_mappings v' = concat (map (remains region) (va_mappings v))"
  using unmap_loop_set[OF assms(3), of _ readPages "va_mappings v" v h v' h' "[]"] assms(1,2)
  by (simp add: VMAR_unmap_def over_set_def first_def)

lemma remains_pages:
  assumes "mp_ok i" "seg_l region \<le> seg_r region"
  shows "(\<exists>r \<in> set (remains region i). in_mapping p r) \<longleftrightarrow>
    in_mapping p i \<and> (\<not> overlaps region i \<or> seg_r region < p)"
  by (rule remains_cases[OF assms]) (auto simp: in_mapping_def overlaps_def)

text \<open>After \<open>unmap\<close> of a region no mapping of the set has a page of the region.  Of the other pages it keeps
  those of mappings it does not meet and those above the region; the pages below the region of a
  mapping that it cuts are lost from the set, because their slice has the key of the mapping it is
  cut from and is not inserted.
\<close>

theorem VMAR_unmap_pages:
  assumes "VMAR_unmap readPages region (v, h) = Some (v', h')" "va_ok (va_mappings v)" "seg_l region \<le> seg_r region"
  shows "(\<exists>m \<in> set (va_mappings v'). in_mapping p m) \<longleftrightarrow>
    (\<exists>m \<in> set (va_mappings v). in_mapping p m \<and> (\<not> overlaps region m \<or> seg_r region < p))"
proof -
  have "(\<exists>m \<in> set (va_mappings v'). in_mapping p m) \<longleftrightarrow>
      (\<exists>m \<in> set (va_mappings v). \<exists>r \<in> set (remains region m). in_mapping p r)"
    using VMAR_unmap_set[OF assms] by auto
  also have "\<dots> \<longleftrightarrow> (\<exists>m \<in> set (va_mappings v). in_mapping p m \<and> (\<not> overlaps region m \<or> seg_r region < p))"
    using remains_pages[OF va_ok_mp[OF assms(2)] assms(3)] by blast
  finally show ?thesis .
qed

text \<open>A mapping of the whole space from page 0: unmapping everything above page 0 loses page 0 too.\<close>

definition all_ex :: PageMapping where
  "all_ex = \<lparr>mp_vpn = 0, mp_len = 2 ^ 27, mp_offset = 0, mp_vmo = 0, mp_perm = 7, mp_mapping = Manon, mp_sharing = Privt\<rparr>"

lemma all_ex_end: "vend all_ex = 2 ^ 27 - 1"
  by (simp add: all_ex_def vend_def add64_def sub64_def)

lemma all_ex_unmap:
  assumes "pt_inv 2 st root F A" "10 \<le> card F" "pt_mem st root = (\<lambda>_. 0)"
  defines "v \<equiv> \<lparr>va_mappings = [all_ex], va_root = root\<rparr>"
    and "h \<equiv> \<lparr>vh_pt = st, vh_phys = (\<lambda>_. []), vh_pagers = Map.empty, vh_vmos = [0 \<mapsto> VMOPaged [Some 5] 0], vh_next = 1\<rparr>"
  shows "\<exists>v' h'. VMAR_unmap readPages \<lparr>seg_l = 1, seg_r = 2 ^ 27 - 1\<rparr> (v, h) = Some (v', h')"
proof -
  let ?rg = "\<lparr>seg_l = 1, seg_r = 2 ^ 27 - 1\<rparr>" and ?ov = "\<lparr>seg_l = (1::nat), seg_r = (2::nat) ^ 27 - 1\<rparr>"
  have ov: "Segment_and (vsegment all_ex) ?rg = ?ov"
    by (simp add: Segment_and_def vsegment_def all_ex_end) (simp add: all_ex_def)
  have lp: "left_part all_ex ?ov = \<lparr>seg_l = 0, seg_r = 0\<rparr>" "\<not> Segment_bool (right_part all_ex ?ov)"
    by (simp_all add: left_part_def right_part_def all_ex_end Segment_bool_def add64_def sub64_def) (simp add: all_ex_def)
  let ?l = "splitChild all_ex \<lparr>seg_l = 0, seg_r = 0\<rparr> 0"
  have l: "?l = all_ex\<lparr>mp_len := 1\<rparr>"
    by (simp add: splitChild_def all_ex_def Segment_length_def add64_def sub64_def)
  have ns: "nosplit 2 (pt_mem st) root 0 1" by (rule nosplit_aligned) simp
  obtain st1 F1 where st1: "PageTable_createMapping root 0 5 1 7 st = Some st1" "pt_inv 2 st1 root F1 (A \<union> (F - F1))"
    using createMapping_window[OF assms(1,2) _ _ _ perm_ok_7 ns, of 5] by auto
  have np: "nopart 2 (pt_mem st1) root 0 (2 ^ 27)" using nopart_full[of 0 2 "pt_mem st1" root] unfolding big_3 by simp
  obtain st2 where st2: "PageTable_removeMapping root 0 (2 ^ 27) st1 = Some st2"
    using removeMapping_window[OF st1(2) _ _ np] by auto
  let ?h1 = "h\<lparr>vh_pt := st1\<rparr>" and ?h2 = "h\<lparr>vh_pt := st2\<rparr>"
  have ml: "map_loop 1 readPages ?l 0 (v, h) = Some (v, ?h1)"
    using st1(1) unfolding l v_def h_def
    by (subst map_loop.simps)
       (simp add: all_ex_def mp_req_def VMO_req_def add64_def sub64_def rd_def va_createMapping_def map_loop_stop)
  have m1: "map_slice readPages all_ex (left_part all_ex ?ov) (v, h) = Some (v, ?h1)"
    using ml unfolding lp(1) by (simp add: map_slice_def Segment_bool_def VMAR_map_def l v_def)
  have m2: "va_removeMapping all_ex (v, ?h1) = Some (v, ?h2)"
    using st2 by (simp add: va_removeMapping_def v_def h_def all_ex_def)
  have "unmap_one readPages ?rg all_ex (v, h) = Some (va_erase 0 (v, ?h2))"
    unfolding unmap_one_def Let_def ov using m1 m2 lp(2)
    by (simp add: Segment_bool_def map_slice_def) (simp add: all_ex_def)
  moreover have "va_erase 0 (v, ?h2) = (None, v\<lparr>va_mappings := []\<rparr>, ?h2)"
    by (simp add: va_erase_def v_def next_after_def all_ex_def)
  ultimately show ?thesis
    by (simp add: VMAR_unmap_def over_set_def v_def numeral_3_eq_3)
qed

theorem VMAR_unmap_pages_witness:
  "\<exists>v h v' h'. VMAR_unmap (\<lambda>_ _. []) \<lparr>seg_l = 1, seg_r = 2 ^ 27 - 1\<rparr> (v, h) = Some (v', h')
     \<and> (\<exists>m \<in> set (va_mappings v). in_mapping 0 m) \<and> \<not> (\<exists>m \<in> set (va_mappings v'). in_mapping 0 m)"
proof -
  obtain st root F A where e: "pt_inv 2 st root F A" "10 \<le> card F" "pt_mem st root = (\<lambda>_. 0)" using pt_example[of 2] by blast
  let ?v = "\<lparr>va_mappings = [all_ex], va_root = root\<rparr>"
  let ?h = "\<lparr>vh_pt = st, vh_phys = (\<lambda>_. []), vh_pagers = Map.empty, vh_vmos = [0 \<mapsto> VMOPaged [Some 5] 0], vh_next = 1\<rparr>"
  obtain v' h' where u: "VMAR_unmap (\<lambda>_ _. []) \<lparr>seg_l = 1, seg_r = 2 ^ 27 - 1\<rparr> (?v, ?h) = Some (v', h')"
    using all_ex_unmap[OF e] by blast
  have ok: "va_ok (va_mappings ?v)" by (simp add: mp_ok_def all_ex_def)
  have "\<not> (\<exists>m \<in> set (va_mappings v'). in_mapping 0 m)"
    unfolding VMAR_unmap_pages[OF u ok, simplified]
    by (simp add: overlaps_def all_ex_end) (simp add: all_ex_def)
  moreover have "in_mapping 0 all_ex" by (simp add: in_mapping_def all_ex_def)
  ultimately show ?thesis using u by (intro exI[of _ ?v] exI[of _ ?h] exI[of _ v'] exI[of _ h']) simp
qed

end
