(* ===== verification/Bio.thy ===== *)
theory Bio
  imports Klib
begin

text \<open>
  The block cache of \<open>include/bio.hh\<close> and \<open>kernel/fs/bio.cc\<close>.

  A \<open>BlockBuf\<close> is one object of the heap \<open>bufs\<close>; its data is a list of 512 bytes.  \<open>shared_lru\<close>
  keeps the list \<open>lru\<close> of strong references, most recent first, and the table \<open>active\<close> that maps
  a key to a weak reference and an iterator into the list.  A list node carries an identity, so an
  iterator is either the identity of a node or \<open>lru.end()\<close> (\<open>None\<close>).  The strong references that
  clients hold are counted in \<open>holds\<close>.  When the last strong reference to a buffer goes, the
  deleter erases the key from \<open>active\<close> and destroys the buffer, which writes it to the disk.

  The disk is a map from sector numbers to sectors: \<open>virtio_disk_rw\<close> transfers the whole buffer to
  or from sector \<open>key.secno\<close> and does not look at \<open>key.dev\<close>.  The descriptor ring and the
  interrupt of the transfer are not modelled, nor is the semaphore \<open>freecache.sema\<close>, which nothing waits for.
\<close>

record BlockKey =
  key_dev :: nat
  secno :: nat

definition blockSize :: nat where
  "blockSize = 512"

record BlockBuf =
  key :: BlockKey
  dirty :: bool
  d :: "byte list"

record BCache =
  bufs :: "nat \<Rightarrow> BlockBuf option"
  active :: "BlockKey \<Rightarrow> (nat \<times> nat option) option"
  lru :: "(nat \<times> BlockKey \<times> nat) list"
  capacity :: nat
  holds :: "nat \<Rightarrow> nat"
  disk :: "nat \<Rightarrow> byte list"
  bufsCreated :: nat
  bufsDestructed :: nat
  nodesCreated :: nat

definition defaultSize :: nat where
  "defaultSize = 128"

definition BCacheMgr_init :: "nat \<Rightarrow> (nat \<Rightarrow> byte list) \<Rightarrow> BCache" where
  "BCacheMgr_init cap dk = \<lparr>bufs = (\<lambda>_. None), active = (\<lambda>_. None), lru = [], capacity = cap,
    holds = (\<lambda>_. 0), disk = dk, bufsCreated = 0, bufsDestructed = 0,
    nodesCreated = 0\<rparr>"

definition bio_init :: "(nat \<Rightarrow> byte list) \<Rightarrow> BCache" where
  "bio_init dk = BCacheMgr_init defaultSize dk"

subsection \<open>Buffers\<close>

definition reload :: "BCache \<Rightarrow> BlockBuf \<Rightarrow> BlockBuf" where
  "reload s b = b\<lparr>d := disk s (secno (key b))\<rparr>"

definition flush :: "BCache \<Rightarrow> BlockBuf \<Rightarrow> BCache" where
  "flush s b = s\<lparr>disk := (disk s)(secno (key b) := d b)\<rparr>"

definition BlockBuf_new :: "BCache \<Rightarrow> BlockKey \<Rightarrow> BCache \<times> nat" where
  "BlockBuf_new s k = (let i = bufsCreated s;
      b = reload s \<lparr>key = k, dirty = False, d = []\<rparr>
    in (s\<lparr>bufs := (bufs s)(i := Some b), bufsCreated := Suc i\<rparr>, i))"

definition BlockBuf_delete :: "BCache \<Rightarrow> nat \<Rightarrow> BCache" where
  "BlockBuf_delete s i = (case bufs s i of None \<Rightarrow> s
    | Some b \<Rightarrow> (flush s b)\<lparr>bufs := (bufs s)(i := None), bufsDestructed := Suc (bufsDestructed s)\<rparr>)"

definition buf_write :: "BCache \<Rightarrow> nat \<Rightarrow> byte list \<Rightarrow> BCache" where
  "buf_write s i v = s\<lparr>bufs := (bufs s)(i := map_option (\<lambda>b. b\<lparr>d := v, dirty := True\<rparr>) (bufs s i))\<rparr>"

definition buf_clear :: "BCache \<Rightarrow> nat \<Rightarrow> BCache" where
  "buf_clear s i = buf_write s i (replicate blockSize 0)"

subsection \<open>References and the list\<close>

definition lru_refs :: "BCache \<Rightarrow> nat \<Rightarrow> bool" where
  "lru_refs s i = (i \<in> (snd \<circ> snd) ` set (lru s))"

text \<open>What a strong reference does when it goes: the deleter runs when it was the last one.\<close>

definition drop_last :: "BCache \<Rightarrow> BlockKey \<Rightarrow> nat \<Rightarrow> BCache" where
  "drop_last s k i = (if 0 < holds s i \<or> lru_refs s i then s
    else BlockBuf_delete (s\<lparr>active := (active s)(k := None)\<rparr>) i)"

definition reserve :: "BCache \<Rightarrow> BCache option" where
  "reserve s = (if length (lru s) > capacity s
    then (let (n, k, i) = last (lru s) in
      case active s k of None \<Rightarrow> None
      | Some (j, it) \<Rightarrow> Some (drop_last (s\<lparr>active := (active s)(k \<mapsto> (j, None)), lru := butlast (lru s)\<rparr>) k i))
    else Some s)"

definition push_front :: "BCache \<Rightarrow> BlockKey \<Rightarrow> nat \<Rightarrow> BCache" where
  "push_front s k i = s\<lparr>lru := (nodesCreated s, k, i) # lru s,
    active := (active s)(k \<mapsto> (i, Some (nodesCreated s))), nodesCreated := Suc (nodesCreated s)\<rparr>"

definition hold :: "BCache \<Rightarrow> nat \<Rightarrow> BCache" where
  "hold s i = s\<lparr>holds := (holds s)(i := Suc (holds s i))\<rparr>"

text \<open>
  The result is the reference handed to the client, which is counted in \<open>holds\<close>.  Erasing
  \<open>lru.end()\<close> is undefined behaviour of the list, hence \<open>None\<close>.
\<close>

definition getOrSet :: "BCache \<Rightarrow> BlockKey \<Rightarrow> (BCache \<times> nat) option" where
  "getOrSet s k = (case active s k of
      Some (i, it) \<Rightarrow> (case it of None \<Rightarrow> None
        | Some n \<Rightarrow> Some (push_front (hold (s\<lparr>lru := filter (\<lambda>e. fst e \<noteq> n) (lru s)\<rparr>) i) k i, i))
    | None \<Rightarrow> do {
        s1 \<leftarrow> reserve s;
        let (s2, i) = BlockBuf_new s1 k;
        Some (push_front (hold s2 i) k i, i)
      })"

definition bc_contains :: "BCache \<Rightarrow> BlockKey \<Rightarrow> bool" where
  "bc_contains s k = (active s k \<noteq> None)"

definition bcache_at :: "BCache \<Rightarrow> nat \<Rightarrow> nat \<Rightarrow> (BCache \<times> nat) option" where
  "bcache_at s dev sec = getOrSet s \<lparr>key_dev = dev, secno = sec\<rparr>"

definition release :: "BCache \<Rightarrow> nat \<Rightarrow> BCache" where
  "release s i = (case bufs s i of None \<Rightarrow> s
    | Some b \<Rightarrow> drop_last (s\<lparr>holds := (holds s)(i := holds s i - 1)\<rparr>) (key b) i)"

end
