(* ===== verification/BioSpec.thy ===== *)
theory BioSpec
  imports Bio
begin

text \<open>
  The block cache against its contract: clients of one device see one memory of sectors.

  \<open>view\<close> is that memory, \<open>bc_inv\<close> the invariant of the cache; \<open>bc_step\<close> is what clients do, in any
  order and with any number of references held, together with the memory they expect.
\<close>

definition view :: "nat \<Rightarrow> BCache \<Rightarrow> nat \<Rightarrow> byte list" where
  "view dv s n = (case active s \<lparr>key_dev = dv, secno = n\<rparr> of None \<Rightarrow> disk s n | Some (i, it) \<Rightarrow> d (the (bufs s i)))"

definition bufs_ok :: "nat \<Rightarrow> BCache \<Rightarrow> bool" where
  "bufs_ok dv s = (\<forall>i b. bufs s i = Some b \<longrightarrow>
    i < bufsCreated s \<and> key_dev (key b) = dv \<and> (\<exists>it. active s (key b) = Some (i, it)))"

definition active_ok :: "BCache \<Rightarrow> bool" where
  "active_ok s = (\<forall>k i it. active s k = Some (i, it) \<longrightarrow> (\<exists>b. bufs s i = Some b \<and> key b = k))"

definition lru_ok :: "BCache \<Rightarrow> bool" where
  "lru_ok s = (distinct (map fst (lru s)) \<and> (\<forall>e \<in> set (lru s). fst e < nodesCreated s) \<and>
    (\<forall>k i n. active s k = Some (i, Some n) \<longleftrightarrow> (n, k, i) \<in> set (lru s)))"

definition held_ok :: "nat set \<Rightarrow> BCache \<Rightarrow> bool" where
  "held_ok X s = (\<forall>i. i \<notin> X \<longrightarrow> (bufs s i \<noteq> None \<longleftrightarrow> 0 < holds s i \<or> lru_refs s i))"

definition bc_inv :: "nat \<Rightarrow> BCache \<Rightarrow> bool" where
  "bc_inv dv s = (bufs_ok dv s \<and> active_ok s \<and> lru_ok s \<and> held_ok {} s)"

inductive bc_step :: "nat \<Rightarrow> BCache \<times> (nat \<Rightarrow> byte list) \<Rightarrow> BCache \<times> (nat \<Rightarrow> byte list) \<Rightarrow> bool" where
  get: "bcache_at s dv n = Some (s', i) \<Longrightarrow> bc_step dv (s, m) (s', m)"
| upd: "bufs s i = Some b \<Longrightarrow> bc_step dv (s, m) (buf_write s i v, m(secno (key b) := v))"
| rel: "0 < holds s i \<Longrightarrow> bc_step dv (s, m) (release s i, m)"

inductive bc_reach :: "nat \<Rightarrow> (nat \<Rightarrow> byte list) \<Rightarrow> BCache \<times> (nat \<Rightarrow> byte list) \<Rightarrow> bool" where
  init: "bc_reach dv dk (BCacheMgr_init cap dk, dk)"
| step: "bc_reach dv dk x \<Longrightarrow> bc_step dv x y \<Longrightarrow> bc_reach dv dk y"

lemmas bc_inv_defs = bufs_ok_def active_ok_def lru_ok_def held_ok_def

subsection \<open>The operations keep the invariant and the memory\<close>

lemma init_inv: "bc_inv dv (BCacheMgr_init cap dk)"
  by (simp add: bc_inv_def bc_inv_defs BCacheMgr_init_def lru_refs_def)

lemma init_view: "view dv (BCacheMgr_init cap dk) = dk"
  by (simp add: view_def BCacheMgr_init_def fun_eq_iff)

lemma delete_inv:
  assumes "bufs_ok dv s" "active_ok s" "lru_ok s" "held_ok {i} s" and b: "bufs s i = Some b"
    and free: "holds s i = 0" "\<not> lru_refs s i"
  shows "bc_inv dv (BlockBuf_delete (s\<lparr>active := (active s)(key b := None)\<rparr>) i)" (is "bc_inv dv ?t")
proof -
  obtain it where a: "active s (key b) = Some (i, it)" using assms(1) b by (fastforce simp: bufs_ok_def)
  have uniq: "active s k = Some (i, x) \<Longrightarrow> k = key b" for k x
    using assms(2) b by (fastforce simp: active_ok_def)
  have other: "bufs s j = Some c \<Longrightarrow> key c = key b \<Longrightarrow> j = i" for j c
    using assms(1) a by (fastforce simp: bufs_ok_def)
  have t: "bufs ?t = (bufs s)(i := None)" "active ?t = (active s)(key b := None)" "lru ?t = lru s"
      "bufsCreated ?t = bufsCreated s" "nodesCreated ?t = nodesCreated s" "holds ?t = holds s"
    using b by (simp_all add: BlockBuf_delete_def flush_def)
  have "bufs_ok dv ?t" unfolding bufs_ok_def t
  proof (intro allI impI)
    fix j c assume c: "((bufs s)(i := None)) j = Some c"
    hence "j \<noteq> i" "bufs s j = Some c" by (auto split: if_splits)
    moreover from this have "key c \<noteq> key b" using other by blast
    ultimately show "j < bufsCreated s \<and> key_dev (key c) = dv \<and> (\<exists>it. ((active s)(key b := None)) (key c) = Some (j, it))"
      using assms(1) by (simp add: bufs_ok_def)
  qed
  moreover have "active_ok ?t" unfolding active_ok_def t
  proof (intro allI impI)
    fix k j it' assume "((active s)(key b := None)) k = Some (j, it')"
    hence k: "k \<noteq> key b" "active s k = Some (j, it')" by (auto split: if_splits)
    hence "j \<noteq> i" using uniq by blast
    thus "\<exists>c. ((bufs s)(i := None)) j = Some c \<and> key c = k" using assms(2) k by (simp add: active_ok_def)
  qed
  moreover have gone: "(n, key b, j) \<notin> set (lru s)" for n j
  proof
    assume m: "(n, key b, j) \<in> set (lru s)"
    hence "active s (key b) = Some (j, Some n)" using assms(3) by (simp add: lru_ok_def)
    hence "j = i" using a by simp
    thus False using m free(2) by (force simp: lru_refs_def image_iff)
  qed
  have "lru_ok ?t" using assms(3) gone by (simp add: lru_ok_def t)
  moreover have "held_ok {} ?t" using assms(4) b free
    by (auto simp: held_ok_def t lru_refs_def)
  ultimately show ?thesis by (simp add: bc_inv_def)
qed

lemma delete_view:
  assumes "bufs_ok dv s" "active_ok s" and b: "bufs s i = Some b"
  shows "view dv (BlockBuf_delete (s\<lparr>active := (active s)(key b := None)\<rparr>) i) = view dv s"
proof -
  obtain it where a: "active s (key b) = Some (i, it)" and dv: "key_dev (key b) = dv"
    using assms(1) b by (fastforce simp: bufs_ok_def)
  have uniq: "active s k = Some (i, x) \<Longrightarrow> k = key b" for k x
    using assms(2) b by (fastforce simp: active_ok_def)
  have kb: "key b = \<lparr>key_dev = dv, secno = secno (key b)\<rparr>" using dv by simp
  show ?thesis
  proof
    fix n
    show "view dv (BlockBuf_delete (s\<lparr>active := (active s)(key b := None)\<rparr>) i) n = view dv s n"
    proof (cases "n = secno (key b)")
      case True
      thus ?thesis using a b kb by (simp add: view_def BlockBuf_delete_def flush_def)
    next
      case False
      hence "\<lparr>key_dev = dv, secno = n\<rparr> \<noteq> key b" by (metis BlockKey.select_convs(2))
      thus ?thesis using uniq b False
        by (auto simp: view_def BlockBuf_delete_def flush_def split: option.splits)
    qed
  qed
qed

lemma drop_last_ok:
  assumes "bufs_ok dv s" "active_ok s" "lru_ok s" "held_ok {i} s" and b: "bufs s i = Some b"
  shows "bc_inv dv (drop_last s (key b) i)" and "view dv (drop_last s (key b) i) = view dv s"
    and "active (drop_last s (key b) i) k = None \<or> active (drop_last s (key b) i) k = active s k"
    and "\<not> (0 < holds s i) \<Longrightarrow> \<not> lru_refs s i \<Longrightarrow> active (drop_last s (key b) i) (key b) = None"
proof -
  show "bc_inv dv (drop_last s (key b) i)"
  proof (cases "0 < holds s i \<or> lru_refs s i")
    case True
    hence "held_ok {} s" using assms(4) b by (metis empty_iff held_ok_def insert_iff option.distinct(1))
    thus ?thesis using True assms by (simp add: drop_last_def bc_inv_def)
  next
    case False
    thus ?thesis using delete_inv[OF assms] by (simp add: drop_last_def)
  qed
  show "view dv (drop_last s (key b) i) = view dv s"
    using delete_view[OF assms(1,2) b] by (simp add: drop_last_def)
  show "active (drop_last s (key b) i) k = None \<or> active (drop_last s (key b) i) k = active s k"
    using b by (simp add: drop_last_def BlockBuf_delete_def flush_def)
  show "\<not> (0 < holds s i) \<Longrightarrow> \<not> lru_refs s i \<Longrightarrow> active (drop_last s (key b) i) (key b) = None"
    using b by (simp add: drop_last_def BlockBuf_delete_def flush_def)
qed

lemma reserve_ok:
  assumes inv: "bc_inv dv s" and r: "reserve s = Some s'"
  shows "bc_inv dv s' \<and> view dv s' = view dv s \<and> (\<forall>k. active s k = None \<longrightarrow> active s' k = None)"
proof (cases "length (lru s) > capacity s")
  case False
  thus ?thesis using inv r by (simp add: reserve_def)
next
  case True
  hence ne: "lru s \<noteq> []" by auto
  obtain n k i where l: "last (lru s) = (n, k, i)" by (cases "last (lru s)")
  have lru: "lru s = butlast (lru s) @ [(n, k, i)]" using ne l by (metis append_butlast_last_id)
  hence mem: "(n, k, i) \<in> set (lru s)" by (metis in_set_conv_decomp)
  have ok: "bufs_ok dv s" "active_ok s" "lru_ok s" "held_ok {} s" using inv by (simp_all add: bc_inv_def)
  have a: "active s k = Some (i, Some n)" using ok(3) mem by (simp add: lru_ok_def)
  obtain b where b: "bufs s i = Some b" "key b = k" using ok(2) a by (fastforce simp: active_ok_def)
  define t where "t = s\<lparr>active := (active s)(k \<mapsto> (i, None)), lru := butlast (lru s)\<rparr>"
  have s': "s' = drop_last t (key b) i"
    using r True l a b(2) by (simp add: reserve_def t_def)
  have t1: "bufs_ok dv t" using ok(1) a by (fastforce simp: bufs_ok_def t_def)
  have t2: "active_ok t" using ok(2) b by (fastforce simp: active_ok_def t_def)
  have dist: "distinct (map fst (butlast (lru s)) @ [n])"
  proof -
    have "distinct (map fst (butlast (lru s) @ [(n, k, i)]))" using ok(3) lru by (simp only: lru_ok_def)
    thus ?thesis by simp
  qed
  have set: "x \<in> set (lru s) \<longleftrightarrow> x \<in> set (butlast (lru s)) \<or> x = (n, k, i)" for x
    by (subst lru) auto
  have t3: "lru_ok t"
    unfolding lru_ok_def
  proof (intro conjI allI ballI)
    show "distinct (map fst (lru t))" using dist by (simp add: t_def)
    show "fst e < nodesCreated t" if "e \<in> set (lru t)" for e
      using that ok(3) by (auto simp: t_def lru_ok_def dest: in_set_butlastD)
    show "(active t k' = Some (i', Some n')) = ((n', k', i') \<in> set (lru t))" for k' i' n'
    proof (cases "k' = k")
      case True
      have "(n', k, i') \<notin> set (butlast (lru s))"
      proof
        assume m: "(n', k, i') \<in> set (butlast (lru s))"
        hence "active s k = Some (i', Some n')" using ok(3) set by (simp add: lru_ok_def)
        hence "n' = n" using a by simp
        thus False using m dist by force
      qed
      thus ?thesis using True by (simp add: t_def)
    next
      case False
      have "(active s k' = Some (i', Some n')) = ((n', k', i') \<in> set (lru s))"
        using ok(3) unfolding lru_ok_def by blast
      thus ?thesis using False by (simp add: t_def set)
    qed
  qed
  have t4: "held_ok {i} t" using ok(4) set by (fastforce simp: held_ok_def t_def lru_refs_def image_iff)
  have tv: "view dv t = view dv s" using a by (auto simp: view_def t_def fun_eq_iff split: option.split)
  have tn: "active t k' = None \<longleftrightarrow> active s k' = None" for k' using a by (simp add: t_def)
  have tb: "bufs t i = Some b" using b(1) by (simp add: t_def)
  note dl = drop_last_ok[OF t1 t2 t3 t4 tb]
  have "active s' k' = None" if "active s k' = None" for k'
    using dl(3)[of k'] tn[of k'] that unfolding s' by (elim disjE) simp_all
  thus ?thesis using dl(1,2) tv unfolding s' by simp
qed

lemma reserve_total:
  assumes inv: "bc_inv dv s"
  shows "\<exists>s'. reserve s = Some s'"
proof (cases "length (lru s) > capacity s")
  case True
  hence "last (lru s) \<in> set (lru s)" by (intro last_in_set) auto
  moreover obtain n k i where l: "last (lru s) = (n, k, i)" by (cases "last (lru s)")
  ultimately have "active s k = Some (i, Some n)" using inv by (simp add: bc_inv_def lru_ok_def)
  thus ?thesis using True l by (simp add: reserve_def)
qed (simp add: reserve_def)

lemma hit_ok:
  assumes inv: "bc_inv dv s" and a: "active s k = Some (i, Some n)"
  defines "t \<equiv> push_front (hold (s\<lparr>lru := filter (\<lambda>e. fst e \<noteq> n) (lru s)\<rparr>) i) k i"
  shows "bc_inv dv t \<and> view dv t = view dv s"
proof -
  have ok: "bufs_ok dv s" "active_ok s" "lru_ok s" "held_ok {} s" using inv by (simp_all add: bc_inv_def)
  have t: "bufs t = bufs s" "disk t = disk s" "active t = (active s)(k \<mapsto> (i, Some (nodesCreated s)))"
      "lru t = (nodesCreated s, k, i) # filter (\<lambda>e. fst e \<noteq> n) (lru s)" "bufsCreated t = bufsCreated s"
      "nodesCreated t = Suc (nodesCreated s)" "holds t = (holds s)(i := Suc (holds s i))"
    by (simp_all add: t_def push_front_def hold_def)
  have mem: "(n', k', i') \<in> set (lru s) \<longleftrightarrow> active s k' = Some (i', Some n')" for n' k' i'
    using ok(3) unfolding lru_ok_def by blast
  have new: "(nodesCreated s, k', i') \<notin> set (lru s)" for k' i' using ok(3) by (force simp: lru_ok_def)
  have owner: "active s k' = Some (i', Some n) \<Longrightarrow> k' = k" for k' i'
  proof -
    assume "active s k' = Some (i', Some n)"
    hence "(n, k', i') \<in> set (lru s)" "(n, k, i) \<in> set (lru s)" using mem a by simp_all
    moreover have "inj_on fst (set (lru s))" using ok(3) by (simp add: lru_ok_def distinct_map)
    ultimately show "k' = k" by (metis fst_conv inj_onD prod.inject)
  qed
  obtain b where b: "bufs s i = Some b" "key b = k" using ok(2) a by (fastforce simp: active_ok_def)
  have "bufs_ok dv t" using ok(1) b a by (fastforce simp: bufs_ok_def t)
  moreover have "active_ok t" using ok(2) b by (simp add: active_ok_def t)
  moreover have "lru_ok t" unfolding lru_ok_def t
  proof (intro conjI allI)
    show "distinct (map fst ((nodesCreated s, k, i) # filter (\<lambda>e. fst e \<noteq> n) (lru s)))"
      using ok(3) by (auto simp: lru_ok_def distinct_map_filter)
    show "\<forall>e\<in>set ((nodesCreated s, k, i) # filter (\<lambda>e. fst e \<noteq> n) (lru s)). fst e < Suc (nodesCreated s)"
      using ok(3) by (auto simp: lru_ok_def less_Suc_eq)
    show "(((active s)(k \<mapsto> (i, Some (nodesCreated s)))) k' = Some (i', Some n')) =
        ((n', k', i') \<in> set ((nodesCreated s, k, i) # filter (\<lambda>e. fst e \<noteq> n) (lru s)))" for k' i' n'
    proof (cases "k' = k")
      case True
      thus ?thesis using a by (auto simp: mem)
    next
      case False
      thus ?thesis using owner by (auto simp: mem)
    qed
  qed
  moreover have "held_ok {} t" unfolding held_ok_def
  proof (intro allI impI)
    fix j
    have "lru_refs t j \<longleftrightarrow> j = i \<or> lru_refs s j"
    proof
      assume "lru_refs t j"
      thus "j = i \<or> lru_refs s j" by (force simp: lru_refs_def t image_iff)
    next
      assume "j = i \<or> lru_refs s j"
      thus "lru_refs t j"
      proof
        assume "lru_refs s j"
        then obtain n' k' where m: "(n', k', j) \<in> set (lru s)" by (auto simp: lru_refs_def)
        show ?thesis
        proof (cases "n' = n")
          case True
          hence "active s k' = Some (j, Some n)" using m mem by simp
          hence "j = i" using owner[of k' j] a by simp
          thus ?thesis by (simp add: lru_refs_def t)
        qed (use m in \<open>force simp: lru_refs_def t\<close>)
      qed (simp add: lru_refs_def t)
    qed
    moreover have "bufs s j \<noteq> None \<longleftrightarrow> 0 < holds s j \<or> lru_refs s j" using ok(4) by (simp add: held_ok_def)
    ultimately show "(bufs t j \<noteq> None) = (0 < holds t j \<or> lru_refs t j)" using b by (cases "j = i") (simp_all add: t)
  qed
  moreover have "view dv t = view dv s" using a by (auto simp: view_def t fun_eq_iff split: option.split)
  ultimately show ?thesis by (simp add: bc_inv_def)
qed

lemma miss_ok:
  assumes inv: "bc_inv dv s" and a: "active s k = None" and dv: "key_dev k = dv"
    and new: "BlockBuf_new s k = (s2, i)"
  shows "bc_inv dv (push_front (hold s2 i) k i) \<and> view dv (push_front (hold s2 i) k i) = view dv s"
proof -
  have ok: "bufs_ok dv s" "active_ok s" "lru_ok s" "held_ok {} s" using inv by (simp_all add: bc_inv_def)
  define t where "t = push_front (hold s2 i) k i"
  have i: "i = bufsCreated s" using new by (simp add: BlockBuf_new_def Let_def)
  have fresh: "bufs s i = None" using ok(1) i by (metis bufs_ok_def less_irrefl not_None_eq)
  have t: "bufs t = (bufs s)(i \<mapsto> \<lparr>key = k, dirty = False, d = disk s (secno k)\<rparr>)" "disk t = disk s"
      "active t = (active s)(k \<mapsto> (i, Some (nodesCreated s)))"
      "lru t = (nodesCreated s, k, i) # lru s" "bufsCreated t = Suc (bufsCreated s)"
      "nodesCreated t = Suc (nodesCreated s)" "holds t = (holds s)(i := Suc (holds s i))"
    using new by (auto simp: t_def push_front_def hold_def BlockBuf_new_def Let_def reload_def)
  have mem: "(n', k', i') \<in> set (lru s) \<longleftrightarrow> active s k' = Some (i', Some n')" for n' k' i'
    using ok(3) unfolding lru_ok_def by blast
  have ne: "active s k' = Some (i', it) \<Longrightarrow> i' \<noteq> i" for k' i' it
    using ok(2) fresh by (fastforce simp: active_ok_def)
  have "bufs_ok dv t" unfolding bufs_ok_def t
  proof (intro allI impI)
    fix j c assume c: "((bufs s)(i \<mapsto> \<lparr>key = k, dirty = False, d = disk s (secno k)\<rparr>)) j = Some c"
    show "j < Suc (bufsCreated s) \<and> key_dev (key c) = dv \<and>
        (\<exists>it. ((active s)(k \<mapsto> (i, Some (nodesCreated s)))) (key c) = Some (j, it))"
    proof (cases "j = i")
      case True
      thus ?thesis using c dv i by auto
    next
      case False
      hence "bufs s j = Some c" using c by simp
      moreover from this obtain it where "active s (key c) = Some (j, it)" "j < bufsCreated s" "key_dev (key c) = dv"
        using ok(1) unfolding bufs_ok_def by blast
      ultimately show ?thesis using a by auto
    qed
  qed
  moreover have "active_ok t" using ok(2) ne unfolding active_ok_def t
    by (metis BlockBuf.select_convs(1) fun_upd_apply option.inject prod.inject)
  moreover have "lru_ok t" unfolding lru_ok_def t
  proof (intro conjI allI)
    show "distinct (map fst ((nodesCreated s, k, i) # lru s))" using ok(3) by (auto simp: lru_ok_def)
    show "\<forall>e\<in>set ((nodesCreated s, k, i) # lru s). fst e < Suc (nodesCreated s)"
      using ok(3) by (auto simp: lru_ok_def less_Suc_eq)
    show "(((active s)(k \<mapsto> (i, Some (nodesCreated s)))) k' = Some (i', Some n')) =
        ((n', k', i') \<in> set ((nodesCreated s, k, i) # lru s))" for k' i' n'
      using a by (cases "k' = k") (auto simp: mem)
  qed
  moreover have "held_ok {} t" using ok(4) by (auto simp: held_ok_def t lru_refs_def)
  moreover have "view dv t = view dv s"
  proof
    fix m show "view dv t m = view dv s m"
    proof (cases "\<lparr>key_dev = dv, secno = m\<rparr> = k")
      case True
      hence "secno k = m" by (metis BlockKey.select_convs(2))
      thus ?thesis using True a by (simp add: view_def t)
    next
      case False
      thus ?thesis using ne by (auto simp: view_def t split: option.split)
    qed
  qed
  ultimately show ?thesis by (simp add: bc_inv_def t_def)
qed

lemma getOrSet_ok:
  assumes inv: "bc_inv dv s" and dv: "key_dev k = dv" and g: "getOrSet s k = Some (s', i)"
  shows "bc_inv dv s' \<and> view dv s' = view dv s \<and>
    (\<exists>b. bufs s' i = Some b \<and> key b = k \<and> d b = view dv s (secno k)) \<and> 0 < holds s' i"
proof -
  have *: "bc_inv dv s' \<and> view dv s' = view dv s \<and> (\<exists>it. active s' k = Some (i, it)) \<and> 0 < holds s' i"
  proof (cases "active s k")
    case None
    then obtain s1 s2 where s: "reserve s = Some s1" "BlockBuf_new s1 k = (s2, i)" "s' = push_front (hold s2 i) k i"
      using g by (auto simp: getOrSet_def bind_eq_Some_iff Let_def case_prod_unfold intro: prod.collapse[symmetric])
    have s1: "bc_inv dv s1" "view dv s1 = view dv s" "active s1 k = None"
      using reserve_ok[OF inv s(1)] None by blast+
    show ?thesis using miss_ok[OF s1(1,3) dv s(2)] s1(2) s(3) by (simp add: push_front_def hold_def)
  next
    case (Some x)
    then obtain n where n: "active s k = Some (i, Some n)"
      "s' = push_front (hold (s\<lparr>lru := filter (\<lambda>e. fst e \<noteq> n) (lru s)\<rparr>) i) k i"
      using g by (cases x) (auto simp: getOrSet_def split: option.splits)
    show ?thesis using hit_ok[OF inv n(1)] n(2) by (simp add: push_front_def hold_def)
  qed
  then obtain it where a: "active s' k = Some (i, it)" by blast
  moreover obtain b where b: "bufs s' i = Some b" "key b = k"
    using * a unfolding bc_inv_def active_ok_def by blast
  moreover have "k = \<lparr>key_dev = dv, secno = secno k\<rparr>" using dv by simp
  hence "view dv s' (secno k) = d b" using a b(1) by (simp add: view_def)
  ultimately show ?thesis using * by metis
qed

lemma getOrSet_None_iff:
  assumes inv: "bc_inv dv s"
  shows "getOrSet s k = None \<longleftrightarrow> (\<exists>i. active s k = Some (i, None))"
  using reserve_total[OF inv] by (auto simp: getOrSet_def Let_def split: option.splits prod.splits)

lemma write_ok:
  assumes inv: "bc_inv dv s" and b: "bufs s i = Some b"
  shows "bc_inv dv (buf_write s i v) \<and> view dv (buf_write s i v) = (view dv s)(secno (key b) := v)"
proof -
  have ok: "bufs_ok dv s" "active_ok s" "lru_ok s" "held_ok {} s" using inv by (simp_all add: bc_inv_def)
  define t where "t = buf_write s i v"
  have t: "bufs t = (bufs s)(i \<mapsto> b\<lparr>d := v, dirty := True\<rparr>)" "disk t = disk s" "active t = active s"
      "lru t = lru s" "bufsCreated t = bufsCreated s" "nodesCreated t = nodesCreated s" "holds t = holds s"
    using b by (auto simp: t_def buf_write_def)
  obtain it where a: "active s (key b) = Some (i, it)" and dv: "key_dev (key b) = dv"
    using ok(1) b unfolding bufs_ok_def by blast
  have kb: "key b = \<lparr>key_dev = dv, secno = secno (key b)\<rparr>" using dv by simp
  have "bufs_ok dv t" using ok(1) b by (auto simp: bufs_ok_def t)
  moreover have "active_ok t" using ok(2) b by (fastforce simp: active_ok_def t)
  moreover have "lru_ok t" using ok(3) by (simp add: lru_ok_def t)
  moreover have "held_ok {} t" using ok(4) b by (auto simp: held_ok_def t lru_refs_def)
  moreover have "view dv t m = ((view dv s)(secno (key b) := v)) m" for m
  proof (cases "m = secno (key b)")
    case True
    have "active s \<lparr>key_dev = dv, secno = m\<rparr> = Some (i, it)" unfolding True kb[symmetric] by (rule a)
    thus ?thesis using True by (simp add: view_def t)
  next
    case False
    hence "active s \<lparr>key_dev = dv, secno = m\<rparr> = Some (j, it') \<Longrightarrow> j \<noteq> i" for j it'
      using ok(2) b unfolding active_ok_def by (metis BlockKey.select_convs(2) option.inject)
    thus ?thesis using False by (auto simp: view_def t split: option.split)
  qed
  ultimately show ?thesis by (auto simp: bc_inv_def t_def)
qed

lemma release_ok:
  assumes inv: "bc_inv dv s" and h: "0 < holds s i"
  shows "bc_inv dv (release s i) \<and> view dv (release s i) = view dv s"
proof -
  have ok: "bufs_ok dv s" "active_ok s" "lru_ok s" "held_ok {} s" using inv by (simp_all add: bc_inv_def)
  obtain b where b: "bufs s i = Some b" using ok(4) h by (auto simp: held_ok_def)
  define t where "t = s\<lparr>holds := (holds s)(i := holds s i - 1)\<rparr>"
  have t1: "bufs_ok dv t" using ok(1) by (simp add: bufs_ok_def t_def)
  have t2: "active_ok t" using ok(2) by (simp add: active_ok_def t_def)
  have t3: "lru_ok t" using ok(3) by (simp add: lru_ok_def t_def)
  have t4: "held_ok {i} t" using ok(4) by (simp add: held_ok_def t_def lru_refs_def)
  have tb: "bufs t i = Some b" using b by (simp add: t_def)
  have "view dv t = view dv s" by (simp add: view_def t_def fun_eq_iff split: option.split)
  moreover have "release s i = drop_last t (key b) i" using b by (simp add: release_def t_def)
  ultimately show ?thesis using drop_last_ok(1,2)[OF t1 t2 t3 t4 tb] by simp
qed

lemma reach_ok: "bc_reach dv dk x \<Longrightarrow> bc_inv dv (fst x) \<and> view dv (fst x) = snd x"
proof (induction rule: bc_reach.induct)
  case (init dv dk cap)
  thus ?case by (simp add: init_inv init_view)
next
  case (step dv dk x y)
  from step.hyps(2) show ?case
  proof cases
    case (get s n s' i m)
    thus ?thesis using step.IH getOrSet_ok[of dv s "\<lparr>key_dev = dv, secno = n\<rparr>" s' i]
      by (simp add: bcache_at_def)
  next
    case (upd s i b m v)
    thus ?thesis using step.IH write_ok[of dv s i b v] by simp
  next
    case (rel s i m)
    thus ?thesis using step.IH release_ok[of dv s i] by simp
  qed
qed

subsection \<open>Properties\<close>

text \<open>C39: Whatever clients of one device do with the cache - look sectors up, write through the
  references they hold, release them, in any order and with any number held - a buffer the cache hands
  out holds what was last written to its sector, or what the disk had in it when nothing was.\<close>

theorem bcache_coherent:
  assumes "bc_reach dv dk (s, m)" and "bcache_at s dv n = Some (s', i)"
  shows "\<exists>b. bufs s' i = Some b \<and> secno (key b) = n \<and> d b = m n"
  using reach_ok[OF assms(1)] getOrSet_ok[of dv s "\<lparr>key_dev = dv, secno = n\<rparr>" s' i] assms(2)
  by (auto simp: bcache_at_def)

text \<open>The examples run a cache that keeps one sector.\<close>

definition bc_ex :: "nat \<Rightarrow> BCache" where
  "bc_ex n = fst (the (bcache_at (BCacheMgr_init 1 (\<lambda>_. [0])) 0 n))"

lemmas bc_evals = bcache_at_def BCacheMgr_init_def getOrSet_def reserve_def BlockBuf_new_def reload_def
  push_front_def hold_def buf_write_def Let_def

lemma bc_ex_eval: "bcache_at (BCacheMgr_init 1 (\<lambda>_. [0])) 0 n = Some (bc_ex n, 0)"
  by (simp add: bc_ex_def bc_evals)

lemma bc_ex_buf: "bufs (bc_ex n) 0 = Some \<lparr>key = \<lparr>key_dev = 0, secno = n\<rparr>, dirty = False, d = [0]\<rparr>"
  by (simp add: bc_ex_def bc_evals)

lemma bc_ex_reach: "bc_reach 0 (\<lambda>_. [0]) (bc_ex n, \<lambda>_. [0])"
  using bc_reach.step[OF bc_reach.init bc_step.get[OF bc_ex_eval]] .

theorem bcache_coherent_witness:
  "\<exists>s' i. bcache_at (buf_write (bc_ex 5) 0 [7]) 0 5 = Some (s', i) \<and>
    (\<exists>b. bufs s' i = Some b \<and> secno (key b) = 5 \<and> d b = [7])"
proof -
  have r: "bc_reach 0 (\<lambda>_. [0]) (buf_write (bc_ex 5) 0 [7], (\<lambda>_. [0])(5 := [7]))"
    using bc_reach.step[OF bc_ex_reach[of 5] bc_step.upd[OF bc_ex_buf[of 5], of 0 "\<lambda>_. [0]" "[7]"]] by simp
  obtain s' i where g: "bcache_at (buf_write (bc_ex 5) 0 [7]) 0 5 = Some (s', i)"
    by (simp add: bc_ex_def bc_evals)
  show ?thesis using bcache_coherent[OF r g] g by auto
qed

text \<open>C40: A lookup in a reachable cache is undefined in exactly one case: a client still holds a
  buffer of the sector, and the cache has dropped that buffer from its list of recent ones.  The entry
  of such a buffer stays in the table with the end iterator, which the next lookup of the sector
  erases from the list.\<close>

theorem bcache_at_undefined_iff:
  assumes "bc_reach dv dk (s, m)"
  shows "bcache_at s dv n = None \<longleftrightarrow>
    (\<exists>i b. bufs s i = Some b \<and> secno (key b) = n \<and> 0 < holds s i \<and> \<not> lru_refs s i)"
proof -
  have inv: "bc_inv dv s" using reach_ok[OF assms] by simp
  have ok: "bufs_ok dv s" "active_ok s" "lru_ok s" "held_ok {} s" using inv by (simp_all add: bc_inv_def)
  let ?k = "\<lparr>key_dev = dv, secno = n\<rparr>"
  have mem: "(n', k', i') \<in> set (lru s) \<longleftrightarrow> active s k' = Some (i', Some n')" for n' k' i'
    using ok(3) unfolding lru_ok_def by blast
  have "(\<exists>i. active s ?k = Some (i, None)) \<longleftrightarrow>
    (\<exists>i b. bufs s i = Some b \<and> secno (key b) = n \<and> 0 < holds s i \<and> \<not> lru_refs s i)" (is "?L \<longleftrightarrow> ?R")
  proof
    assume ?L
    then obtain i where a: "active s ?k = Some (i, None)" by blast
    then obtain b where b: "bufs s i = Some b" "key b = ?k" using ok(2) unfolding active_ok_def by blast
    have "\<not> lru_refs s i"
    proof
      assume "lru_refs s i"
      then obtain n' k' where "(n', k', i) \<in> set (lru s)" by (auto simp: lru_refs_def)
      hence a': "active s k' = Some (i, Some n')" using mem by simp
      hence "k' = ?k" using ok(2) b unfolding active_ok_def by (metis option.inject)
      thus False using a a' by simp
    qed
    moreover from this have "0 < holds s i" using ok(4) b(1) unfolding held_ok_def by (metis empty_iff option.distinct(1))
    ultimately show ?R using b by (metis BlockKey.select_convs(2))
  next
    assume ?R
    then obtain i b where b: "bufs s i = Some b" "secno (key b) = n" "\<not> lru_refs s i" by blast
    then obtain it where a: "active s (key b) = Some (i, it)" "key_dev (key b) = dv"
      using ok(1) unfolding bufs_ok_def by blast
    have k: "key b = ?k" using a(2) b(2) by simp
    have "it = None"
    proof (cases it)
      case (Some n')
      hence "(n', key b, i) \<in> set (lru s)" using a(1) mem by simp
      thus ?thesis using b(3) by (force simp: lru_refs_def image_iff)
    qed
    thus ?L using a(1) k by simp
  qed
  thus ?thesis using getOrSet_None_iff[OF inv, of ?k] by (simp add: bcache_at_def)
qed

definition bc_ex3 :: "BCache" where
  "bc_ex3 = fst (the (bcache_at (fst (the (bcache_at (bc_ex 0) 0 1))) 0 2))"

lemma bc_ex3_reach: "bc_reach 0 (\<lambda>_. [0]) (bc_ex3, \<lambda>_. [0])"
proof -
  have 1: "bcache_at (bc_ex 0) 0 1 = Some (fst (the (bcache_at (bc_ex 0) 0 1)), 1)" (is "_ = Some (?s1, 1)")
    by (simp add: bc_ex_def bc_evals)
  have 2: "bcache_at ?s1 0 2 = Some (bc_ex3, 2)"
    by (simp add: bc_ex3_def bc_ex_def bc_evals drop_last_def lru_refs_def)
  show ?thesis
    using bc_reach.step[OF bc_reach.step[OF bc_ex_reach[of 0] bc_step.get[OF 1]] bc_step.get[OF 2]] .
qed

theorem bcache_at_undefined_iff_witness:
  "bcache_at bc_ex3 0 0 = None \<and> (\<exists>s' i. bcache_at bc_ex3 0 1 = Some (s', i))"
proof -
  have e: "bufs bc_ex3 0 = Some \<lparr>key = \<lparr>key_dev = 0, secno = 0\<rparr>, dirty = False, d = [0]\<rparr>"
      "holds bc_ex3 0 = 1" "\<not> lru_refs bc_ex3 0"
    by (simp_all add: bc_ex3_def bc_ex_def bc_evals drop_last_def lru_refs_def)
  have "\<exists>s' i. bcache_at bc_ex3 0 1 = Some (s', i)"
    by (simp add: bc_ex3_def bc_ex_def bc_evals drop_last_def lru_refs_def)
  thus ?thesis using bcache_at_undefined_iff[OF bc_ex3_reach, of 0] e by fastforce
qed

end
