(* ===== verification/FatDisk.thy ===== *)
theory FatDisk
  imports Bio Klibc
begin

text \<open>
  The FAT32 volume: the super block of \<open>include/fat.hh\<close> and the operations of \<open>kernel/fs/fat.cc\<close> on
  sectors, clusters and the allocation table.

  The volume is modelled over the contents of the blocks, a map from block keys to 512 bytes: every
  \<open>bcache[key]\<close> of the code reads or writes the contents of that block through the cache, which
  \<open>BioSpec\<close> shows to be one memory of sectors.  Numbers of type \<open>uint32\<close> are naturals with the
  wrap-around written as \<open>u32\<close>.  Buffers of the kernel are byte lists, so the two directions of
  \<open>rwClus\<close> are two functions; no caller passes a user buffer.
\<close>

type_synonym blocks = "BlockKey \<Rightarrow> byte list"

definition u32 :: "nat \<Rightarrow> nat" where
  "u32 x = x mod 2 ^ 32"

definition blk :: "nat \<Rightarrow> nat \<Rightarrow> BlockKey" where
  "blk dv sec = \<lparr>key_dev = dv, secno = sec\<rparr>"

subsection \<open>Numbers in buffers, little endian\<close>

definition le16 :: "byte list \<Rightarrow> nat \<Rightarrow> nat" where
  "le16 b i = unat (b ! i) + 256 * unat (b ! (i + 1))"

definition le32 :: "byte list \<Rightarrow> nat \<Rightarrow> nat" where
  "le32 b i = le16 b i + 65536 * le16 b (i + 2)"

definition patch :: "byte list \<Rightarrow> nat \<Rightarrow> byte list \<Rightarrow> byte list" where
  "patch b i v = take i b @ v @ drop (i + length v) b"

definition enc16 :: "nat \<Rightarrow> byte list" where
  "enc16 v = [of_nat v, of_nat (v div 256)]"

definition enc32 :: "nat \<Rightarrow> byte list" where
  "enc32 v = enc16 v @ enc16 (v div 65536)"

subsection \<open>The super block\<close>

definition FAT32_EOC :: nat where
  "FAT32_EOC = 0x0ffffff8"

record BPB_t =
  byts_per_sec :: nat
  sec_per_clus :: nat
  rsvd_sec_cnt :: nat
  fat_cnt :: nat
  hidd_sec :: nat
  tot_sec :: nat
  fat_sz :: nat
  root_clus :: nat

record SuperBlock =
  sb_root :: nat
  sb_fs :: nat
  sb_valid :: bool
  dev :: nat
  first_data_sec :: nat
  data_sec_cnt :: nat
  data_clus_cnt :: nat
  byts_per_clus :: nat
  bpb :: BPB_t

definition BPB_of :: "byte list \<Rightarrow> BPB_t" where
  "BPB_of b = \<lparr>byts_per_sec = le16 b 11, sec_per_clus = unat (b ! 13), rsvd_sec_cnt = le16 b 14,
     fat_cnt = unat (b ! 16), hidd_sec = le32 b 28, tot_sec = le32 b 32, fat_sz = le32 b 36,
     root_clus = le32 b 44\<rparr>"

definition SuperBlock_of :: "nat \<Rightarrow> nat \<Rightarrow> nat \<Rightarrow> BPB_t \<Rightarrow> SuperBlock option" where
  "SuperBlock_of rt fs dv p =
     (let fds = u32 (rsvd_sec_cnt p + fat_cnt p * fat_sz p);
          dsc = u32 (tot_sec p + 2 ^ 32 - fds)
      in do {
        ensure (sec_per_clus p \<noteq> 0);
        Some \<lparr>sb_root = rt, sb_fs = fs, sb_valid = True, dev = dv, first_data_sec = fds, data_sec_cnt = dsc,
          data_clus_cnt = dsc div sec_per_clus p, byts_per_clus = sec_per_clus p * byts_per_sec p, bpb = p\<rparr>
      })"

abbreviation rBPS :: "SuperBlock \<Rightarrow> nat" where "rBPS sb \<equiv> byts_per_sec (bpb sb)"
abbreviation rSPC :: "SuperBlock \<Rightarrow> nat" where "rSPC sb \<equiv> sec_per_clus (bpb sb)"
abbreviation rRSC :: "SuperBlock \<Rightarrow> nat" where "rRSC sb \<equiv> rsvd_sec_cnt (bpb sb)"
abbreviation rFS :: "SuperBlock \<Rightarrow> nat" where "rFS sb \<equiv> fat_sz (bpb sb)"
abbreviation rBPC :: "SuperBlock \<Rightarrow> nat" where "rBPC sb \<equiv> byts_per_clus sb"
abbreviation rDCC :: "SuperBlock \<Rightarrow> nat" where "rDCC sb \<equiv> data_clus_cnt sb"

definition firstSec :: "SuperBlock \<Rightarrow> nat \<Rightarrow> nat" where
  "firstSec sb c = u32 (u32 (c + 2 ^ 32 - 2) * rSPC sb + first_data_sec sb)"

definition numthSec :: "SuperBlock \<Rightarrow> nat \<Rightarrow> nat \<Rightarrow> nat" where
  "numthSec sb c k = u32 (rRSC sb + u32 (c * 4) div rBPS sb + rFS sb * (k - 1))"

definition secOffset :: "SuperBlock \<Rightarrow> nat \<Rightarrow> nat" where
  "secOffset sb c = u32 (c * 4) mod rBPS sb"

subsection \<open>Clusters\<close>

text \<open>
  The loop of \<open>rwClus\<close>: \<open>off\<close> is used modulo the block size only, so its wrap-around at \<open>2 ^ 32\<close> does
  not show.
\<close>

function rd_loop :: "blocks \<Rightarrow> nat \<Rightarrow> nat \<Rightarrow> nat \<Rightarrow> nat \<Rightarrow> byte list" where
  "rd_loop B dv sec off left =
     (if left = 0 then []
      else let m = min (blockSize - off mod blockSize) left
           in take m (drop (off mod blockSize) (B (blk dv sec))) @ rd_loop B dv (u32 (sec + 1)) (off + m) (left - m))"
  by pat_completeness auto
termination
  by (relation "measure (\<lambda>(B, dv, sec, off, left). left)") (auto simp: blockSize_def)

function wr_loop :: "blocks \<Rightarrow> nat \<Rightarrow> nat \<Rightarrow> nat \<Rightarrow> byte list \<Rightarrow> blocks" where
  "wr_loop B dv sec off v =
     (if v = [] then B
      else let m = min (blockSize - off mod blockSize) (length v);
               k = blk dv sec
           in wr_loop (B(k := patch (B k) (off mod blockSize) (take m v))) dv (u32 (sec + 1)) (off + m) (drop m v))"
  by pat_completeness auto
termination
  by (relation "measure (\<lambda>(B, dv, sec, off, v). length v)") (auto simp: blockSize_def)

declare rd_loop.simps [simp del] wr_loop.simps [simp del]

definition rdClus :: "SuperBlock \<Rightarrow> blocks \<Rightarrow> nat \<Rightarrow> nat \<Rightarrow> nat \<Rightarrow> byte list option" where
  "rdClus sb B c off len =
     do { ensure (u32 (off + len) \<le> rBPC sb);
          Some (rd_loop B (dev sb) (u32 (firstSec sb c + off div rBPS sb)) (off mod rBPS sb) len) }"

definition wrClus :: "SuperBlock \<Rightarrow> blocks \<Rightarrow> nat \<Rightarrow> nat \<Rightarrow> byte list \<Rightarrow> blocks option" where
  "wrClus sb B c off v =
     do { ensure (u32 (off + length v) \<le> rBPC sb);
          Some (wr_loop B (dev sb) (u32 (firstSec sb c + off div rBPS sb)) (off mod rBPS sb) v) }"

fun clear_loop :: "nat \<Rightarrow> blocks \<Rightarrow> nat \<Rightarrow> blocks" where
  "clear_loop 0 B sec = B"
| "clear_loop (Suc n) B sec = clear_loop n (B(blk 0 sec := replicate blockSize 0)) (u32 (sec + 1))"

definition clearClus :: "SuperBlock \<Rightarrow> blocks \<Rightarrow> nat \<Rightarrow> blocks" where
  "clearClus sb B c = clear_loop (rSPC sb) B (firstSec sb c)"

subsection \<open>The allocation table\<close>

definition fatRead :: "SuperBlock \<Rightarrow> blocks \<Rightarrow> nat \<Rightarrow> nat" where
  "fatRead sb B c =
     (if FAT32_EOC \<le> c then c
      else if u32 (rDCC sb + 1) < c then 0
      else le32 (B (blk 0 (numthSec sb c 1))) (secOffset sb c))"

definition fatWrite :: "SuperBlock \<Rightarrow> blocks \<Rightarrow> nat \<Rightarrow> nat \<Rightarrow> blocks \<times> int" where
  "fatWrite sb B c v =
     (if u32 (rDCC sb + 1) < c then (B, - 1)
      else let k = blk 0 (numthSec sb c 1)
           in (B(k := patch (B k) (secOffset sb c) (enc32 v)), 0))"

definition freeClus :: "SuperBlock \<Rightarrow> blocks \<Rightarrow> nat \<Rightarrow> blocks" where
  "freeClus sb B c = fst (fatWrite sb B c 0)"

text \<open>The inner and the outer loop of \<open>allocClus\<close>: the first free entry of a sector, of the table.\<close>

fun alloc_sec :: "nat \<Rightarrow> byte list \<Rightarrow> nat \<Rightarrow> nat option" where
  "alloc_sec 0 b j = None"
| "alloc_sec (Suc n) b j = (if le32 b (4 * j) = 0 then Some j else alloc_sec n b (j + 1))"

fun alloc_loop :: "nat \<Rightarrow> SuperBlock \<Rightarrow> blocks \<Rightarrow> nat \<Rightarrow> nat \<Rightarrow> (blocks \<times> nat) option" where
  "alloc_loop 0 sb B i sec = None"
| "alloc_loop (Suc n) sb B i sec =
     (let ent_per_sec = rBPS sb div 4; k = blk (dev sb) sec
      in case alloc_sec ent_per_sec (B k) 0 of
           Some j \<Rightarrow> (let B1 = B(k := patch (B k) (4 * j) (enc32 (FAT32_EOC + 7)));
                          c = u32 (i * ent_per_sec + j)
                      in Some (clearClus sb B1 c, c))
         | None \<Rightarrow> alloc_loop n sb B (i + 1) (u32 (sec + 1)))"

definition allocClus :: "SuperBlock \<Rightarrow> blocks \<Rightarrow> (blocks \<times> nat) option" where
  "allocClus sb B = alloc_loop (rFS sb) sb B 0 (rRSC sb)"

end
