(* ===== verification/FatName.thy ===== *)
theory FatName
  imports FatDisk
begin

text \<open>
  Directory entries of FAT32 as 32 bytes, the names in them, the 8.3 names and checksums, and the
  dates, from \<open>kernel/fs/fat.cc\<close> and \<open>include/fat.hh\<close>.  An \<open>eastl::string\<close> is the list of its
  characters; \<open>c_str\<close> appends the terminator.
\<close>

definition c_str :: "byte list \<Rightarrow> byte list" where
  "c_str s = s @ [0]"

definition FAT32_MAX_FILENAME :: nat where
  "FAT32_MAX_FILENAME = 255"

definition CHAR_LONG_NAME :: nat where
  "CHAR_LONG_NAME = 13"

definition CHAR_SHORT_NAME :: nat where
  "CHAR_SHORT_NAME = 11"

definition ATTR_READ_ONLY :: byte where "ATTR_READ_ONLY = 0x01"
definition ATTR_SYSTEM :: byte where "ATTR_SYSTEM = 0x04"
definition ATTR_DIRECTORY :: byte where "ATTR_DIRECTORY = 0x10"
definition ATTR_ARCHIVE :: byte where "ATTR_ARCHIVE = 0x20"
definition ATTR_LONG_NAME :: byte where "ATTR_LONG_NAME = 0x0F"
definition ATTR_LINK :: byte where "ATTR_LINK = 0x40"
definition LAST_LONG_ENTRY :: byte where "LAST_LONG_ENTRY = 0x40"
definition EMPTY_ENTRY :: byte where "EMPTY_ENTRY = 0xe5"
definition END_OF_ENTRY :: byte where "END_OF_ENTRY = 0x00"

definition has :: "byte \<Rightarrow> byte \<Rightarrow> bool" where
  "has a m = (a AND m \<noteq> 0)"

subsection \<open>Fields of an entry\<close>

type_synonym Ent = "byte list"

definition lne_order :: "Ent \<Rightarrow> byte" where "lne_order e = e ! 0"
definition ent_attr :: "Ent \<Rightarrow> byte" where "ent_attr e = e ! 11"
definition sne_name :: "Ent \<Rightarrow> byte list" where "sne_name e = take 11 e"
definition sne_clus :: "Ent \<Rightarrow> nat" where "sne_clus e = le16 e 20 * 65536 + le16 e 26"
definition sne_file_size :: "Ent \<Rightarrow> nat" where "sne_file_size e = le32 e 28"

definition wchars :: "Ent \<Rightarrow> nat \<Rightarrow> nat \<Rightarrow> 16 word list" where
  "wchars e i n = map (\<lambda>j. of_nat (le16 e (i + 2 * j))) [0..<n]"

definition set_sne :: "Ent \<Rightarrow> nat \<Rightarrow> nat \<Rightarrow> Ent" where
  "set_sne e c sz = patch (patch (patch e 20 (enc16 (c div 65536))) 26 (enc16 c)) 28 (enc32 sz)"

subsection \<open>Names\<close>

definition illegal_long :: "byte list" where
  "illegal_long = [34, 42, 47, 58, 60, 62, 63, 92, 124]"

definition illegal_short :: "byte list" where
  "illegal_short = [43, 44, 59, 61, 91, 93]"

fun skip_front :: "byte list \<Rightarrow> byte list" where
  "skip_front [] = []"
| "skip_front (c # cs) = (if c = 32 \<or> c = 46 then skip_front cs else c # cs)"

text \<open>The last loop leaves the first character even when it is a space.\<close>

fun skip_back :: "byte list \<Rightarrow> byte list" where
  "skip_back [] = []"
| "skip_back [c] = [c]"
| "skip_back (c # cs) = (if \<forall>x \<in> set cs. x = 32 then [c] else c # skip_back cs)"

definition flName :: "byte list \<Rightarrow> byte list" where
  "flName nm = (let r = skip_front nm
     in if \<exists>c \<in> set r. c < 32 \<or> c \<in> set illegal_long then [] else skip_back r)"

definition last_dot :: "byte list \<Rightarrow> nat" where
  "last_dot nm = (case filter (\<lambda>j. nm ! j = 46) (rev [0..<length nm]) of [] \<Rightarrow> 0 | j # _ \<Rightarrow> j)"

definition short_char :: "byte \<Rightarrow> byte" where
  "short_char c = (if 97 \<le> c \<and> c \<le> 122 then c + 65 - 97 else if c \<in> set illegal_short then 95 else c)"

text \<open>The loop that fills \<open>shortname\<close>; \<open>p\<close> is the last dot until it has been passed.\<close>

function short_loop :: "byte list \<Rightarrow> nat \<Rightarrow> nat option \<Rightarrow> byte list \<Rightarrow> byte list option" where
  "short_loop nm k p out =
     (if \<not> length out < CHAR_SHORT_NAME then Some out
      else if \<not> k < length nm then Some out
      else let c = nm ! k; k' = k + 1 in
        if length out = 8 \<and> p \<noteq> None
        then (if the p + 1 < k' then Some out else short_loop nm (the p + 1) None out)
        else if c = 32 then short_loop nm k' p out
        else if c = 46
        then (if p = None \<or> the p < k'
              then (if 8 < length out then None
                    else short_loop nm k' None (out @ replicate (8 - length out) 32))
              else short_loop nm k' p out)
        else short_loop nm k' p (out @ [short_char c]))"
  by pat_completeness auto
termination
  by (relation "measure (\<lambda>(nm, k, p, out). length nm - k)") auto

declare short_loop.simps [simp del]

definition getShortName :: "byte list \<Rightarrow> byte list option" where
  "getShortName nm =
     do { out \<leftarrow> short_loop nm 0 (Some (last_dot nm)) [];
          Some (out @ replicate (CHAR_SHORT_NAME - length out) 32) }"

definition getCheckSum :: "byte list \<Rightarrow> byte" where
  "getCheckSum sn = fold (\<lambda>j sum. (if sum AND 1 \<noteq> 0 then 0x80 else 0) + drop_bit 1 sum + sn ! j)
     [0..<CHAR_SHORT_NAME] 0"

definition LNE_readEntName :: "Ent \<Rightarrow> memory \<Rightarrow> nat \<Rightarrow> memory option" where
  "LNE_readEntName e m pos =
     do { m \<leftarrow> snstr m pos (wchars e 1 5) 5;
          m \<leftarrow> snstr m (pos + 5) (wchars e 14 6) 6;
          snstr m (pos + 11) (wchars e 28 2) 2 }"

fun sne_copy :: "byte list \<Rightarrow> nat \<Rightarrow> memory \<Rightarrow> nat \<Rightarrow> (memory \<times> nat) option" where
  "sne_copy nm 0 m i = Some (m, i)"
| "sne_copy nm (Suc left) m i =
     (case nm of [] \<Rightarrow> Some (m, i)
      | c # cs \<Rightarrow> if c = 32 then Some (m, i) else do { m \<leftarrow> wr m i c; sne_copy cs left m (i + 1) })"

definition SNE_readEntName :: "Ent \<Rightarrow> memory \<Rightarrow> nat \<Rightarrow> memory option" where
  "SNE_readEntName e m pos =
     do { m \<leftarrow> memset m pos 0 (CHAR_SHORT_NAME + 2);
          (m, i) \<leftarrow> sne_copy (sne_name e) 8 m pos;
          let dot = (sne_name e ! 8 \<noteq> 32);
          m \<leftarrow> (if dot then wr m i 46 else Some m);
          (m, i) \<leftarrow> sne_copy (drop 8 (sne_name e)) 3 m (if dot then i + 1 else i);
          Some m }"

definition readEntName :: "Ent \<Rightarrow> memory \<Rightarrow> nat \<Rightarrow> memory option" where
  "readEntName e m pos =
     (if ent_attr e = ATTR_LONG_NAME then LNE_readEntName e m pos else SNE_readEntName e m pos)"

subsection \<open>Writing an entry\<close>

text \<open>
  The loop over the 13 characters of a long entry: the name from the given position on, its
  terminator, then \<open>0xffff\<close>.
\<close>

fun lne_chars :: "nat \<Rightarrow> byte list \<Rightarrow> bool \<Rightarrow> byte list list" where
  "lne_chars 0 p end = []"
| "lne_chars (Suc n) p end =
     (if end then [0xff, 0xff] # lne_chars n p end
      else [hd p, 0] # lne_chars n (tl p) (hd p = 0))"

definition lne_encode :: "byte \<Rightarrow> byte \<Rightarrow> byte list \<Rightarrow> Ent" where
  "lne_encode order csum p =
     (let w = lne_chars CHAR_LONG_NAME p False
      in [order] @ concat (take 5 w) @ [ATTR_LONG_NAME, 0, csum] @ concat (take 6 (drop 5 w)) @ [0, 0] @ concat (drop 11 w))"

definition sne_encode :: "byte list \<Rightarrow> byte \<Rightarrow> nat \<Rightarrow> nat \<Rightarrow> Ent" where
  "sne_encode nm at c sz = set_sne (take 11 (nm @ replicate 11 0) @ [at] @ replicate 20 0) c sz"

subsection \<open>Dates\<close>

record timespec =
  tv_sec :: int
  tv_nsec :: int

definition int32 :: "int \<Rightarrow> int" where
  "int32 x = (x + 2 ^ 31) mod 2 ^ 32 - 2 ^ 31"

definition getTimeSpec :: "nat \<Rightarrow> nat \<Rightarrow> nat \<Rightarrow> timespec" where
  "getTimeSpec a_date a_time a_tenth =
     (let day = int (a_date mod 32);
          month = int (a_date div 32 mod 16);
          year = int (a_date div 512 mod 128) + 1980;
          second = int (a_time mod 32) * 2 + int (a_tenth div 100);
          minute = int (a_time div 32 mod 64);
          hour = int (a_time div 2048 mod 32)
      in \<lparr>tv_sec = int32 (((year div 4 - year div 100 + year div 400) + 365 * year + 367 * month div 12 + day - 719499) * 86400
             + hour * 3600 + minute * 60 + second),
          tv_nsec = int (a_tenth mod 100) * 10000000\<rparr>)"

end
