(* ===== verification/FatDir.thy ===== *)
theory FatDir
  imports FatName
begin

text \<open>
  Directories of FAT32: the cache of directory entries, the walk along a cluster chain, the search in a
  directory and the release of entries (\<open>kernel/fs/fat.cc\<close>).

  A \<open>DirEnt *\<close> is an index into the array \<open>ecache.entries\<close>, a null pointer is \<open>None\<close>; a super block is
  an index into \<open>sblks\<close>.  The messages the code prints are not modelled.  Loops along a chain or
  along the list of the cache, which end only when the structure they follow does, are
  \<open>partial_function\<close>s: a walk that never ends has no value.
\<close>

record DirEnt =
  filename :: "byte list"
  attribute :: byte
  first_clus :: nat
  file_size :: nat
  cur_clus :: nat
  clus_cnt :: nat
  spblk :: "nat option"
  mntblk :: "nat option"
  ent_dirty :: bool
  valid :: int
  ref :: int
  off :: nat
  parent :: "nat option"
  ent_next :: nat
  ent_prev :: nat
  mount_flag :: bool
  ctime :: timespec
  mtime :: timespec
  atime :: timespec

record FAT =
  blks :: blocks
  sblks :: "SuperBlock list"
  ents :: "DirEnt list"
  ecacheinit :: bool

definition ENTRY_CACHE_NUM :: nat where
  "ENTRY_CACHE_NUM = 100"

abbreviation ent :: "FAT \<Rightarrow> nat \<Rightarrow> DirEnt option" where
  "ent st e \<equiv> rd (ents st) e"

definition set_ent :: "FAT \<Rightarrow> nat \<Rightarrow> (DirEnt \<Rightarrow> DirEnt) \<Rightarrow> FAT option" where
  "set_ent st e f = do { x \<leftarrow> ent st e; Some (st\<lparr>ents := (ents st)[e := f x]\<rparr>) }"

definition sb_of :: "FAT \<Rightarrow> DirEnt \<Rightarrow> SuperBlock option" where
  "sb_of st x = do { i \<leftarrow> spblk x; rd (sblks st) i }"

definition rwClus_rd :: "FAT \<Rightarrow> DirEnt \<Rightarrow> nat \<Rightarrow> nat \<Rightarrow> nat \<Rightarrow> byte list option" where
  "rwClus_rd st x c o' n = do { sb \<leftarrow> sb_of st x; rdClus sb (blks st) c o' n }"

definition rwClus_wr :: "FAT \<Rightarrow> DirEnt \<Rightarrow> nat \<Rightarrow> nat \<Rightarrow> byte list \<Rightarrow> FAT option" where
  "rwClus_wr st x c o' v =
     do { sb \<leftarrow> sb_of st x; B \<leftarrow> wrClus sb (blks st) c o' v; Some (st\<lparr>blks := B\<rparr>) }"

subsection \<open>The cache of entries\<close>

definition blank_name :: "byte list" where
  "blank_name = replicate (FAT32_MAX_FILENAME + 1) 0"

definition DirEnt_default :: DirEnt where
  "DirEnt_default = \<lparr>filename = blank_name, attribute = 0, first_clus = 0, file_size = 0, cur_clus = 0,
     clus_cnt = 0, spblk = None, mntblk = None, ent_dirty = False, valid = 0, ref = 0, off = 0, parent = None,
     ent_next = 0, ent_prev = 0, mount_flag = False, ctime = \<lparr>tv_sec = 0, tv_nsec = 0\<rparr>,
     mtime = \<lparr>tv_sec = 0, tv_nsec = 0\<rparr>, atime = \<lparr>tv_sec = 0, tv_nsec = 0\<rparr>\<rparr>"

definition eCacheInit :: "FAT \<Rightarrow> FAT" where
  "eCacheInit st = st\<lparr>ents := map (\<lambda>(i, x). x\<lparr>spblk := None, valid := 0, ref := 0, ent_dirty := False,
     parent := None, ent_prev := (if i = 0 then ENTRY_CACHE_NUM - 1 else i - 1),
     ent_next := (if i = ENTRY_CACHE_NUM - 1 then 0 else i + 1)\<rparr>)
     (zip [0..<ENTRY_CACHE_NUM] (ents st))\<rparr>"

partial_function (option) alloc_scan :: "FAT \<Rightarrow> nat option \<Rightarrow> nat \<Rightarrow> (FAT \<times> nat) option" where
  "alloc_scan st sb e =
     (if e = 0 then None
      else do {
        x \<leftarrow> ent st e;
        if ref x = 0
        then do {
          st \<leftarrow> set_ent st e (\<lambda>x. x\<lparr>ref := 1, spblk := sb, off := 0, valid := 0, ent_dirty := False\<rparr>);
          Some (st, e) }
        else alloc_scan st sb (ent_prev x) })"

definition eCacheAlloc :: "FAT \<Rightarrow> nat option \<Rightarrow> (FAT \<times> nat) option" where
  "eCacheAlloc st sb = do { h \<leftarrow> ent st 0; alloc_scan st sb (ent_prev h) }"

definition entDup :: "FAT \<Rightarrow> nat \<Rightarrow> FAT option" where
  "entDup st e = set_ent st e (\<lambda>x. x\<lparr>ref := ref x + 1\<rparr>)"

definition cstring :: "byte list \<Rightarrow> byte list" where
  "cstring m = takeWhile (\<lambda>c. c \<noteq> 0) m"

text \<open>The comparison both searches make: the name without regard to case, or any name but the two dots.\<close>

definition name_match :: "byte list \<Rightarrow> byte list \<Rightarrow> byte list \<Rightarrow> byte list \<Rightarrow> bool option" where
  "name_match a b fname nm =
     do { r \<leftarrow> strncmpamb (a @ b) 0 (length a) FAT32_MAX_FILENAME;
          Some (r = 0 \<or> nm = [] \<and> cstring fname \<noteq> [46] \<and> cstring fname \<noteq> [46, 46]) }"

partial_function (option) hit_scan :: "FAT \<Rightarrow> nat \<Rightarrow> byte list \<Rightarrow> nat \<Rightarrow> nat \<Rightarrow> (FAT \<times> nat) option" where
  "hit_scan st this nm aoff e =
     (if e = 0 then do { x \<leftarrow> ent st this; eCacheAlloc st (spblk x) }
      else do {
        x \<leftarrow> ent st e;
        b \<leftarrow> (if valid x = 1 \<and> parent x = Some this \<and> aoff \<le> off x
              then name_match (filename x) (c_str nm) (filename x) nm else Some False);
        if b
        then do {
          st \<leftarrow> entDup st e;
          st \<leftarrow> (if ref x = 0 then entDup st this else Some st);
          Some (st, e) }
        else hit_scan st this nm aoff (ent_next x) })"

definition eCacheHit :: "FAT \<Rightarrow> nat \<Rightarrow> byte list \<Rightarrow> nat \<Rightarrow> (FAT \<times> nat) option" where
  "eCacheHit st this nm aoff = do { h \<leftarrow> ent st 0; hit_scan st this nm aoff (ent_next h) }"

subsection \<open>Walking a chain\<close>

text \<open>
  The first loop of \<open>relocClus\<close>, with as many steps as clusters are missing: the cluster reached and
  its number, or nothing at the end of the chain.  \<open>clus\<close> is a signed \<open>int\<close>, so an entry with the top
  bit set is not taken for an end of chain.
\<close>

fun reloc_fwd :: "nat \<Rightarrow> SuperBlock \<Rightarrow> bool \<Rightarrow> blocks \<Rightarrow> nat \<Rightarrow> nat \<Rightarrow> (blocks \<times> (nat \<times> nat) option) option" where
  "reloc_fwd 0 sb al B cur cnt = Some (B, Some (cur, cnt))"
| "reloc_fwd (Suc n) sb al B cur cnt =
     (let clus = fatRead sb B cur
      in if FAT32_EOC \<le> clus \<and> clus < 2 ^ 31
         then (if al
               then do { (B1, c) \<leftarrow> allocClus sb B; reloc_fwd n sb al (fst (fatWrite sb B1 cur c)) c (cnt + 1) }
               else Some (B, None))
         else reloc_fwd n sb al B clus (cnt + 1))"

fun reloc_bwd :: "nat \<Rightarrow> SuperBlock \<Rightarrow> blocks \<Rightarrow> nat \<Rightarrow> nat option" where
  "reloc_bwd 0 sb B cur = Some cur"
| "reloc_bwd (Suc n) sb B cur =
     (let c = fatRead sb B cur in if FAT32_EOC \<le> c then None else reloc_bwd n sb B c)"

text \<open>The result is the offset inside the cluster, \<open>None\<close> stands for \<open>-1\<close>.\<close>

definition relocClus :: "FAT \<Rightarrow> nat \<Rightarrow> nat \<Rightarrow> bool \<Rightarrow> (FAT \<times> nat option) option" where
  "relocClus st e aoff al =
     do { x \<leftarrow> ent st e;
          sb \<leftarrow> sb_of st x;
          ensure (rBPC sb \<noteq> 0);
          let n = aoff div rBPC sb;
          if clus_cnt x < n
          then do {
            (B, r) \<leftarrow> reloc_fwd (n - clus_cnt x) sb al (blks st) (cur_clus x) (clus_cnt x);
            let st1 = st\<lparr>blks := B\<rparr>;
            case r of
              None \<Rightarrow> do { st2 \<leftarrow> set_ent st1 e (\<lambda>x. x\<lparr>cur_clus := first_clus x, clus_cnt := 0\<rparr>); Some (st2, None) }
            | Some (c, k) \<Rightarrow> do { st2 \<leftarrow> set_ent st1 e (\<lambda>x. x\<lparr>cur_clus := c, clus_cnt := k\<rparr>);
                                  Some (st2, Some (aoff mod rBPC sb)) } }
          else if n < clus_cnt x
          then do {
            c \<leftarrow> reloc_bwd n sb (blks st) (first_clus x);
            st1 \<leftarrow> set_ent st e (\<lambda>x. x\<lparr>cur_clus := c, clus_cnt := n\<rparr>);
            Some (st1, Some (aoff mod rBPC sb)) }
          else Some (st, Some (aoff mod rBPC sb)) }"

definition uoff :: "nat option \<Rightarrow> nat" where
  "uoff r = (case r of None \<Rightarrow> 2 ^ 32 - 1 | Some o' \<Rightarrow> o')"

subsection \<open>Reading a directory\<close>

text \<open>The test for a link that the directory and file operations start with.\<close>

definition follow_link :: "FAT \<Rightarrow> nat \<Rightarrow> FAT option" where
  "follow_link st e =
     do { x \<leftarrow> ent st e;
          if has (attribute x) ATTR_LINK
          then do { li \<leftarrow> rwClus_rd st x (first_clus x) 0 36;
                    set_ent st e (\<lambda>x. x\<lparr>first_clus := u32 (sne_clus li), attribute := ent_attr li\<rparr>) }
          else Some st }"

definition ent_assign :: "DirEnt \<Rightarrow> Ent \<Rightarrow> DirEnt" where
  "ent_assign x de = x\<lparr>attribute := ent_attr de, cur_clus := sne_clus de, first_clus := sne_clus de,
     file_size := sne_file_size de, clus_cnt := 0,
     ctime := getTimeSpec (le16 de 16) (le16 de 14) (unat (de ! 13)),
     mtime := getTimeSpec (le16 de 24) (le16 de 22) 0, atime := getTimeSpec (le16 de 18) 0 0\<rparr>"

definition read_name :: "DirEnt option \<Rightarrow> Ent \<Rightarrow> nat \<Rightarrow> DirEnt option option" where
  "read_name en de pos =
     (case en of None \<Rightarrow> Some None
      | Some x \<Rightarrow> do { f \<leftarrow> readEntName de (filename x) pos; Some (Some (x\<lparr>filename := f\<rparr>)) })"

text \<open>
  The loop of \<open>entNext\<close>: the state, the entry filled in, the count of slots and the type, \<open>0\<close> for a
  run of deleted slots, \<open>1\<close> for an entry and \<open>-1\<close> for the end.
\<close>

partial_function (option) next_loop ::
    "FAT \<Rightarrow> nat \<Rightarrow> DirEnt option \<Rightarrow> nat \<Rightarrow> nat \<Rightarrow> bool \<Rightarrow> nat \<Rightarrow> (FAT \<times> DirEnt option \<times> nat \<times> int) option" where
  "next_loop st this en aoff cnt islne count =
     do { (st, r) \<leftarrow> relocClus st this aoff False;
          case r of
            None \<Rightarrow> Some (st, en, count, - 1)
          | Some off2 \<Rightarrow> do {
              x \<leftarrow> ent st this;
              de \<leftarrow> rwClus_rd st x (cur_clus x) off2 32;
              if lne_order de = END_OF_ENTRY then Some (st, en, count, - 1)
              else if lne_order de = EMPTY_ENTRY then next_loop st this en (u32 (aoff + 32)) (cnt + 1) islne count
              else if cnt \<noteq> 0 then Some (st, en, cnt, 0)
              else if ent_attr de = ATTR_LONG_NAME
              then (let lcnt = unat (lne_order de AND NOT LAST_LONG_ENTRY);
                        last = has (lne_order de) LAST_LONG_ENTRY
                    in do {
                      ensure (en = None \<or> lcnt \<noteq> 0);
                      en \<leftarrow> read_name en de ((lcnt - 1) * CHAR_LONG_NAME);
                      next_loop st this en (u32 (aoff + 32)) cnt (islne \<or> last) (if last then lcnt + 1 else count) })
              else do {
                en \<leftarrow> (if islne then Some en else read_name en de 0);
                Some (st, map_option (\<lambda>x. ent_assign x de) en, (if islne then count else 1), 1) } } }"

definition entNext :: "FAT \<Rightarrow> nat \<Rightarrow> DirEnt option \<Rightarrow> nat \<Rightarrow> nat \<Rightarrow> (FAT \<times> DirEnt option \<times> nat \<times> int) option" where
  "entNext st this en aoff count =
     do { x \<leftarrow> ent st this;
          ensure (has (attribute x) ATTR_DIRECTORY);
          ensure (case en of None \<Rightarrow> True | Some y \<Rightarrow> valid y = 0);
          ensure (aoff mod 32 = 0);
          if valid x \<noteq> 1 then Some (st, en, count, - 1)
          else do {
            st \<leftarrow> follow_link st this;
            next_loop st this (map_option (\<lambda>y. y\<lparr>filename := blank_name\<rparr>) en) aoff 0 False count } }"

definition isEmpty :: "FAT \<Rightarrow> nat \<Rightarrow> (FAT \<times> bool) option" where
  "isEmpty st this = do { (st, en, cnt, t) \<leftarrow> entNext st this None (2 * 32) 0; Some (st, t = - 1) }"

end
