(* ===== verification/FatFile.thy ===== *)
theory FatFile
  imports FatDir
begin

text \<open>
  The operations on the files and directories of a FAT32 volume (\<open>kernel/fs/fat.cc\<close>): searching,
  creating, reading, writing, truncating, removing and linking entries, releasing them, loading the
  super block, and the inodes of \<open>include/fat.hh\<close>.  \<open>rwClus\<close> always transfers the whole length, so the
  branches the code takes when it does not are never taken.
\<close>

subsection \<open>Searching\<close>

text \<open>
  The loop of \<open>entSearch\<close>.  \<open>type\<close> is assigned the truth value of the comparison, so it is \<open>1\<close> for
  deleted slots as well and the branch for them is never taken.
\<close>

partial_function (option) search_loop ::
    "FAT \<Rightarrow> nat \<Rightarrow> nat \<Rightarrow> byte list \<Rightarrow> nat \<Rightarrow> nat \<Rightarrow> nat option \<Rightarrow> (FAT \<times> bool \<times> nat \<times> nat option) option" where
  "search_loop st this ep nm o' count aoff =
     do { x \<leftarrow> ent st ep;
          (st, en, count, t) \<leftarrow> entNext st this (Some x) o' count;
          st \<leftarrow> set_ent st ep (\<lambda>_. the en);
          if t = - 1 then Some (st, False, o', map_option (\<lambda>_. o') aoff)
          else do {
            x \<leftarrow> ent st ep;
            b \<leftarrow> name_match (c_str nm) (filename x) (filename x) nm;
            if b
            then do {
              st \<leftarrow> entDup st this;
              st \<leftarrow> set_ent st ep (\<lambda>x. x\<lparr>parent := Some this, off := o', valid := 1\<rparr>);
              Some (st, True, o', map_option (\<lambda>_. u32 (o' + count * 32)) aoff) }
            else search_loop st this ep nm (u32 (o' + count * 32)) count aoff } }"

subsection \<open>Truncation and release\<close>

partial_function (option) free_chain :: "SuperBlock \<Rightarrow> blocks \<Rightarrow> nat \<Rightarrow> blocks option" where
  "free_chain sb B c =
     (if 2 \<le> c \<and> c < FAT32_EOC then free_chain sb (freeClus sb B c) (fatRead sb B c) else Some B)"

definition entTrunc :: "FAT \<Rightarrow> nat \<Rightarrow> FAT option" where
  "entTrunc st e =
     do { x \<leftarrow> ent st e;
          st \<leftarrow> (if \<not> has (attribute x) ATTR_LINK
                then do { sb \<leftarrow> sb_of st x; B \<leftarrow> free_chain sb (blks st) (first_clus x); Some (st\<lparr>blks := B\<rparr>) }
                else Some st);
          set_ent st e (\<lambda>x. x\<lparr>file_size := 0, first_clus := 0, ent_dirty := True\<rparr>) }"

text \<open>How many slots in front of its short entry an entry has, read from its first slot.\<close>

definition slot_count :: "FAT \<Rightarrow> nat \<Rightarrow> DirEnt \<Rightarrow> nat \<Rightarrow> nat option" where
  "slot_count st p x o' =
     do { px \<leftarrow> ent st p; b \<leftarrow> rwClus_rd st x (cur_clus px) o' 1; Some (unat (b ! 0 AND NOT LAST_LONG_ENTRY)) }"

definition parentUpdate :: "FAT \<Rightarrow> nat \<Rightarrow> FAT option" where
  "parentUpdate st e =
     do { x \<leftarrow> ent st e;
          if \<not> ent_dirty x \<or> valid x \<noteq> 1 then Some st
          else do {
            p \<leftarrow> parent x;
            (st, r) \<leftarrow> relocClus st p (off x) False;
            entcnt \<leftarrow> slot_count st p x (uoff r);
            (st, r) \<leftarrow> relocClus st p (u32 (off x + entcnt * 32)) False;
            px \<leftarrow> ent st p;
            de \<leftarrow> rwClus_rd st x (cur_clus px) (uoff r) 32;
            st \<leftarrow> rwClus_wr st x (cur_clus px) (uoff r) (set_sne de (first_clus x) (file_size x));
            set_ent st e (\<lambda>x. x\<lparr>ent_dirty := False\<rparr>) } }"

text \<open>\<open>unInstall\<close> resets \<open>root\<close> together with \<open>valid\<close>; behind it the root can no longer be reached.\<close>

definition getFATRoot :: "FAT \<Rightarrow> DirEnt \<Rightarrow> (FAT \<times> nat) option" where
  "getFATRoot st x =
     do { sb \<leftarrow> sb_of st x; ensure (sb_valid sb); st \<leftarrow> entDup st (sb_root sb); Some (st, sb_root sb) }"

text \<open>Moving an entry behind the root in the list of the cache.\<close>

definition relink :: "FAT \<Rightarrow> nat \<Rightarrow> nat \<Rightarrow> FAT option" where
  "relink st e rt =
     do { x \<leftarrow> ent st e;
          st \<leftarrow> set_ent st (ent_next x) (\<lambda>y. y\<lparr>ent_prev := ent_prev x\<rparr>);
          st \<leftarrow> set_ent st (ent_prev x) (\<lambda>y. y\<lparr>ent_next := ent_next x\<rparr>);
          r \<leftarrow> ent st rt;
          st \<leftarrow> set_ent st e (\<lambda>y. y\<lparr>ent_next := ent_next r, ent_prev := rt\<rparr>);
          r \<leftarrow> ent st rt;
          st \<leftarrow> set_ent st (ent_next r) (\<lambda>y. y\<lparr>ent_prev := e\<rparr>);
          set_ent st rt (\<lambda>y. y\<lparr>ent_next := e\<rparr>) }"

partial_function (option) entRelse :: "FAT \<Rightarrow> nat \<Rightarrow> FAT option" where
  "entRelse st e =
     do { x \<leftarrow> ent st e;
          (st, rt) \<leftarrow> getFATRoot st x;
          x \<leftarrow> ent st e;
          if e \<noteq> rt \<and> valid x \<noteq> 0 \<and> ref x = 1
          then do {
            st \<leftarrow> relink st e rt;
            st \<leftarrow> (if valid x = - 1 then entTrunc st e else parentUpdate st e);
            st \<leftarrow> set_ent st e (\<lambda>x. x\<lparr>ref := ref x - 1\<rparr>);
            x \<leftarrow> ent st e;
            if ref x = 0 then do { p \<leftarrow> parent x; entRelse st p } else Some st }
          else set_ent st e (\<lambda>x. x\<lparr>ref := ref x - 1\<rparr>) }"

definition entSearch :: "FAT \<Rightarrow> nat \<Rightarrow> byte list \<Rightarrow> nat option \<Rightarrow> (FAT \<times> nat option \<times> nat option) option" where
  "entSearch st this nm aoff =
     do { x \<leftarrow> ent st this;
          ensure (has (attribute x) ATTR_DIRECTORY);
          st \<leftarrow> follow_link st this;
          if valid x \<noteq> 1 then Some (st, None, aoff)
          else do {
            let start = (case aoff of None \<Rightarrow> 0 | Some o' \<Rightarrow> o');
            (st, ep) \<leftarrow> eCacheHit st this nm start;
            y \<leftarrow> ent st ep;
            if valid y = 1
            then (case aoff of
                None \<Rightarrow> Some (st, Some ep, None)
              | Some _ \<Rightarrow> do {
                  (st, en, count, t) \<leftarrow> entNext st this (Some DirEnt_default) (off y) 0;
                  Some (st, Some ep, Some (u32 (off y + count * 32))) })
            else do {
              (st, r) \<leftarrow> relocClus st this 0 False;
              (st, found, o', aoff) \<leftarrow> search_loop st this ep nm start 0 aoff;
              if found then Some (st, Some ep, aoff)
              else do { st \<leftarrow> entRelse st ep; Some (st, None, aoff) } } } }"

subsection \<open>Creating\<close>

definition dot_name :: "byte list" where
  "dot_name = 46 # replicate 10 32"

definition dotdot_name :: "byte list" where
  "dotdot_name = [46, 46] @ replicate 9 32"

definition put_ent :: "FAT \<Rightarrow> nat \<Rightarrow> nat \<Rightarrow> Ent \<Rightarrow> FAT option" where
  "put_ent st this aoff de =
     do { (st, r) \<leftarrow> relocClus st this aoff True;
          x \<leftarrow> ent st this;
          rwClus_wr st x (cur_clus x) (uoff r) de }"

text \<open>The loop over the long entries of a name, from the last one down.\<close>

fun put_lnes :: "nat \<Rightarrow> nat \<Rightarrow> FAT \<Rightarrow> nat \<Rightarrow> byte list \<Rightarrow> byte \<Rightarrow> nat \<Rightarrow> (FAT \<times> nat) option" where
  "put_lnes 0 entcnt st this fname csum aoff = Some (st, aoff)"
| "put_lnes (Suc i) entcnt st this fname csum aoff =
     do { let order = (if Suc i = entcnt then of_nat (Suc i) OR LAST_LONG_ENTRY else of_nat (Suc i));
          st \<leftarrow> put_ent st this aoff (lne_encode order csum (drop (i * CHAR_LONG_NAME) fname));
          put_lnes i entcnt st this fname csum (u32 (aoff + 32)) }"

definition entCreateOnDisk :: "FAT \<Rightarrow> nat \<Rightarrow> nat \<Rightarrow> nat \<Rightarrow> FAT option" where
  "entCreateOnDisk st this e aoff =
     do { x \<leftarrow> ent st this;
          ensure (has (attribute x) ATTR_DIRECTORY);
          ensure (aoff mod 32 = 0);
          y \<leftarrow> ent st e;
          if aoff \<le> 32
          then put_ent st this aoff
                 (sne_encode (if aoff = 0 then dot_name else dotdot_name) ATTR_DIRECTORY (first_clus y) 0)
          else do {
            len \<leftarrow> strlen (filename y) 0;
            let entcnt = (len + CHAR_LONG_NAME - 1) div CHAR_LONG_NAME;
            sn \<leftarrow> getShortName (take len (filename y));
            (st, o') \<leftarrow> put_lnes entcnt entcnt st this (filename y) (getCheckSum sn) aoff;
            y \<leftarrow> ent st e;
            put_ent st this o' (sne_encode sn (attribute y) (first_clus y) (file_size y)) } }"

definition fat_alloc :: "FAT \<Rightarrow> nat \<Rightarrow> (FAT \<times> nat) option" where
  "fat_alloc st e =
     do { x \<leftarrow> ent st e; sb \<leftarrow> sb_of st x; (B, c) \<leftarrow> allocClus sb (blks st); Some (st\<lparr>blks := B\<rparr>, c) }"

definition entCreate :: "FAT \<Rightarrow> nat \<Rightarrow> byte list \<Rightarrow> byte \<Rightarrow> (FAT \<times> nat option) option" where
  "entCreate st this name attr =
     do { x \<leftarrow> ent st this;
          ensure (has (attribute x) ATTR_DIRECTORY);
          let nm = flName name;
          if valid x \<noteq> 1 \<or> nm = [] then Some (st, None)
          else do {
            (st, r, o') \<leftarrow> entSearch st this nm (Some 0);
            if r \<noteq> None then Some (st, r)
            else do {
              (st, ep) \<leftarrow> eCacheHit st this nm 0;
              st \<leftarrow> entDup st this;
              f \<leftarrow> (do { y \<leftarrow> ent st ep; m \<leftarrow> strncpy (filename y @ c_str nm) 0 (length (filename y)) FAT32_MAX_FILENAME;
                        wr (take (length (filename y)) m) FAT32_MAX_FILENAME 0 });
              st \<leftarrow> set_ent st ep (\<lambda>y. y\<lparr>attribute := attr, file_size := 0, first_clus := 0, parent := Some this,
                     off := the o', clus_cnt := 0, cur_clus := 0, ent_dirty := False, filename := f\<rparr>);
              st \<leftarrow> (if attr = ATTR_DIRECTORY
                    then do {
                      (st, c) \<leftarrow> fat_alloc st this;
                      st \<leftarrow> set_ent st ep (\<lambda>y. y\<lparr>attribute := attribute y OR ATTR_DIRECTORY, cur_clus := c, first_clus := c\<rparr>);
                      st \<leftarrow> entCreateOnDisk st ep ep 0;
                      entCreateOnDisk st ep this 32 }
                    else set_ent st ep (\<lambda>y. y\<lparr>attribute := attribute y OR ATTR_ARCHIVE\<rparr>));
              st \<leftarrow> entCreateOnDisk st this ep (the o');
              st \<leftarrow> set_ent st ep (\<lambda>y. y\<lparr>valid := 1\<rparr>);
              Some (st, Some ep) } } }"

subsection \<open>Reading and writing\<close>

function read_loop :: "nat \<Rightarrow> FAT \<Rightarrow> nat \<Rightarrow> nat \<Rightarrow> nat \<Rightarrow> (FAT \<times> byte list) option" where
  "read_loop bpc st e aoff left =
     (if left = 0 then Some (st, [])
      else do {
        x \<leftarrow> ent st e;
        if FAT32_EOC \<le> cur_clus x then Some (st, [])
        else if bpc = 0 then None
        else do {
          (st, r) \<leftarrow> relocClus st e aoff False;
          let m = min (bpc - aoff mod bpc) left;
          x \<leftarrow> ent st e;
          v \<leftarrow> rwClus_rd st x (cur_clus x) (aoff mod bpc) m;
          (st, w) \<leftarrow> read_loop bpc st e (u32 (aoff + m)) (left - m);
          Some (st, v @ w) } })"
  by pat_completeness auto
termination
  by (relation "measure (\<lambda>(bpc, st, e, aoff, left). left)") auto

function write_loop :: "nat \<Rightarrow> FAT \<Rightarrow> nat \<Rightarrow> nat \<Rightarrow> byte list \<Rightarrow> (FAT \<times> nat) option" where
  "write_loop bpc st e aoff v =
     (if v = [] then Some (st, aoff)
      else if bpc = 0 then None
      else do {
        (st, r) \<leftarrow> relocClus st e aoff True;
        let m = min (bpc - aoff mod bpc) (length v);
        x \<leftarrow> ent st e;
        st \<leftarrow> rwClus_wr st x (cur_clus x) (aoff mod bpc) (take m v);
        write_loop bpc st e (u32 (aoff + m)) (drop m v) })"
  by pat_completeness auto
termination
  by (relation "measure (\<lambda>(bpc, st, e, aoff, v). length v)") auto

declare read_loop.simps [simp del] write_loop.simps [simp del]

definition bpc_of :: "FAT \<Rightarrow> nat \<Rightarrow> nat option" where
  "bpc_of st e = do { x \<leftarrow> ent st e; sb \<leftarrow> sb_of st x; Some (rBPC sb) }"

definition entRead :: "FAT \<Rightarrow> nat \<Rightarrow> nat \<Rightarrow> nat \<Rightarrow> (FAT \<times> byte list) option" where
  "entRead st e aoff len =
     do { x \<leftarrow> ent st e;
          if file_size x < aoff \<or> u32 (aoff + len) < aoff \<or> has (attribute x) ATTR_DIRECTORY then Some (st, [])
          else do {
            st \<leftarrow> follow_link st e;
            bpc \<leftarrow> bpc_of st e;
            read_loop bpc st e aoff (if file_size x < aoff + len then file_size x - aoff else len) } }"

definition entWrite :: "FAT \<Rightarrow> nat \<Rightarrow> nat \<Rightarrow> byte list \<Rightarrow> (FAT \<times> int) option" where
  "entWrite st e aoff v =
     do { x \<leftarrow> ent st e;
          if file_size x < aoff \<or> u32 (aoff + length v) < aoff \<or> 0xffffffff < aoff + length v \<or> has (attribute x) ATTR_READ_ONLY
          then Some (st, - 1)
          else do {
            st \<leftarrow> follow_link st e;
            x \<leftarrow> ent st e;
            st \<leftarrow> (if first_clus x = 0
                  then do { (st, c) \<leftarrow> fat_alloc st e;
                            set_ent st e (\<lambda>x. x\<lparr>cur_clus := c, first_clus := c, clus_cnt := 0, ent_dirty := True\<rparr>) }
                  else Some st);
            bpc \<leftarrow> bpc_of st e;
            (st, o') \<leftarrow> write_loop bpc st e aoff v;
            st \<leftarrow> (if 0 < length v \<and> file_size x < o'
                  then set_ent st e (\<lambda>x. x\<lparr>file_size := o', ent_dirty := True\<rparr>) else Some st);
            Some (st, int (length v)) } }"

subsection \<open>Removing and linking\<close>

fun remove_loop :: "nat \<Rightarrow> FAT \<Rightarrow> nat \<Rightarrow> nat \<Rightarrow> nat \<Rightarrow> FAT option" where
  "remove_loop 0 st p off1 off2 = Some st"
| "remove_loop (Suc n) st p off1 off2 =
     do { px \<leftarrow> ent st p;
          st \<leftarrow> rwClus_wr st px (cur_clus px) off2 [EMPTY_ENTRY];
          (st, r) \<leftarrow> relocClus st p (u32 (off1 + 32)) False;
          remove_loop n st p (u32 (off1 + 32)) (uoff r) }"

definition entRemove :: "FAT \<Rightarrow> nat \<Rightarrow> FAT option" where
  "entRemove st e =
     do { x \<leftarrow> ent st e;
          if valid x \<noteq> 1 then Some st
          else do {
            p \<leftarrow> parent x;
            (st, r) \<leftarrow> relocClus st p (off x) False;
            px \<leftarrow> ent st p;
            entcnt \<leftarrow> slot_count st p px (uoff r);
            st \<leftarrow> remove_loop (Suc entcnt) st p (off x) (uoff r);
            set_ent st e (\<lambda>x. x\<lparr>valid := - 1\<rparr>) } }"

definition entLink :: "FAT \<Rightarrow> nat \<Rightarrow> nat option \<Rightarrow> (FAT \<times> int) option" where
  "entLink st e target =
     (case target of None \<Rightarrow> Some (st, - 1)
      | Some t \<Rightarrow> do {
        x \<leftarrow> ent st e;
        p \<leftarrow> parent x;
        (st, r) \<leftarrow> relocClus st p (off x) False;
        px \<leftarrow> ent st p;
        de \<leftarrow> rwClus_rd st px (cur_clus px) (uoff r) 32;
        if lne_order de = END_OF_ENTRY then Some (st, - 1)
        else do {
          (st, de) \<leftarrow> (if \<not> has (ent_attr de) ATTR_LINK
            then do {
              (st, c) \<leftarrow> fat_alloc st e;
              st \<leftarrow> rwClus_wr st x c 0 (de @ enc32 2);
              let de1 = set_sne (patch de 11 [ATTR_DIRECTORY OR ATTR_LINK]) c 36;
              st \<leftarrow> rwClus_wr st px (cur_clus px) (uoff r) de1;
              Some (st, de1) }
            else do {
              li \<leftarrow> rwClus_rd st x (sne_clus de) 0 36;
              st \<leftarrow> rwClus_wr st x (sne_clus de) 0 (patch li 32 (enc32 (le32 li 32 + 1)));
              Some (st, de) });
          y \<leftarrow> ent st t;
          (st, r, o') \<leftarrow> entSearch st t (cstring (filename y)) (Some 0);
          if r \<noteq> None then Some (st, - 1)
          else do { st \<leftarrow> put_ent st t (the o') de; Some (st, 0) } } })"

definition entUnlink :: "FAT \<Rightarrow> nat \<Rightarrow> (FAT \<times> int) option" where
  "entUnlink st e =
     do { x \<leftarrow> ent st e;
          p \<leftarrow> parent x;
          (st, r) \<leftarrow> relocClus st p (off x) False;
          px \<leftarrow> ent st p;
          de \<leftarrow> rwClus_rd st px (cur_clus px) (uoff r) 32;
          if lne_order de = END_OF_ENTRY then Some (st, - 1)
          else if \<not> has (ent_attr de) ATTR_LINK then Some (st, 0)
          else do {
            li \<leftarrow> rwClus_rd st x (sne_clus de) 0 36;
            if u32 (le32 li 32 + 2 ^ 32 - 1) \<noteq> 0 then Some (st, 0)
            else do {
              sb \<leftarrow> sb_of st x;
              st \<leftarrow> rwClus_wr (st\<lparr>blks := freeClus sb (blks st) (sne_clus de)\<rparr>) px (cur_clus px) (uoff r) (take 32 li);
              Some (st, 0) } } }"

end
