(* ===== verification/FatNode.thy ===== *)
theory FatNode
  imports FatFile
begin

text \<open>
  The inodes of FAT32 and the loading of its super block (\<open>include/fat.hh\<close>, \<open>kernel/fs/fat.cc\<close>).  An
  inode holds one reference to its directory entry; a method that finds no entry panics.
\<close>

record FatINode =
  inode_num :: nat
  entry :: "nat option"

definition S_IFMT :: nat where "S_IFMT = 0xF000"
definition S_IFREG :: nat where "S_IFREG = 0x8000"
definition S_IFDIR :: nat where "S_IFDIR = 0x4000"
definition S_IFCHR :: nat where "S_IFCHR = 0x2000"
definition S_IFIFO :: nat where "S_IFIFO = 0x1000"
definition O_WRONLY :: nat where "O_WRONLY = 1"
definition O_RDWR :: nat where "O_RDWR = 2"

definition nodDup :: "FAT \<Rightarrow> nat option \<Rightarrow> FAT option" where
  "nodDup st en = (case en of None \<Rightarrow> Some st | Some e \<Rightarrow> entDup st e)"

definition nodRelse :: "FAT \<Rightarrow> FatINode \<Rightarrow> FAT option" where
  "nodRelse st n = (case entry n of None \<Rightarrow> Some st | Some e \<Rightarrow> entRelse st e)"

definition INode_new :: "FAT \<Rightarrow> nat \<Rightarrow> FatINode option" where
  "INode_new st e = do { x \<leftarrow> ent st e; Some \<lparr>inode_num = first_clus x, entry = Some e\<rparr> }"

definition INode_assign :: "FAT \<Rightarrow> FatINode \<Rightarrow> FatINode \<Rightarrow> (FAT \<times> FatINode) option" where
  "INode_assign st n m = do { st \<leftarrow> nodRelse st n; st \<leftarrow> nodDup st (entry m); Some (st, m) }"

definition fat_lookup :: "FAT \<Rightarrow> FatINode \<Rightarrow> byte list \<Rightarrow> nat option \<Rightarrow> (FAT \<times> FatINode option \<times> nat option) option" where
  "fat_lookup st n nm aoff =
     do { e \<leftarrow> entry n;
          (st, r, o') \<leftarrow> entSearch st e nm aoff;
          case r of None \<Rightarrow> Some (st, None, o')
          | Some ep \<Rightarrow> do { m \<leftarrow> INode_new st ep; Some (st, Some m, o') } }"

text \<open>\<open>O_RDONLY\<close> is zero, so \<open>mknod\<close> never sets \<open>ATTR_READ_ONLY\<close>.\<close>

definition fat_mknod :: "FAT \<Rightarrow> FatINode \<Rightarrow> byte list \<Rightarrow> nat \<Rightarrow> (FAT \<times> FatINode option) option" where
  "fat_mknod st n nm mode =
     do { e \<leftarrow> entry n;
          (st, r) \<leftarrow> entCreate st e nm (if mode AND S_IFMT = S_IFDIR then ATTR_DIRECTORY else ATTR_ARCHIVE);
          case r of None \<Rightarrow> Some (st, None)
          | Some ep \<Rightarrow> do { m \<leftarrow> INode_new st ep; Some (st, Some m) } }"

definition nodRemove :: "FAT \<Rightarrow> FatINode \<Rightarrow> FAT option" where
  "nodRemove st n = do { e \<leftarrow> entry n; entRemove st e }"

definition nodHardLink :: "FAT \<Rightarrow> FatINode \<Rightarrow> FatINode \<Rightarrow> (FAT \<times> int) option" where
  "nodHardLink st n m = do { e \<leftarrow> entry n; entLink st e (entry m) }"

definition nodHardUnlink :: "FAT \<Rightarrow> FatINode \<Rightarrow> (FAT \<times> int) option" where
  "nodHardUnlink st n = do { e \<leftarrow> entry n; entUnlink st e }"

definition nodTrunc :: "FAT \<Rightarrow> FatINode \<Rightarrow> FAT option" where
  "nodTrunc st n = do { e \<leftarrow> entry n; entTrunc st e }"

definition nodRead :: "FAT \<Rightarrow> FatINode \<Rightarrow> nat \<Rightarrow> nat \<Rightarrow> (FAT \<times> byte list) option" where
  "nodRead st n aoff len = do { e \<leftarrow> entry n; entRead st e aoff len }"

definition nodWrite :: "FAT \<Rightarrow> FatINode \<Rightarrow> nat \<Rightarrow> byte list \<Rightarrow> (FAT \<times> int) option" where
  "nodWrite st n aoff v = do { e \<leftarrow> entry n; entWrite st e aoff v }"

definition nodEmpty :: "FAT \<Rightarrow> FatINode \<Rightarrow> (FAT \<times> bool) option" where
  "nodEmpty st n = do { e \<leftarrow> entry n; isEmpty st e }"

definition rMode :: "FAT \<Rightarrow> FatINode \<Rightarrow> nat option" where
  "rMode st n = do { e \<leftarrow> entry n; x \<leftarrow> ent st e;
     Some ((if has (attribute x) ATTR_DIRECTORY then S_IFDIR else S_IFREG) OR
           (if has (attribute x) ATTR_READ_ONLY then 0 else O_RDWR)) }"

definition rDev :: "FAT \<Rightarrow> FatINode \<Rightarrow> nat option" where
  "rDev st n = do { e \<leftarrow> entry n; x \<leftarrow> ent st e; sb \<leftarrow> sb_of st x; Some (dev sb) }"

definition rFileSize :: "FAT \<Rightarrow> FatINode \<Rightarrow> nat option" where
  "rFileSize st n = do { e \<leftarrow> entry n; x \<leftarrow> ent st e; Some (file_size x) }"

definition rINo :: "FatINode \<Rightarrow> nat option" where
  "rINo n = do { e \<leftarrow> entry n; Some (inode_num n) }"

definition getSpBlk :: "FAT \<Rightarrow> FatINode \<Rightarrow> SuperBlock option" where
  "getSpBlk st n = do { e \<leftarrow> entry n; x \<leftarrow> ent st e;
     i \<leftarrow> (case mntblk x of None \<Rightarrow> spblk x | Some i \<Rightarrow> Some i); rd (sblks st) i }"

definition INode_unInstall :: "FAT \<Rightarrow> FatINode \<Rightarrow> (FAT \<times> FatINode) option" where
  "INode_unInstall st n =
     do { e \<leftarrow> entry n; st \<leftarrow> entRelse st e;
          st \<leftarrow> set_ent st e (\<lambda>x. x\<lparr>spblk := None, mntblk := None\<rparr>); Some (st, n\<lparr>entry := None\<rparr>) }"

subsection \<open>Listing a directory\<close>

record DStat =
  d_ino :: nat
  d_off :: int
  d_reclen :: nat
  d_type :: nat
  d_name :: "byte list"

definition DStat_size :: nat where
  "DStat_size = 280"

text \<open>\<open>d_type\<close> is an \<open>uint8\<close> and is given a file mode, of which it keeps the low byte.\<close>

definition DStat_new :: "nat \<Rightarrow> int \<Rightarrow> nat \<Rightarrow> nat \<Rightarrow> byte list \<Rightarrow> DStat" where
  "DStat_new i o' len t nm = \<lparr>d_ino = i, d_off = o', d_reclen = len, d_type = t mod 256,
     d_name = take 255 nm @ replicate (256 - length (take 255 nm)) 0\<rparr>"

fun readDir_loop :: "nat \<Rightarrow> FAT \<Rightarrow> nat \<Rightarrow> nat \<Rightarrow> (FAT \<times> DStat list \<times> nat) option" where
  "readDir_loop 0 st e aoff = Some (st, [], aoff)"
| "readDir_loop (Suc n) st e aoff =
     do { (st, r, o') \<leftarrow> entSearch st e [] (Some aoff);
          case r of
            None \<Rightarrow> Some (st, [], the o')
          | Some ep \<Rightarrow> do {
              y \<leftarrow> ent st ep;
              (st, ds, o'') \<leftarrow> readDir_loop n st e (the o');
              Some (st, DStat_new (first_clus y) (int (the o') - int (off y)) DStat_size
                     (if has (attribute y) ATTR_DIRECTORY then S_IFDIR else S_IFREG) (cstring (filename y)) # ds, o'') } }"

definition readDir :: "FAT \<Rightarrow> FatINode \<Rightarrow> nat \<Rightarrow> nat \<Rightarrow> (FAT \<times> DStat list \<times> nat \<times> nat) option" where
  "readDir st n len aoff =
     do { e \<leftarrow> entry n;
          (st, ds, o') \<leftarrow> readDir_loop len st e aoff;
          let ds' = (if ds = [] then [] else butlast ds @ [(last ds)\<lparr>d_off := 0\<rparr>]);
          Some (st, ds', o', length ds * DStat_size) }"

subsection \<open>Loading a volume\<close>

definition fat_root_ent :: "nat \<Rightarrow> nat \<Rightarrow> DirEnt \<Rightarrow> DirEnt" where
  "fat_root_ent nx pv x = x\<lparr>filename := 47 # replicate (FAT32_MAX_FILENAME - 1) 0 @ drop FAT32_MAX_FILENAME (filename x),
     attribute := ATTR_DIRECTORY OR ATTR_SYSTEM, first_clus := 0, file_size := 0, cur_clus := 0, clus_cnt := 0,
     spblk := None, mntblk := None, ent_dirty := False, valid := 1, ref := 1, off := 0, parent := None,
     ent_next := nx, ent_prev := pv, mount_flag := False\<rparr>"

text \<open>The state, the index of the new super block and the entry of its root directory.\<close>

definition ldSpBlk :: "FAT \<Rightarrow> nat \<Rightarrow> nat \<Rightarrow> (FAT \<times> nat \<times> nat) option" where
  "ldSpBlk st fs dv =
     do { let st0 = (if ecacheinit st then (eCacheInit st)\<lparr>ecacheinit := False\<rparr> else st);
          (st, rt) \<leftarrow> eCacheAlloc st0 None;
          x \<leftarrow> ent st rt;
          st \<leftarrow> set_ent st rt (fat_root_ent (ent_next x) (ent_prev x));
          sb \<leftarrow> SuperBlock_of rt fs dv (BPB_of (blks st (blk dv 0)));
          ensure (rBPS sb = blockSize);
          let i = length (sblks st);
          st \<leftarrow> set_ent (st\<lparr>sblks := sblks st @ [sb]\<rparr>) rt
                 (\<lambda>x. x\<lparr>spblk := Some i, first_clus := root_clus (bpb sb), cur_clus := root_clus (bpb sb)\<rparr>);
          Some (st, i, rt) }"

definition SuperBlock_unInstall :: "FAT \<Rightarrow> nat \<Rightarrow> FAT option" where
  "SuperBlock_unInstall st i =
     do { sb \<leftarrow> rd (sblks st) i; Some (st\<lparr>sblks := (sblks st)[i := sb\<lparr>sb_valid := False\<rparr>]\<rparr>) }"

end
