(* ===== verification/Ramfs.thy ===== *)
theory Ramfs
  imports FatNode
begin

text \<open>
  The file system in memory of \<open>include/fs/ramfs.hh\<close> and the files of \<open>/proc\<close> and \<open>/dev\<close> that
  \<open>kernel/syscall/custom.cc\<close> derives from its inodes.  Inodes are indices into a table; the class of
  an inode is its \<open>ri_kind\<close>.  What the special files read of the rest of the kernel is the record
  \<open>ramenv\<close>: the mount table in its iteration order, the clock, the path of the running program, the
  interrupt counters, the hash of the container library and the contents of fresh memory.
\<close>

datatype RamKind =
    Plain | MountsFile | MountsInfoFile | MemInfoFile | RTCFile | ExeFile | ZeroFile | NullFile | InterruptsFile

record RamINode =
  ri_super :: nat
  ri_ino :: nat
  isDir :: bool
  ri_bytes :: "byte list"
  ri_subs :: "(byte list \<times> nat) list"
  ri_kind :: RamKind

record RamSuper =
  rs_root :: nat
  rs_ino :: nat

record ramfs =
  rnodes :: "RamINode list"
  rsupers :: "RamSuper list"

record ramenv =
  env_mounts :: "(byte list \<times> byte list) list"
  env_now :: nat
  env_exe :: "byte list"
  env_irqcnt :: "nat list"
  env_hash :: "byte list \<Rightarrow> int"
  env_fresh :: "nat \<Rightarrow> byte list"

subsection \<open>Super blocks and inodes\<close>

definition set_node :: "ramfs \<Rightarrow> nat \<Rightarrow> (RamINode \<Rightarrow> RamINode) \<Rightarrow> ramfs option" where
  "set_node s i f = do { n \<leftarrow> rd (rnodes s) i; Some (s\<lparr>rnodes := (rnodes s)[i := f n]\<rparr>) }"

text \<open>\<open>SuperBlock::mknod\<close>: a new inode with the next number.\<close>

definition super_mknod :: "ramfs \<Rightarrow> nat \<Rightarrow> bool \<Rightarrow> RamKind \<Rightarrow> (ramfs \<times> nat) option" where
  "super_mknod s sp dir kd =
     do { sb \<leftarrow> rd (rsupers s) sp;
          let ino = rs_ino sb + 1;
          Some (s\<lparr>rsupers := (rsupers s)[sp := sb\<lparr>rs_ino := ino\<rparr>],
                  rnodes := rnodes s @ [\<lparr>ri_super = sp, ri_ino = ino, isDir = dir, ri_bytes = [], ri_subs = [], ri_kind = kd\<rparr>]\<rparr>,
                length (rnodes s)) }"

definition ramfs_new :: "ramfs \<Rightarrow> (ramfs \<times> nat) option" where
  "ramfs_new s =
     do { let sp = length (rsupers s);
          (s, root) \<leftarrow> super_mknod (s\<lparr>rsupers := rsupers s @ [\<lparr>rs_root = 0, rs_ino = 0\<rparr>]\<rparr>) sp True Plain;
          sb \<leftarrow> rd (rsupers s) sp;
          Some (s\<lparr>rsupers := (rsupers s)[sp := sb\<lparr>rs_root := root\<rparr>]\<rparr>, sp) }"

definition assoc_put :: "(byte list \<times> 'a) list \<Rightarrow> byte list \<Rightarrow> 'a \<Rightarrow> (byte list \<times> 'a) list" where
  "assoc_put xs k v = (k, v) # filter (\<lambda>e. fst e \<noteq> k) xs"

definition ram_link :: "ramfs \<Rightarrow> nat \<Rightarrow> byte list \<Rightarrow> nat \<Rightarrow> ramfs option" where
  "ram_link s i nm j = set_node s i (\<lambda>n. n\<lparr>ri_subs := assoc_put (ri_subs n) nm j\<rparr>)"

definition ram_lookup :: "ramfs \<Rightarrow> nat \<Rightarrow> byte list \<Rightarrow> nat option option" where
  "ram_lookup s i nm =
     do { n \<leftarrow> rd (rnodes s) i; Some (if \<not> isDir n then None else map_of (ri_subs n) nm) }"

definition ram_mknod :: "ramfs \<Rightarrow> nat \<Rightarrow> byte list \<Rightarrow> nat \<Rightarrow> (ramfs \<times> nat option) option" where
  "ram_mknod s i nm mode =
     do { n \<leftarrow> rd (rnodes s) i;
          if \<not> isDir n then Some (s, None)
          else do {
            (s, j) \<leftarrow> super_mknod s (ri_super n) (mode AND S_IFMT = S_IFDIR) Plain;
            s \<leftarrow> ram_link s i nm j;
            Some (s, Some j) } }"

definition ram_isEmpty :: "RamINode \<Rightarrow> bool" where
  "ram_isEmpty n = (if isDir n then ri_subs n = [] else ri_bytes n = [])"

definition ram_rMode :: "RamINode \<Rightarrow> nat" where
  "ram_rMode n = (if ri_kind n = RTCFile then S_IFCHR else if isDir n then S_IFDIR else S_IFREG)"

subsection \<open>The files of \<open>/proc\<close> and \<open>/dev\<close>\<close>

text \<open>
  The loop the text files share: \<open>o'\<close> is what is left of the offset, and every line copies up to
  \<open>len\<close> bytes.
\<close>

fun read_lines :: "byte list list \<Rightarrow> int \<Rightarrow> nat \<Rightarrow> byte list" where
  "read_lines [] o' len = []"
| "read_lines (l # ls) o' len =
     (let b = int (min len (length l)) - o'
      in (if o' < b then take (nat b) (drop (nat o') l) else []) @
         read_lines ls (if 0 < o' then o' - min b o' else o') len)"

text \<open>The offset is converted to \<open>int\<close>; a negative one would read in front of the line.\<close>

definition text_read :: "byte list list \<Rightarrow> nat \<Rightarrow> nat \<Rightarrow> (byte list \<times> int) option" where
  "text_read ls aoff len =
     do { ensure (ls = [] \<or> aoff < 2 ^ 31);
          let v = read_lines ls (int aoff) len;
          Some (v, int (length v)) }"

definition mounts_line :: "byte list \<times> byte list \<Rightarrow> byte list" where
  "mounts_line m = fst m @ str_bytes '' on '' @ fst m @ str_bytes '' type '' @ snd m @ str_bytes ''(rw)'' @ [10]"

definition mountinfo_line :: "ramenv \<Rightarrow> byte list \<times> byte list \<Rightarrow> byte list option" where
  "mountinfo_line e m = format (env_fresh e) (str_bytes ''%d %d %d:0 / %s rw,noatime - %s none rw,errors=continue'')
     [VInt (env_hash e (fst m)), VInt 0, VInt 1, VStr (fst m), VStr (snd m)]"

definition interrupts_line :: "ramenv \<Rightarrow> nat \<times> nat \<Rightarrow> byte list option" where
  "interrupts_line e ic =
     do { a \<leftarrow> format (env_fresh e) (str_bytes ''%d'') [VInt (int (fst ic))];
          b \<leftarrow> format (env_fresh e) (str_bytes ''%d'') [VInt (int (snd ic))];
          Some (a @ str_bytes '': '' @ b @ [10]) }"

fun all_lines :: "('a \<Rightarrow> byte list option) \<Rightarrow> 'a list \<Rightarrow> byte list list option" where
  "all_lines f [] = Some []"
| "all_lines f (x # xs) = do { l \<leftarrow> f x; ls \<leftarrow> all_lines f xs; Some (l # ls) }"

definition enc64 :: "nat \<Rightarrow> byte list" where
  "enc64 v = enc32 v @ enc32 (v div 2 ^ 32)"

text \<open>
  The virtual \<open>nodRead\<close>: the bytes copied and the result.  Plain files subtract the offset from the
  size without a check; an offset behind the end reads outside the vector.
\<close>

definition ram_nodRead :: "ramenv \<Rightarrow> RamINode \<Rightarrow> nat \<Rightarrow> nat \<Rightarrow> (byte list \<times> int) option" where
  "ram_nodRead e n aoff len = (case ri_kind n of
      MountsFile \<Rightarrow> text_read (map mounts_line (env_mounts e)) aoff len
    | MemInfoFile \<Rightarrow> text_read (map mounts_line (env_mounts e)) aoff len
    | MountsInfoFile \<Rightarrow> do { ls \<leftarrow> all_lines (mountinfo_line e) (env_mounts e); text_read ls aoff len }
    | InterruptsFile \<Rightarrow> do {
        ls \<leftarrow> all_lines (interrupts_line e) (filter (\<lambda>ic. 0 < snd ic) (zip [0..<length (env_irqcnt e)] (env_irqcnt e)));
        text_read ls aoff len }
    | RTCFile \<Rightarrow> Some (if aoff < 8 then (enc64 (env_now e), 8) else ([], 0))
    | ZeroFile \<Rightarrow> Some (replicate len 0, int len)
    | NullFile \<Rightarrow> Some ([], - 1)
    | _ \<Rightarrow> if isDir n then Some ([], - 1)
        else (let m = min len (sub64 (length (ri_bytes n)) aoff)
              in do { ensure (aoff + m \<le> length (ri_bytes n)); Some (take m (drop aoff (ri_bytes n)), int m) }))"

definition ram_nodWrite :: "ramfs \<Rightarrow> nat \<Rightarrow> nat \<Rightarrow> byte list \<Rightarrow> (ramfs \<times> int) option" where
  "ram_nodWrite s i aoff v =
     do { n \<leftarrow> rd (rnodes s) i;
          if ri_kind n \<in> {ZeroFile, NullFile, InterruptsFile} then Some (s, int (length v))
          else if isDir n then Some (s, - 1)
          else do {
            let nend = u32 (aoff + length v);
            let b = (if length (ri_bytes n) < nend
                     then ri_bytes n @ replicate (nend - length (ri_bytes n)) 0 else ri_bytes n);
            ensure (aoff + length v \<le> length b);
            s \<leftarrow> set_node s i (\<lambda>n. n\<lparr>ri_bytes := patch b aoff v\<rparr>);
            Some (s, int (length v)) } }"

definition ram_readLink :: "ramenv \<Rightarrow> RamINode \<Rightarrow> nat \<Rightarrow> byte list \<times> int" where
  "ram_readLink e n sz =
     (if ri_kind n = ExeFile then (take sz (env_exe e), int (min sz (length (env_exe e)))) else ([], - 1))"

subsection \<open>The clock device\<close>

record rtc_time =
  tm_sec :: nat
  tm_min :: nat
  tm_hour :: nat
  tm_mday :: nat
  tm_mon :: nat
  tm_year :: nat

definition RTC_RD_TIME :: nat where
  "RTC_RD_TIME = 0x80247009"

definition days :: "nat list list" where
  "days = [
     [   0,  31,  60,  91, 121, 152, 182, 213, 244, 274, 305, 335],
     [ 366, 397, 425, 456, 486, 517, 547, 578, 609, 639, 670, 700],
     [ 731, 762, 790, 821, 851, 882, 912, 943, 974,1004,1035,1065],
     [1096,1127,1155,1186,1216,1247,1277,1308,1339,1369,1400,1430]]"

fun find_down :: "nat \<Rightarrow> (nat \<Rightarrow> nat) \<Rightarrow> nat \<Rightarrow> nat" where
  "find_down 0 f v = 0"
| "find_down (Suc k) f v = (if f (Suc k) \<le> v then Suc k else find_down k f v)"

definition rtc_read_time :: "nat \<Rightarrow> rtc_time" where
  "rtc_read_time now =
     (let e3 = now div 60 div 60 div 24;
          years = e3 div (365 * 4 + 1) * 4;
          ep = e3 mod (365 * 4 + 1);
          y = find_down 3 (\<lambda>y. days ! y ! 0) ep;
          m = find_down 11 (\<lambda>m. days ! y ! m) ep
      in \<lparr>tm_sec = now mod 60, tm_min = now div 60 mod 60, tm_hour = now div 60 div 60 mod 24,
          tm_mday = ep - days ! y ! m + 1, tm_mon = m + 1, tm_year = years + y\<rparr>)"

text \<open>\<open>RTCFile::ioctl\<close>: the time to be written to the user, or \<open>-EINVAL\<close>.\<close>

definition rtc_ioctl :: "ramenv \<Rightarrow> nat \<Rightarrow> int + rtc_time" where
  "rtc_ioctl e req = (if req = RTC_RD_TIME then Inr (rtc_read_time (env_now e)) else Inl (- 22))"

end
