(* ===== verification/Codec.thy ===== *)
theory Codec
  imports Ramfs
begin

text \<open>Numbers in buffers: what is read where a number was written, and that writing changes nothing else.\<close>

lemma le16_at: "length xs = i \<Longrightarrow> le16 (xs @ enc16 v @ ys) i = v mod 65536"
proof -
  assume l: "length xs = i"
  have "v mod 256 + 256 * (v div 256 mod 256) = v mod 65536"
    using mod_mult2_eq[of v 256 256] by simp
  then show ?thesis using l[symmetric] by (simp add: le16_def enc16_def nth_append unat_of_nat)
qed

lemma length_enc [simp]: "length (enc16 v) = 2" "length (enc32 v) = 4" "length (enc64 v) = 8"
  by (simp_all add: enc16_def enc32_def enc64_def)

lemma le32_at: "length xs = i \<Longrightarrow> le32 (xs @ enc32 v @ ys) i = v mod 2 ^ 32"
proof -
  assume l: "length xs = i"
  have a: "le16 (xs @ enc32 v @ ys) i = v mod 65536"
    using le16_at[OF l, of v "enc16 (v div 65536) @ ys"] by (simp add: enc32_def)
  have b: "le16 (xs @ enc32 v @ ys) (i + 2) = v div 65536 mod 65536"
    using le16_at[of "xs @ enc16 v" "i + 2" "v div 65536" ys] l by (simp add: enc32_def)
  show ?thesis using mod_mult2_eq[of v 65536 65536] unfolding le32_def a b by simp
qed

lemma length_patch [simp]: "i + length v \<le> length b \<Longrightarrow> length (patch b i v) = length b"
  by (simp add: patch_def)

lemma nth_patch:
  "i + length v \<le> length b \<Longrightarrow> j < length b \<Longrightarrow> patch b i v ! j = (if i \<le> j \<and> j < i + length v then v ! (j - i) else b ! j)"
  by (auto simp: patch_def nth_append)

lemma le32_patch_same: "i + 4 \<le> length b \<Longrightarrow> le32 (patch b i (enc32 v)) i = v mod 2 ^ 32"
  unfolding patch_def by (rule le32_at) simp

lemma le32_patch_other:
  "i + 4 \<le> length b \<Longrightarrow> j + 4 \<le> length b \<Longrightarrow> j + 4 \<le> i \<or> i + 4 \<le> j \<Longrightarrow> le32 (patch b i (enc32 v)) j = le32 b j"
  by (auto simp: le32_def le16_def nth_patch)

lemma patch_read: "i + length v \<le> length b \<Longrightarrow> take (length v) (drop i (patch b i v)) = v"
  by (simp add: patch_def)

end
