(* ===== verification/FatSpec.thy ===== *)
theory FatSpec
  imports FatName Codec
begin

text \<open>The FAT volume: the allocation table and the clusters give back what was written; short names.\<close>

subsection \<open>The allocation table\<close>

lemma fat_place:
  assumes "rBPS sb = 512" "c < 2 ^ 28" "rRSC sb < 65536"
  shows "numthSec sb c 1 = rRSC sb + c div 128" "secOffset sb c = 4 * (c mod 128)"
proof -
  have "4 * c div 512 = c div 128" "4 * c mod 512 = 4 * (c mod 128)"
    using div_mult_mult1[of 4 c 128] mult_mod_right[of 4 c 128] by simp_all
  then show "numthSec sb c 1 = rRSC sb + c div 128" "secOffset sb c = 4 * (c mod 128)"
    using assms by (simp_all add: numthSec_def secOffset_def u32_def mult.commute)
qed

text \<open>C16: Reading an entry of the allocation table gives the value that was last written to it, and writing an
  entry changes no other entry.\<close>

theorem fatWrite_fatRead:
  assumes sb: "rBPS sb = 512" "rRSC sb < 65536" "rDCC sb + 1 < FAT32_EOC" and B: "\<forall>k. length (B k) = 512"
    and c: "c \<le> rDCC sb + 1" and v: "v < 2 ^ 32"
  shows "\<exists>B'. fatWrite sb B c v = (B', 0) \<and> fatRead sb B' c = v \<and> (\<forall>c'. c' \<noteq> c \<longrightarrow> fatRead sb B' c' = fatRead sb B c')"
proof -
  let ?k = "\<lambda>c. blk 0 (numthSec sb c 1)"
  let ?B = "B(?k c := patch (B (?k c)) (secOffset sb c) (enc32 v))"
  have small: "x < 2 ^ 28" if "x \<le> rDCC sb + 1" for x using that sb by (simp add: FAT32_EOC_def)
  have d: "u32 (rDCC sb + 1) = rDCC sb + 1" using sb by (simp add: u32_def FAT32_EOC_def)
  have off: "secOffset sb x + 4 \<le> 512" if "x \<le> rDCC sb + 1" for x
    using fat_place(2)[OF sb(1) small[OF that] sb(2)] by simp
  have w: "fatWrite sb B c v = (?B, 0)" using c d by (simp add: fatWrite_def Let_def)
  have r: "fatRead sb ?B c = v" using c d sb(3) B off[OF c] v by (simp add: fatRead_def le32_patch_same)
  have "fatRead sb ?B x = fatRead sb B x" if x: "x \<noteq> c" for x
  proof (cases "x \<le> rDCC sb + 1 \<and> ?k x = ?k c")
    case True
    then have x': "x \<le> rDCC sb + 1" and "numthSec sb x 1 = numthSec sb c 1" by (auto simp: blk_def)
    then have dv: "x div 128 = c div 128" using fat_place(1)[OF sb(1) small sb(2)] c by simp
    have "x mod 128 \<noteq> c mod 128" using x dv by (metis div_mult_mod_eq)
    then have "secOffset sb x + 4 \<le> secOffset sb c \<or> secOffset sb c + 4 \<le> secOffset sb x"
      using fat_place(2)[OF sb(1) small[OF x'] sb(2)] fat_place(2)[OF sb(1) small[OF c] sb(2)] by linarith
    then show ?thesis using True B off[OF c] off[OF x'] d by (simp add: fatRead_def le32_patch_other)
  qed (use d in \<open>auto simp: fatRead_def\<close>)
  then show ?thesis using w r by blast
qed

definition ex_sb :: FatDisk.SuperBlock where
  "ex_sb = undefined\<lparr>bpb := undefined\<lparr>byts_per_sec := 512, sec_per_clus := 8, rsvd_sec_cnt := 32\<rparr>,
     data_clus_cnt := 1000, first_data_sec := 100, byts_per_clus := 4096, dev := 1\<rparr>"

theorem fatWrite_fatRead_witness:
  "\<exists>B'. fatWrite ex_sb (\<lambda>_. replicate 512 0) 200 7 = (B', 0) \<and> fatRead ex_sb B' 200 = 7
     \<and> (\<forall>c'. c' \<noteq> 200 \<longrightarrow> fatRead ex_sb B' c' = fatRead ex_sb (\<lambda>_. replicate 512 0) c')"
  by (rule fatWrite_fatRead) (simp_all add: ex_sb_def FAT32_EOC_def)

subsection \<open>Clusters\<close>

text \<open>The number of sectors that \<open>n\<close> bytes from offset \<open>p\<close> on touch.\<close>

definition secs :: "nat \<Rightarrow> nat \<Rightarrow> nat" where
  "secs p n = (p mod 512 + n + 511) div 512"

lemma secs_step:
  assumes "m = min (512 - p mod 512) n" "m < n"
  shows "secs p n = 1 + secs (p + m) (n - m)"
proof -
  have m: "m = 512 - p mod 512" "p mod 512 + m = 512" using assms mod_less_divisor[of 512 p] by auto
  have "(p + m) mod 512 = (p mod 512 + m) mod 512" by (simp add: mod_add_left_eq)
  then have z: "(p + m) mod 512 = 0" using m by simp
  have "p mod 512 + n + 511 = 512 + (n - m + 511)" using m assms by simp
  then show ?thesis by (simp add: secs_def z)
qed

lemma secs_pos: "0 < n \<Longrightarrow> 0 < secs p n"
  by (simp add: secs_def div_greater_zero_iff)

lemma wr_loop_one:
  assumes "v \<noteq> []" "length v \<le> 512 - p mod 512"
  shows "wr_loop B dv sec p v = B(blk dv sec := patch (B (blk dv sec)) (p mod 512) v)"
  using assms by (subst wr_loop.simps) (simp add: blockSize_def Let_def wr_loop.simps[of _ _ _ _ "[]"])

lemma wr_loop_more:
  assumes "512 - p mod 512 < length v" "m = 512 - p mod 512" "sec + 1 < 2 ^ 32"
  shows "wr_loop B dv sec p v
    = wr_loop (B(blk dv sec := patch (B (blk dv sec)) (p mod 512) (take m v))) dv (sec + 1) (p + m) (drop m v)"
  using assms by (subst wr_loop.simps) (auto simp: blockSize_def Let_def u32_def)

lemma wr_rd_loop:
  assumes "\<forall>k. length (B k) = 512" "sec + secs p (length v) \<le> 2 ^ 32" "B' = wr_loop B dv sec p v"
  shows "(\<forall>k. (\<forall>s. sec \<le> s \<longrightarrow> s < sec + secs p (length v) \<longrightarrow> k \<noteq> blk dv s) \<longrightarrow> B' k = B k) \<and> rd_loop B' dv sec p (length v) = v"
  using assms
proof (induction "length v" arbitrary: B sec p v rule: less_induct)
  case less
  let ?k = "blk dv sec" and ?m = "512 - p mod 512"
  have pm: "p mod 512 < 512" by simp
  consider "v = []" | "v \<noteq> []" "length v \<le> ?m" | "?m < length v" by linarith
  then show ?case
  proof cases
    case 1
    then show ?thesis using less.prems by (simp add: wr_loop.simps rd_loop.simps)
  next
    case 2
    have B': "B' = B(?k := patch (B ?k) (p mod 512) v)" using less.prems(3) wr_loop_one[OF 2] by simp
    have "0 < secs p (length v)" using 2 by (simp add: secs_pos)
    moreover have "take (length v) (drop (p mod 512) (B' ?k)) = v" using 2 less.prems(1) pm by (simp add: B' patch_read)
    ultimately show ?thesis using 2 B' by (subst rd_loop.simps) (auto simp: blockSize_def Let_def rd_loop.simps[of _ _ _ _ 0] min_def)
  next
    case 3
    let ?v = "drop ?m v" and ?B = "B(?k := patch (B ?k) (p mod 512) (take ?m v))"
    have s: "secs p (length v) = 1 + secs (p + ?m) (length ?v)" using secs_step[of ?m p "length v"] 3 by simp
    have "0 < length ?v" using 3 by simp
    then have "0 < secs (p + ?m) (length ?v)" by (rule secs_pos)
    then have s1: "sec + 1 < 2 ^ 32" using less.prems(2) unfolding s by linarith
    have B1: "\<forall>k. length (?B k) = 512" using less.prems(1) 3 pm by simp
    have B': "B' = wr_loop ?B dv (sec + 1) (p + ?m) ?v" using less.prems(3) wr_loop_more[OF 3 refl s1] by simp
    have lt: "length ?v < length v" using 3 pm by simp
    have sl: "sec + 1 + secs (p + ?m) (length ?v) \<le> 2 ^ 32" using less.prems(2) unfolding s by linarith
    note IH = less.hyps[OF lt B1 sl B']
    have fr: "\<forall>k. (\<forall>s. sec + 1 \<le> s \<longrightarrow> s < sec + 1 + secs (p + ?m) (length ?v) \<longrightarrow> k \<noteq> blk dv s) \<longrightarrow> B' k = ?B k"
      and rd': "rd_loop B' dv (sec + 1) (p + ?m) (length ?v) = ?v"
      using IH by blast+
    have "B' ?k = ?B ?k" using fr by (simp add: blk_def)
    then have "take ?m (drop (p mod 512) (B' ?k)) = take ?m v"
      using patch_read[of "p mod 512" "take ?m v" "B ?k"] less.prems(1) 3 pm by simp
    then have r: "rd_loop B' dv sec p (length v) = v"
      using 3 rd' s1 by (subst rd_loop.simps) (simp add: blockSize_def Let_def u32_def)
    have "B' k = B k" if "\<forall>s. sec \<le> s \<longrightarrow> s < sec + secs p (length v) \<longrightarrow> k \<noteq> blk dv s" for k
    proof -
      have "k \<noteq> ?k" using that s by simp
      moreover have "B' k = ?B k" using that s by (intro fr[rule_format]) simp
      ultimately show ?thesis by simp
    qed
    then show ?thesis using r by blast
  qed
qed

text \<open>C15: Bytes written into a cluster are read back from it, across sector boundaries, and every block outside
  the sectors they touch keeps its contents.\<close>

theorem wrClus_rdClus:
  assumes "rBPS sb = 512" "\<forall>k. length (B k) = 512" "p + length v \<le> rBPC sb" "rBPC sb < 2 ^ 32"
    and "firstSec sb c + p div 512 + secs p (length v) < 2 ^ 32"
  shows "\<exists>B'. wrClus sb B c p v = Some B' \<and> rdClus sb B' c p (length v) = Some v
     \<and> (\<forall>k. (\<forall>s. firstSec sb c + p div 512 \<le> s \<longrightarrow> s < firstSec sb c + p div 512 + secs p (length v) \<longrightarrow> k \<noteq> blk (dev sb) s)
           \<longrightarrow> B' k = B k)"
proof -
  have u: "u32 (p + length v) = p + length v" "u32 (firstSec sb c + p div 512) = firstSec sb c + p div 512"
    using assms(3-5) by (simp_all add: u32_def)
  have s: "secs (p mod 512) (length v) = secs p (length v)" by (simp add: secs_def)
  show ?thesis using wr_rd_loop[OF assms(2), of "firstSec sb c + p div 512" "p mod 512" v _ "dev sb", OF _ refl] assms s
    by (simp add: wrClus_def rdClus_def u ensure_def)
qed

theorem wrClus_rdClus_witness:
  "\<exists>B'. wrClus ex_sb (\<lambda>_. replicate 512 0) 5 510 [1, 2, 3, 4] = Some B' \<and> rdClus ex_sb B' 5 510 (length [1 :: byte, 2, 3, 4]) = Some [1, 2, 3, 4]"
proof -
  have "firstSec ex_sb 5 = 124" by (simp add: firstSec_def ex_sb_def u32_def)
  then show ?thesis using wrClus_rdClus[of ex_sb "\<lambda>_. replicate 512 0" 510 "[1, 2, 3, 4]" 5]
    by (auto simp: ex_sb_def secs_def)
qed

subsection \<open>Short names\<close>

definition short_ok :: "byte \<Rightarrow> bool" where
  "short_ok c \<longleftrightarrow> \<not> (97 \<le> c \<and> c \<le> 122) \<and> c \<noteq> 46 \<and> c \<notin> set illegal_short"

definition short_inv :: "byte list \<Rightarrow> nat \<Rightarrow> nat option \<Rightarrow> byte list \<Rightarrow> bool" where
  "short_inv nm k p out \<longleftrightarrow> length out \<le> 11 \<and> (\<forall>c \<in> set out. short_ok c)
     \<and> (case p of None \<Rightarrow> 46 \<notin> set (drop k nm) | Some q \<Rightarrow> length out \<le> 8 \<and> q = last_dot nm)"

lemma after_last_dot: "last_dot nm < k \<Longrightarrow> 46 \<notin> set (drop k nm)"
proof
  assume k: "last_dot nm < k" and "46 \<in> set (drop k nm)"
  then obtain j where j: "k \<le> j" "j < length nm" "nm ! j = 46"
    by (auto simp: in_set_conv_nth) (metis add.commute le_add1 less_diff_conv)
  define js where "js = filter (\<lambda>j. nm ! j = 46) (rev [0..<length nm])"
  have m: "j \<in> set js" using j by (simp add: js_def)
  then obtain x xs where x: "js = x # xs" by (cases js) auto
  have "sorted_wrt (>) js" unfolding js_def by (intro sorted_wrt_filter) (simp add: sorted_wrt_rev)
  then have "j \<le> x" using m x by auto
  then show False using k j(1) x by (simp add: last_dot_def js_def[symmetric])
qed

lemma short_char_ok: "c \<noteq> 46 \<Longrightarrow> short_ok (short_char c)"
proof (cases "97 \<le> c \<and> c \<le> 122")
  case True
  define x where "x = c - 32"
  have c: "97 \<le> unat c" "unat c \<le> 122" using True by (simp_all add: word_le_nat_alt)
  then have "unat x = unat c - 32" unfolding x_def by (subst unat_sub) (simp_all add: word_le_nat_alt)
  then have u: "65 \<le> unat x" "unat x \<le> 90" using c by auto
  have ne: "x \<noteq> y" if "unat y < 65 \<or> 90 < unat y" for y using u that by auto
  have "x \<noteq> 46" "x \<noteq> 43" "x \<noteq> 44" "x \<noteq> 59" "x \<noteq> 61" "x \<noteq> 91" "x \<noteq> 93" by (rule ne, simp)+
  moreover have "\<not> 97 \<le> x" using u by (simp add: word_le_nat_alt)
  moreover have "short_char c = x" using True by (simp add: short_char_def x_def)
  ultimately show ?thesis by (simp add: short_ok_def illegal_short_def)
qed (auto simp: short_ok_def short_char_def illegal_short_def)

lemma space_ok: "short_ok 32"
  by (simp add: short_ok_def illegal_short_def)

text \<open>One turn of the loop: it ends with what it has, or goes on further right with the invariant kept.\<close>

lemma short_step:
  assumes inv: "short_inv nm k p out" and l: "length out < 11" "k < length nm"
  shows "short_loop nm k p out = Some out \<or>
    (\<exists>k' p' out'. short_loop nm k p out = short_loop nm k' p' out' \<and> k < k' \<and> short_inv nm k' p' out')"
proof -
  let ?c = "nm ! k"
  have dr: "drop k nm = ?c # drop (Suc k) nm" using l by (simp add: Cons_nth_drop_Suc)
  have L: "length out < CHAR_SHORT_NAME" using l by (simp add: CHAR_SHORT_NAME_def)
  have nd: "46 \<notin> set (drop (last_dot nm + 1) nm)" by (rule after_last_dot) simp
  have n46: "(46 :: byte) \<noteq> 32" by simp
  have S: "short_loop nm k p out =
     (if length out = 8 \<and> p \<noteq> None then if the p + 1 < k + 1 then Some out else short_loop nm (the p + 1) None out
      else if ?c = 32 then short_loop nm (k + 1) p out
      else if ?c = 46
      then (if p = None \<or> the p < k + 1
            then (if 8 < length out then None else short_loop nm (k + 1) None (out @ replicate (8 - length out) 32))
            else short_loop nm (k + 1) p out)
      else short_loop nm (k + 1) p (out @ [short_char ?c]))"
    by (subst short_loop.simps) (simp only: L l Let_def not_True_eq_False if_False if_True)
  consider (jump) "length out = 8" "p \<noteq> None" | (space) "\<not> (length out = 8 \<and> p \<noteq> None)" "?c = 32"
    | (dot) "\<not> (length out = 8 \<and> p \<noteq> None)" "?c = 46" | (char) "\<not> (length out = 8 \<and> p \<noteq> None)" "?c \<noteq> 32" "?c \<noteq> 46" by blast
  then show ?thesis
  proof cases
    case jump
    then obtain q where q: "p = Some q" "q = last_dot nm" using inv by (auto simp: short_inv_def)
    show ?thesis
    proof (cases "q + 1 < k + 1")
      case False
      then have "short_loop nm k p out = short_loop nm (q + 1) None out" unfolding S using jump q by simp
      moreover have "short_inv nm (q + 1) None out" using inv q nd by (simp add: short_inv_def)
      moreover have "k < q + 1" using False by simp
      ultimately show ?thesis by blast
    qed (use S jump q in simp)
  next
    case space
    then have "short_loop nm k p out = short_loop nm (k + 1) p out" unfolding S by (simp only: if_False if_True refl)
    moreover have "short_inv nm (k + 1) p out" using inv dr by (auto simp: short_inv_def split: option.splits)
    ultimately show ?thesis using less_add_one by blast
  next
    case dot
    then obtain q where q: "p = Some q" "q = last_dot nm" "length out < 8"
      using inv dr by (cases p) (auto simp: short_inv_def)
    let ?o = "out @ replicate (8 - length out) 32"
    have "short_loop nm k p out = (if q < k + 1 then short_loop nm (k + 1) None ?o else short_loop nm (k + 1) p out)"
      unfolding S using dot q n46 by (simp only: if_False if_True refl option.sel option.distinct(2) simp_thms) simp
    moreover have "q < k + 1 \<Longrightarrow> short_inv nm (k + 1) None ?o"
      using inv q after_last_dot[of nm "k + 1"] space_ok by (auto simp: short_inv_def)
    moreover have "short_inv nm (k + 1) p out" using inv q by (simp add: short_inv_def)
    ultimately show ?thesis using less_add_one[of k] by (cases "q < k + 1") auto
  next
    case char
    then have "short_loop nm k p out = short_loop nm (k + 1) p (out @ [short_char ?c])"
      unfolding S by (simp only: if_False)
    moreover have "short_inv nm (k + 1) p (out @ [short_char ?c])"
      using inv dr char l short_char_ok[of ?c] by (auto simp: short_inv_def split: option.splits)
    ultimately show ?thesis using less_add_one by blast
  qed
qed

lemma short_loop_total:
  "short_inv nm k p out \<Longrightarrow> \<exists>r. short_loop nm k p out = Some r \<and> length r \<le> 11 \<and> (\<forall>c \<in> set r. short_ok c)"
proof (induction "length nm - k" arbitrary: k p out rule: less_induct)
  case less
  show ?case
  proof (cases "length out < 11 \<and> k < length nm")
    case False
    then have "short_loop nm k p out = Some out" by (subst short_loop.simps) (auto simp: CHAR_SHORT_NAME_def)
    then show ?thesis using less.prems by (simp add: short_inv_def)
  next
    case True
    consider "short_loop nm k p out = Some out"
      | k' p' out' where "short_loop nm k p out = short_loop nm k' p' out'" "k < k'" "short_inv nm k' p' out'"
      using short_step[OF less.prems] True by blast
    then show ?thesis
    proof cases
      case 2
      have "length nm - k' < length nm - k" using 2(2) True by linarith
      from less.hyps[OF this 2(3)] show ?thesis using 2(1) by simp
    qed (use less.prems in \<open>simp add: short_inv_def\<close>)
  qed
qed


end
