(* ===== verification/Vfs.thy ===== *)
theory Vfs
  imports Ramfs
begin

text \<open>
  Directory entries, the mount table and paths: \<open>include/fs.hh\<close> and \<open>kernel/fs/fs.cc\<close>.

  Inodes and file systems of the two kinds are told apart by a constructor, which is what the virtual
  calls of the code do.  A \<open>DEntry\<close> is an index into \<open>dents\<close>; its parent holds only a weak reference
  to it, so it goes away when its last user does (\<open>DEntry_drop\<close>), which \<open>alive\<close> records.  The mount
  table is an association list.  Its order is not that of the container: the longest prefix does not
  depend on the order, and the lines of \<open>/proc/mounts\<close> are those of \<open>ramenv\<close>.
\<close>

datatype INodeRef = FNode nat | RNode nat

datatype FSRef = FFS nat | RFS nat

record DEntry =
  de_parent :: "nat option"
  nod :: INodeRef
  de_name :: "byte list"
  subs :: "(byte list \<times> nat) list"
  isMount :: bool
  alive :: bool

record FatFS =
  fs_spblk :: "nat option"
  isroot :: bool
  fs_key :: "byte list"
  fs_rootde :: nat
  fs_mntde :: "nat option"

record vfs =
  vfat :: FAT
  finodes :: "FatINode list"
  vram :: ramfs
  dents :: "DEntry list"
  fatfss :: "FatFS list"
  mnt_table :: "(byte list \<times> FSRef option) list"

subsection \<open>Virtual calls of inodes\<close>

definition v_rMode :: "vfs \<Rightarrow> INodeRef \<Rightarrow> nat option" where
  "v_rMode s n = (case n of
      FNode i \<Rightarrow> do { x \<leftarrow> rd (finodes s) i; rMode (vfat s) x }
    | RNode i \<Rightarrow> do { x \<leftarrow> rd (rnodes (vram s)) i; Some (ram_rMode x) })"

definition v_rFileSize :: "vfs \<Rightarrow> INodeRef \<Rightarrow> nat option" where
  "v_rFileSize s n = (case n of
      FNode i \<Rightarrow> do { x \<leftarrow> rd (finodes s) i; rFileSize (vfat s) x }
    | RNode i \<Rightarrow> do { x \<leftarrow> rd (rnodes (vram s)) i; Some (length (ri_bytes x)) })"

definition v_rDev :: "vfs \<Rightarrow> INodeRef \<Rightarrow> nat option" where
  "v_rDev s n = (case n of FNode i \<Rightarrow> do { x \<leftarrow> rd (finodes s) i; rDev (vfat s) x } | RNode i \<Rightarrow> Some 0)"

definition v_rINo :: "vfs \<Rightarrow> INodeRef \<Rightarrow> nat option" where
  "v_rINo s n = (case n of
      FNode i \<Rightarrow> do { x \<leftarrow> rd (finodes s) i; rINo x }
    | RNode i \<Rightarrow> do { x \<leftarrow> rd (rnodes (vram s)) i; Some (ri_ino x) })"

text \<open>The file system of an inode, through its super block.\<close>

definition v_getFS :: "vfs \<Rightarrow> INodeRef \<Rightarrow> FSRef option" where
  "v_getFS s n = (case n of
      FNode i \<Rightarrow> do { x \<leftarrow> rd (finodes s) i; sb \<leftarrow> getSpBlk (vfat s) x; Some (FFS (sb_fs sb)) }
    | RNode i \<Rightarrow> do { x \<leftarrow> rd (rnodes (vram s)) i; Some (RFS (ri_super x)) })"

definition v_isRootFS :: "vfs \<Rightarrow> FSRef \<Rightarrow> bool option" where
  "v_isRootFS s f = (case f of FFS i \<Rightarrow> do { x \<leftarrow> rd (fatfss s) i; Some (isroot x) } | RFS i \<Rightarrow> Some False)"

definition v_rFSType :: "FSRef \<Rightarrow> byte list" where
  "v_rFSType f = (case f of FFS i \<Rightarrow> str_bytes ''fat32'' | RFS i \<Rightarrow> str_bytes ''ramfs'')"

definition v_rBlkSiz :: "vfs \<Rightarrow> FSRef \<Rightarrow> nat option" where
  "v_rBlkSiz s f = (case f of
      FFS i \<Rightarrow> do { x \<leftarrow> rd (fatfss s) i; k \<leftarrow> fs_spblk x; sb \<leftarrow> rd (sblks (vfat s)) k; Some (rBPS sb) }
    | RFS i \<Rightarrow> Some 512)"

definition add_finode :: "vfs \<Rightarrow> FatINode option \<Rightarrow> vfs \<times> INodeRef option" where
  "add_finode s m = (case m of None \<Rightarrow> (s, None)
    | Some x \<Rightarrow> (s\<lparr>finodes := finodes s @ [x]\<rparr>, Some (FNode (length (finodes s)))))"

definition v_lookup :: "vfs \<Rightarrow> INodeRef \<Rightarrow> byte list \<Rightarrow> (vfs \<times> INodeRef option) option" where
  "v_lookup s n nm = (case n of
      FNode i \<Rightarrow> do { x \<leftarrow> rd (finodes s) i; (f, m, _) \<leftarrow> fat_lookup (vfat s) x nm None;
                      Some (add_finode (s\<lparr>vfat := f\<rparr>) m) }
    | RNode i \<Rightarrow> do { r \<leftarrow> ram_lookup (vram s) i nm; Some (s, map_option RNode r) })"

definition v_mknod :: "vfs \<Rightarrow> INodeRef \<Rightarrow> byte list \<Rightarrow> nat \<Rightarrow> (vfs \<times> INodeRef option) option" where
  "v_mknod s n nm mode = (case n of
      FNode i \<Rightarrow> do { x \<leftarrow> rd (finodes s) i; (f, m) \<leftarrow> fat_mknod (vfat s) x nm mode;
                      Some (add_finode (s\<lparr>vfat := f\<rparr>) m) }
    | RNode i \<Rightarrow> do { (r, j) \<leftarrow> ram_mknod (vram s) i nm mode; Some (s\<lparr>vram := r\<rparr>, map_option RNode j) })"

definition v_isEmpty :: "vfs \<Rightarrow> INodeRef \<Rightarrow> (vfs \<times> bool) option" where
  "v_isEmpty s n = (case n of
      FNode i \<Rightarrow> do { x \<leftarrow> rd (finodes s) i; (f, b) \<leftarrow> nodEmpty (vfat s) x; Some (s\<lparr>vfat := f\<rparr>, b) }
    | RNode i \<Rightarrow> do { x \<leftarrow> rd (rnodes (vram s)) i; Some (s, ram_isEmpty x) })"

definition v_nodRemove :: "vfs \<Rightarrow> INodeRef \<Rightarrow> vfs option" where
  "v_nodRemove s n = (case n of
      FNode i \<Rightarrow> do { x \<leftarrow> rd (finodes s) i; f \<leftarrow> nodRemove (vfat s) x; Some (s\<lparr>vfat := f\<rparr>) }
    | RNode i \<Rightarrow> Some s)"

definition v_nodTrunc :: "vfs \<Rightarrow> INodeRef \<Rightarrow> vfs option" where
  "v_nodTrunc s n = (case n of
      FNode i \<Rightarrow> do { x \<leftarrow> rd (finodes s) i; f \<leftarrow> nodTrunc (vfat s) x; Some (s\<lparr>vfat := f\<rparr>) }
    | RNode i \<Rightarrow> Some s)"

definition v_nodHardUnlink :: "vfs \<Rightarrow> INodeRef \<Rightarrow> (vfs \<times> int) option" where
  "v_nodHardUnlink s n = (case n of
      FNode i \<Rightarrow> do { x \<leftarrow> rd (finodes s) i; (f, r) \<leftarrow> nodHardUnlink (vfat s) x; Some (s\<lparr>vfat := f\<rparr>, r) }
    | RNode i \<Rightarrow> Some (s, - 1))"

definition v_entSymLink :: "INodeRef \<Rightarrow> int" where
  "v_entSymLink n = - 1"

definition v_nodRead :: "ramenv \<Rightarrow> vfs \<Rightarrow> INodeRef \<Rightarrow> nat \<Rightarrow> nat \<Rightarrow> (vfs \<times> byte list \<times> int) option" where
  "v_nodRead env s n aoff len = (case n of
      FNode i \<Rightarrow> do { x \<leftarrow> rd (finodes s) i; (f, v) \<leftarrow> nodRead (vfat s) x aoff len; Some (s\<lparr>vfat := f\<rparr>, v, int (length v)) }
    | RNode i \<Rightarrow> do { x \<leftarrow> rd (rnodes (vram s)) i; (v, r) \<leftarrow> ram_nodRead env x aoff len; Some (s, v, r) })"

definition v_nodWrite :: "vfs \<Rightarrow> INodeRef \<Rightarrow> nat \<Rightarrow> byte list \<Rightarrow> (vfs \<times> int) option" where
  "v_nodWrite s n aoff v = (case n of
      FNode i \<Rightarrow> do { x \<leftarrow> rd (finodes s) i; (f, r) \<leftarrow> nodWrite (vfat s) x aoff v; Some (s\<lparr>vfat := f\<rparr>, r) }
    | RNode i \<Rightarrow> do { (m, r) \<leftarrow> ram_nodWrite (vram s) i aoff v; Some (s\<lparr>vram := m\<rparr>, r) })"

subsection \<open>Directory entries\<close>

text \<open>The constructor takes a name and does not store it: the member \<open>name\<close> stays empty.\<close>

definition DEntry_new :: "vfs \<Rightarrow> nat option \<Rightarrow> byte list \<Rightarrow> INodeRef \<Rightarrow> vfs \<times> nat" where
  "DEntry_new s p nm n = (s\<lparr>dents := dents s @ [\<lparr>de_parent = p, nod = n, de_name = [], subs = [], isMount = False, alive = True\<rparr>]\<rparr>,
     length (dents s))"

definition set_de :: "vfs \<Rightarrow> nat \<Rightarrow> (DEntry \<Rightarrow> DEntry) \<Rightarrow> vfs option" where
  "set_de s i f = do { x \<leftarrow> rd (dents s) i; Some (s\<lparr>dents := (dents s)[i := f x]\<rparr>) }"

text \<open>The last user of an entry is gone; its inode releases its entry.\<close>

definition DEntry_drop :: "vfs \<Rightarrow> nat \<Rightarrow> vfs option" where
  "DEntry_drop s i =
     do { x \<leftarrow> rd (dents s) i;
          s \<leftarrow> set_de s i (\<lambda>x. x\<lparr>alive := False\<rparr>);
          case nod x of
            FNode j \<Rightarrow> do { y \<leftarrow> rd (finodes s) j; f \<leftarrow> nodRelse (vfat s) y; Some (s\<lparr>vfat := f\<rparr>) }
          | RNode j \<Rightarrow> Some s }"

definition sub_alive :: "vfs \<Rightarrow> DEntry \<Rightarrow> byte list \<Rightarrow> nat option" where
  "sub_alive s x nm =
     do { i \<leftarrow> map_of (subs x) nm; y \<leftarrow> rd (dents s) i; if alive y then Some i else None }"

definition DEntry_entSearch :: "vfs \<Rightarrow> nat \<Rightarrow> byte list \<Rightarrow> (vfs \<times> nat option) option" where
  "DEntry_entSearch s self nm =
     do { x \<leftarrow> rd (dents s) self;
          case sub_alive s x nm of
            Some i \<Rightarrow> Some (s, Some i)
          | None \<Rightarrow> do {
              (s, r) \<leftarrow> v_lookup s (nod x) nm;
              case r of None \<Rightarrow> Some (s, None)
              | Some n \<Rightarrow> do {
                  let (s, i) = DEntry_new s (Some self) nm n;
                  s \<leftarrow> set_de s self (\<lambda>x. x\<lparr>subs := assoc_put (subs x) nm i\<rparr>);
                  Some (s, Some i) } } }"

text \<open>Creation fails for every name the entry has ever had below it, alive or not.\<close>

definition DEntry_entCreate :: "vfs \<Rightarrow> nat \<Rightarrow> byte list \<Rightarrow> nat \<Rightarrow> (vfs \<times> nat option) option" where
  "DEntry_entCreate s self nm mode =
     do { x \<leftarrow> rd (dents s) self;
          if map_of (subs x) nm \<noteq> None then Some (s, None)
          else do {
            (s, r) \<leftarrow> v_mknod s (nod x) nm mode;
            case r of None \<Rightarrow> Some (s, None)
            | Some n \<Rightarrow> do {
                let (s, i) = DEntry_new s (Some self) nm n;
                s \<leftarrow> set_de s self (\<lambda>x. x\<lparr>subs := assoc_put (subs x) nm i\<rparr>);
                Some (s, Some i) } } }"

text \<open>\<open>getSpBlk()->getRoot()\<close>: the ram file system makes a new entry at every call.\<close>

definition fs_getRoot :: "vfs \<Rightarrow> FSRef \<Rightarrow> (vfs \<times> nat) option" where
  "fs_getRoot s f = (case f of
      FFS i \<Rightarrow> do { x \<leftarrow> rd (fatfss s) i; _ \<leftarrow> fs_spblk x; Some (s, fs_rootde x) }
    | RFS i \<Rightarrow> do { x \<leftarrow> rd (rsupers (vram s)) i; Some (DEntry_new s None [47] (RNode (rs_root x))) })"

definition mnt_root :: "vfs \<Rightarrow> byte list \<Rightarrow> (vfs \<times> nat) option" where
  "mnt_root s k = do { f \<leftarrow> map_of (mnt_table s) k; g \<leftarrow> f; fs_getRoot s g }"

subsection \<open>Splitting a path\<close>

record Path =
  pathname :: "byte list"
  dirname :: "byte list list"
  base :: "nat option"

text \<open>
  The loop of \<open>pathBuild\<close> over the characters: \<open>rep\<close>, the number of names found and the array of
  their starts and lengths.
\<close>

fun build_loop :: "nat \<Rightarrow> byte list \<Rightarrow> bool \<Rightarrow> nat \<Rightarrow> (nat \<times> nat) list \<Rightarrow> bool \<times> nat \<times> (nat \<times> nat) list" where
  "build_loop i [] rep n ind = (rep, n, ind)"
| "build_loop i (c # cs) rep n ind =
     (if c = 47
      then build_loop (i + 1) cs True (if rep then n else n + 1) ind
      else let (st, len) = ind ! n
           in build_loop (i + 1) cs False n (ind[n := (if rep then i else st, len + 1)]))"

definition build_names :: "byte list \<Rightarrow> byte list list" where
  "build_names p =
     (let (rep, n, ind) = build_loop 0 p True 0 (replicate (length p) (0, 0));
          n = (if rep then n else n + 1)
      in map (\<lambda>i. let (st, len) = ind ! i in take len (drop st p)) [0..<n])"

definition pathBuild :: "vfs \<Rightarrow> nat \<Rightarrow> Path \<Rightarrow> (vfs \<times> Path) option" where
  "pathBuild s cwd p =
     (if pathname p = [] then Some (s, p\<lparr>base := Some cwd\<rparr>)
      else do {
        (s, p) \<leftarrow> (if hd (pathname p) = 47 then do { (s, r) \<leftarrow> mnt_root s [47]; Some (s, p\<lparr>base := Some r\<rparr>) }
                  else if base p = None then Some (s, p\<lparr>base := Some cwd\<rparr>) else Some (s, p));
        Some (s, p\<lparr>dirname := build_names (pathname p)\<rparr>) })"

definition Path_new :: "vfs \<Rightarrow> nat \<Rightarrow> byte list \<Rightarrow> nat option \<Rightarrow> (vfs \<times> Path) option" where
  "Path_new s cwd nm b = pathBuild s cwd \<lparr>pathname = nm, dirname = [], base = b\<rparr>"

subsection \<open>Absolute paths and the mount table\<close>

partial_function (option) up_names :: "vfs \<Rightarrow> nat \<Rightarrow> byte list list \<Rightarrow> byte list list option" where
  "up_names s i acc =
     do { x \<leftarrow> rd (dents s) i;
          stop \<leftarrow> (if de_parent x = None then do { f \<leftarrow> v_getFS s (nod x); v_isRootFS s f } else Some False);
          if stop then Some acc else do { p \<leftarrow> de_parent x; up_names s p (de_name x # acc) } }"

fun abs_names :: "byte list list \<Rightarrow> byte list \<Rightarrow> byte list" where
  "abs_names [] acc = acc"
| "abs_names (n # ns) acc =
     (if n = [46] \<or> n = [46, 46] then abs_names ns acc
      else if ns \<noteq> [] \<and> hd ns = [46, 46] then abs_names ns acc
      else abs_names ns (acc @ [47] @ n))"

definition pathAbsolute :: "vfs \<Rightarrow> Path \<Rightarrow> byte list option" where
  "pathAbsolute s p =
     do { b \<leftarrow> base p;
          ns \<leftarrow> up_names s b (dirname p);
          let a = abs_names ns [];
          Some (if a = [] then [47] else a) }"

fun longest_prefix :: "byte list \<Rightarrow> (byte list \<times> 'a) list \<Rightarrow> byte list \<Rightarrow> byte list" where
  "longest_prefix p [] best = best"
| "longest_prefix p ((k, v) # tbl) best =
     longest_prefix p tbl (if length k \<le> length p \<and> length best < length k \<and> take (length k) p = k then k else best)"

definition pathHitTable :: "vfs \<Rightarrow> nat \<Rightarrow> Path \<Rightarrow> (vfs \<times> Path \<times> nat option) option" where
  "pathHitTable s cwd p =
     do { a \<leftarrow> pathAbsolute s p;
          let k = longest_prefix a (mnt_table s) [];
          if k = [] then Some (s, p, None)
          else do {
            (s, e) \<leftarrow> mnt_root s k;
            let p1 = p\<lparr>base := Some e, pathname := drop (length k) a\<rparr>;
            if pathname p1 = [] then Some (s, p1\<lparr>dirname := []\<rparr>, Some e)
            else do { (s, p2) \<leftarrow> pathBuild s cwd p1; Some (s, p2, Some e) } } }"

subsection \<open>Searching a path\<close>

fun search_dirs :: "vfs \<Rightarrow> bool \<Rightarrow> nat option \<Rightarrow> byte list list \<Rightarrow> (vfs \<times> nat option) option" where
  "search_dirs s par e [] = Some (s, e)"
| "search_dirs s par e (nm # nms) =
     do { i \<leftarrow> e;
          x \<leftarrow> rd (dents s) i;
          ensure (\<not> isMount x);
          m \<leftarrow> v_rMode s (nod x);
          if m AND S_IFMT \<noteq> S_IFDIR then Some (s, None)
          else if par \<and> nms = [] then Some (s, Some i)
          else if nm = [46] then search_dirs s par (Some i) nms
          else if nm = [46, 46] then search_dirs s par (de_parent x) nms
          else do {
            (s, r) \<leftarrow> DEntry_entSearch s i nm;
            case r of None \<Rightarrow> Some (s, None) | Some j \<Rightarrow> search_dirs s par (Some j) nms } }"

definition pathSearch :: "vfs \<Rightarrow> nat \<Rightarrow> bool \<Rightarrow> Path \<Rightarrow> (vfs \<times> Path \<times> nat option) option" where
  "pathSearch s cwd par p =
     (if pathname p = [47] then do { (s, r) \<leftarrow> mnt_root s [47]; Some (s, p, Some r) }
      else if pathname p = [] then Some (s, p, None)
      else do {
        (s, p, h) \<leftarrow> pathHitTable s cwd p;
        (s, r) \<leftarrow> search_dirs s par (if h = None then base p else h) (dirname p);
        Some (s, p, r) })"

subsection \<open>Creating, removing, linking\<close>

definition T_DIR :: nat where "T_DIR = 1"
definition T_FILE :: nat where "T_FILE = 2"

definition is_dir :: "vfs \<Rightarrow> nat \<Rightarrow> bool option" where
  "is_dir s i = do { x \<leftarrow> rd (dents s) i; m \<leftarrow> v_rMode s (nod x); Some (m AND S_IFMT = S_IFDIR) }"

definition pathCreate :: "vfs \<Rightarrow> nat \<Rightarrow> nat \<Rightarrow> nat \<Rightarrow> Path \<Rightarrow> (vfs \<times> Path \<times> nat option) option" where
  "pathCreate s cwd ty mode p =
     do { (s, p, dp) \<leftarrow> pathSearch s cwd True p;
          case dp of None \<Rightarrow> Some (s, p, None)
          | Some i \<Rightarrow> do {
              ensure (dirname p \<noteq> []);
              (s, r) \<leftarrow> DEntry_entCreate s i (last (dirname p)) (mode OR (if ty = T_DIR then S_IFDIR else S_IFREG));
              case r of None \<Rightarrow> Some (s, p, None)
              | Some ep \<Rightarrow> do {
                  d \<leftarrow> is_dir s ep;
                  Some (s, p, if ty = T_DIR \<and> \<not> d \<or> ty = T_FILE \<and> d then None else Some ep) } } }"

definition pathRemove :: "vfs \<Rightarrow> nat \<Rightarrow> Path \<Rightarrow> (vfs \<times> Path \<times> int) option" where
  "pathRemove s cwd p =
     do { (s, p, r) \<leftarrow> pathSearch s cwd False p;
          case r of None \<Rightarrow> Some (s, p, - 1)
          | Some ep \<Rightarrow> do {
              x \<leftarrow> rd (dents s) ep;
              d \<leftarrow> is_dir s ep;
              (s, b) \<leftarrow> (if d then v_isEmpty s (nod x) else Some (s, True));
              if \<not> b then Some (s, p, - 1)
              else do { s \<leftarrow> v_nodRemove s (nod x); Some (s, p, 0) } } }"

definition pathHardLink :: "vfs \<Rightarrow> nat \<Rightarrow> Path \<Rightarrow> Path \<Rightarrow> (vfs \<times> int) option" where
  "pathHardLink s cwd p q =
     do { (s, p, r1) \<leftarrow> pathSearch s cwd False p;
          i1 \<leftarrow> r1; x1 \<leftarrow> rd (dents s) i1;
          (s, q, r2) \<leftarrow> pathSearch s cwd False q;
          i2 \<leftarrow> r2; x2 \<leftarrow> rd (dents s) i2;
          f1 \<leftarrow> v_getFS s (nod x1);
          f2 \<leftarrow> v_getFS s (nod x2);
          if v_rFSType f1 \<noteq> v_rFSType f2 then Some (s, - 1)
          else (case (nod x1, nod x2) of
              (FNode a, FNode b) \<Rightarrow> do {
                m \<leftarrow> rd (finodes s) a; n \<leftarrow> rd (finodes s) b;
                (f, r) \<leftarrow> nodHardLink (vfat s) m n;
                Some (s\<lparr>vfat := f\<rparr>, if r = - 1 then - 1 else 0) }
            | _ \<Rightarrow> Some (s, - 1)) }"

definition pathHardUnlink :: "vfs \<Rightarrow> nat \<Rightarrow> Path \<Rightarrow> (vfs \<times> Path \<times> int) option" where
  "pathHardUnlink s cwd p =
     do { (s, p, r) \<leftarrow> pathSearch s cwd False p;
          case r of None \<Rightarrow> Some (s, p, - 1)
          | Some ep \<Rightarrow> do {
              x \<leftarrow> rd (dents s) ep;
              (s, u) \<leftarrow> v_nodHardUnlink s (nod x);
              if u = - 1 then Some (s, p, - 1) else pathRemove s cwd p } }"

definition pathSymLink :: "vfs \<Rightarrow> nat \<Rightarrow> Path \<Rightarrow> (vfs \<times> Path \<times> int) option" where
  "pathSymLink s cwd p =
     do { (s, p, r) \<leftarrow> pathSearch s cwd False p;
          if r \<noteq> None then Some (s, p, - 1)
          else do {
            (s, p, r) \<leftarrow> pathSearch s cwd True p;
            case r of None \<Rightarrow> Some (s, p, - 1)
            | Some e \<Rightarrow> do {
                d \<leftarrow> is_dir s e; x \<leftarrow> rd (dents s) e;
                Some (s, p, if \<not> d then - 1 else v_entSymLink (nod x)) } } }"

subsection \<open>Mounting\<close>

text \<open>\<open>ldSpBlk\<close> of the FAT file system object \<open>i\<close>: the root entry and its inode, and the mark on the mount point.\<close>

definition fs_ldSpBlk :: "vfs \<Rightarrow> nat \<Rightarrow> nat \<Rightarrow> nat option \<Rightarrow> vfs option" where
  "fs_ldSpBlk s i dv mnt =
     do { (f, k, rt) \<leftarrow> ldSpBlk (vfat s) i dv;
          m \<leftarrow> INode_new f rt;
          let (s, n) = add_finode (s\<lparr>vfat := f\<rparr>) (Some (m\<lparr>inode_num := 0\<rparr>));
          let (s, d) = DEntry_new s None [47] (the n);
          x \<leftarrow> rd (fatfss s) i;
          let s = s\<lparr>fatfss := (fatfss s)[i := x\<lparr>fs_spblk := Some k, fs_rootde := d,
                     fs_mntde := Some (case mnt of None \<Rightarrow> d | Some e \<Rightarrow> e)\<rparr>]\<rparr>;
          case mnt of None \<Rightarrow> Some s | Some e \<Rightarrow> set_de s e (\<lambda>x. x\<lparr>isMount := True\<rparr>) }"

definition fatfs_new :: "vfs \<Rightarrow> bool \<Rightarrow> byte list \<Rightarrow> vfs \<times> nat" where
  "fatfs_new s r k = (s\<lparr>fatfss := fatfss s @ [\<lparr>fs_spblk = None, isroot = r, fs_key = k, fs_rootde = 0, fs_mntde = None\<rparr>]\<rparr>,
     length (fatfss s))"

definition mnt_emplace :: "(byte list \<times> 'a) list \<Rightarrow> byte list \<Rightarrow> 'a \<Rightarrow> (byte list \<times> 'a) list" where
  "mnt_emplace t k v = (if map_of t k = None then t @ [(k, v)] else t)"

definition rootFSInit :: "vfs \<Rightarrow> (vfs \<times> int) option" where
  "rootFSInit s =
     do { let (s, i) = fatfs_new (s\<lparr>mnt_table := []\<rparr>) True [47];
          s \<leftarrow> fs_ldSpBlk (s\<lparr>mnt_table := mnt_emplace (mnt_table s) [47] (Some (FFS i))\<rparr>) i 0 None;
          Some (s, 0) }"

definition pathMount :: "vfs \<Rightarrow> nat \<Rightarrow> Path \<Rightarrow> Path \<Rightarrow> byte list \<Rightarrow> (vfs \<times> int) option" where
  "pathMount s cwd p dp fstype =
     do { (s, p, r) \<leftarrow> pathSearch s cwd False p;
          (s, dp, rd') \<leftarrow> pathSearch s cwd False dp;
          case (r, rd') of
            (Some ep, Some dep) \<Rightarrow> do {
              x \<leftarrow> rd (dents s) ep;
              if de_parent x = None \<or> isMount x then Some (s, - 1)
              else do {
                d \<leftarrow> is_dir s ep;
                if \<not> d then Some (s, - 1)
                else if fstype = str_bytes ''fat32'' \<or> fstype = str_bytes ''vfat''
                then do {
                  a \<leftarrow> pathAbsolute s p;
                  let (s, i) = fatfs_new s False a;
                  let s = s\<lparr>mnt_table := mnt_emplace (mnt_table s) a (Some (FFS i))\<rparr>;
                  y \<leftarrow> rd (dents s) dep;
                  dv \<leftarrow> v_rDev s (nod y);
                  s \<leftarrow> fs_ldSpBlk s i dv (Some ep);
                  Some (s, 0) }
                else Some (s, - 1) } }
          | _ \<Rightarrow> Some (s, - 1) }"

definition path_mount :: "vfs \<Rightarrow> nat \<Rightarrow> Path \<Rightarrow> FSRef \<Rightarrow> (vfs \<times> int) option" where
  "path_mount s cwd p f =
     do { (s, p, r) \<leftarrow> pathSearch s cwd False p;
          if r = None then Some (s, - 1)
          else do { a \<leftarrow> pathAbsolute s p; Some (s\<lparr>mnt_table := assoc_put (mnt_table s) a (Some f)\<rparr>, 0) } }"

text \<open>
  The entry of the root loses the reference of the super block.  When that was the last one,
  \<open>DEntry_drop\<close> follows, and its \<open>nodRelse\<close> looks for the root that was just reset.
\<close>

definition pathUnmount :: "vfs \<Rightarrow> Path \<Rightarrow> (vfs \<times> int) option" where
  "pathUnmount s p =
     do { a \<leftarrow> pathAbsolute s p;
          f \<leftarrow> map_of (mnt_table s) a;
          g \<leftarrow> f;
          b \<leftarrow> v_isRootFS s g;
          if b then Some (s, - 1)
          else (case g of
              RFS i \<Rightarrow> None
            | FFS i \<Rightarrow> do {
                x \<leftarrow> rd (fatfss s) i;
                k \<leftarrow> fs_spblk x;
                f \<leftarrow> SuperBlock_unInstall (vfat s) k;
                e \<leftarrow> fs_mntde x;
                s \<leftarrow> set_de (s\<lparr>vfat := f\<rparr>) e (\<lambda>x. x\<lparr>isMount := False\<rparr>);
                Some (s\<lparr>fatfss := (fatfss s)[i := x\<lparr>fs_spblk := None, fs_mntde := None\<rparr>],
                        mnt_table := filter (\<lambda>e. fst e \<noteq> a) (mnt_table s)\<rparr>, 0) }) }"

end
