(* ===== verification/PathSpec.thy ===== *)
theory PathSpec
  imports Vfs
begin

text \<open>The loop that splits a path keeps start and length of every component in an array; it computes the
  non-empty pieces between slashes.\<close>

fun split_path :: "byte list \<Rightarrow> byte list list" where
  "split_path [] = [[]]"
| "split_path (c # cs) = (if c = 47 then [] # split_path cs else (c # hd (split_path cs)) # tl (split_path cs))"

definition components :: "byte list \<Rightarrow> byte list list" where
  "components p = filter (\<lambda>x. x \<noteq> []) (split_path p)"

lemma split_path_ne [simp]: "split_path p \<noteq> []"
  by (cases p) auto

lemma split_snoc:
  "split_path (p @ [c]) = (if c = 47 then split_path p @ [[]] else butlast (split_path p) @ [last (split_path p) @ [c]])"
proof (induction p)
  case (Cons a p)
  then show ?case by (cases "split_path p") (auto simp: neq_Nil_conv)
qed simp

text \<open>The array after a prefix \<open>p\<close> of the path \<open>w\<close>: component \<open>i\<close> is where \<open>ind\<close> says, the rest is untouched.\<close>

definition named :: "byte list \<Rightarrow> (nat \<times> nat) list \<Rightarrow> nat \<Rightarrow> byte list" where
  "named w ind i = (let (st, len) = ind ! i in take len (drop st w))"

definition build_inv :: "byte list \<Rightarrow> nat \<Rightarrow> bool \<Rightarrow> nat \<Rightarrow> (nat \<times> nat) list \<Rightarrow> bool" where
  "build_inv w i rep n ind \<longleftrightarrow> length ind = length w \<and> i \<le> length w \<and> n \<le> i \<and> (\<not> rep \<longrightarrow> n < i)
     \<and> (\<forall>j < length w. (if rep then n \<le> j else n < j) \<longrightarrow> ind ! j = (0, 0))
     \<and> components (take i w) = map (named w ind) [0..<(if rep then n else n + 1)]
     \<and> (rep \<longleftrightarrow> last (split_path (take i w)) = [])
     \<and> (\<not> rep \<longrightarrow> fst (ind ! n) + snd (ind ! n) = i)"

lemma components_snoc:
  "components (p @ [47]) = components p"
  "c \<noteq> 47 \<Longrightarrow> last (split_path p) = [] \<Longrightarrow> components (p @ [c]) = components p @ [[c]]"
  "c \<noteq> 47 \<Longrightarrow> last (split_path p) \<noteq> [] \<Longrightarrow> components p = xs @ [x] \<Longrightarrow> components (p @ [c]) = xs @ [x @ [c]]"
proof -
  have e: "split_path p = butlast (split_path p) @ [last (split_path p)]" by simp
  then have f: "components p = filter (\<lambda>x. x \<noteq> []) (butlast (split_path p)) @ (if last (split_path p) = [] then [] else [last (split_path p)])"
    unfolding components_def by (subst e, subst filter_append) simp
  show "components (p @ [47]) = components p" by (simp add: components_def split_snoc)
  show "c \<noteq> 47 \<Longrightarrow> last (split_path p) = [] \<Longrightarrow> components (p @ [c]) = components p @ [[c]]"
    by (simp add: f) (simp add: components_def split_snoc)
  show "c \<noteq> 47 \<Longrightarrow> last (split_path p) \<noteq> [] \<Longrightarrow> components p = xs @ [x] \<Longrightarrow> components (p @ [c]) = xs @ [x @ [c]]"
    using f by (simp add: components_def split_snoc)
qed

lemma last_split_snoc: "last (split_path (p @ [c])) = [] \<longleftrightarrow> c = 47"
  by (simp add: split_snoc)

lemma named_update: "n < length ind \<Longrightarrow> named w (ind[n := (st, len)]) j = (if j = n then take len (drop st w) else named w ind j)"
  by (simp add: named_def)

lemma build_slash:
  assumes "build_inv w i rep n ind" "i < length w" "w ! i = 47"
  shows "build_inv w (i + 1) True (if rep then n else n + 1) ind"
  using assms components_snoc(1)[of "take i w"] last_split_snoc[of "take i w" 47]
  by (auto simp: build_inv_def take_Suc_conv_app_nth)

lemma build_char:
  assumes inv: "build_inv w i rep n ind" and i: "i < length w" "w ! i \<noteq> 47" and e: "ind ! n = (st, len)"
  shows "build_inv w (i + 1) False n (ind[n := (if rep then i else st, len + 1)])"
proof -
  have t: "take (Suc i) w = take i w @ [w ! i]" using i by (simp add: take_Suc_conv_app_nth)
  have l: "length ind = length w" "n < length w" "n \<le> i" using inv i by (auto simp: build_inv_def)
  let ?ind = "ind[n := (if rep then i else st, len + 1)]"
  have eq: "map (named w ?ind) [0..<n] = map (named w ind) [0..<n]" using l by (simp add: named_update)
  have c: "components (take (Suc i) w) = map (named w ?ind) [0..<n + 1]"
  proof (cases rep)
    case True
    then have "len = 0" using inv l e by (auto simp: build_inv_def)
    moreover have "take (Suc 0) (drop i w) = [w ! i]" using i by (simp add: take_Suc_conv_app_nth)
    ultimately show ?thesis
      using True inv i l eq components_snoc(2)[of "w ! i" "take i w"] by (simp add: t build_inv_def named_update)
  next
    case False
    then have s: "st + len = i" and c: "components (take i w) = map (named w ind) [0..<n] @ [named w ind n]"
      using inv e by (auto simp: build_inv_def)
    have "take (Suc len) (drop st w) = named w ind n @ [w ! i]" using s i e by (simp add: named_def take_Suc_conv_app_nth)
    then show ?thesis using components_snoc(3)[OF i(2) _ c] False inv l eq by (simp add: t build_inv_def named_update)
  qed
  have "fst (?ind ! n) + snd (?ind ! n) = Suc i" using inv l e by (cases rep) (auto simp: build_inv_def)
  then show ?thesis using inv i l c last_split_snoc[of "take i w" "w ! i"]
    by (auto simp: build_inv_def t nth_list_update split: if_splits)
qed

lemma build_loop_inv:
  "build_inv w i rep n ind \<Longrightarrow> build_loop i (drop i w) rep n ind = (rep', n', ind') \<Longrightarrow> build_inv w (length w) rep' n' ind'"
proof (induction "length w - i" arbitrary: i rep n ind)
  case 0
  then have "i = length w" by (simp add: build_inv_def)
  then show ?case using 0 by simp
next
  case (Suc d)
  then have i: "i < length w" and d: "d = length w - (i + 1)" by auto
  have dr: "drop i w = w ! i # drop (i + 1) w" using i by (simp add: Cons_nth_drop_Suc)
  obtain st len where e: "ind ! n = (st, len)" by fastforce
  show ?case
  proof (cases "w ! i = 47")
    case True
    show ?thesis by (rule Suc.hyps(1)[OF d build_slash[OF Suc.prems(1) i True]]) (use Suc.prems(2) dr True in simp)
  next
    case False
    show ?thesis by (rule Suc.hyps(1)[OF d build_char[OF Suc.prems(1) i False e]]) (use Suc.prems(2) dr False e in simp)
  qed
qed

text \<open>C29: The array loop of \<open>pathBuild\<close> computes the non-empty pieces between the slashes of the path, in
  order: repeated, leading and trailing slashes make no component.\<close>

theorem build_names_components: "build_names p = components p"
proof -
  obtain rep n ind where b: "build_loop 0 p True 0 (replicate (length p) (0, 0)) = (rep, n, ind)" by (metis prod_cases3)
  have "build_inv p 0 True 0 (replicate (length p) (0, 0))" by (simp add: build_inv_def components_def)
  then have "build_inv p (length p) rep n ind" by (rule build_loop_inv) (simp add: b)
  then show ?thesis by (auto simp: build_names_def b build_inv_def named_def)
qed

end
