(* ===== verification/Files.thy ===== *)
theory Files
  imports Vfs Pipe
begin

text \<open>
  Open files: \<open>fs::File\<close> and \<open>fs::KStat\<close> of \<open>include/fs.hh\<close> and \<open>kernel/fs/fs.cc\<close>, with the descriptor
  table of a process (\<open>fdAlloc\<close> and \<open>ofile\<close> of \<open>kernel/proc.cc\<close>).

  Files and pipes are shared objects, indices into the lists of \<open>fsys\<close>, which also holds the file
  systems, the scheduler and the console.  An operation on a pipe may block; its outcome then says so
  and the state is the one in which the task sleeps.
\<close>

datatype FileType = FT_none | FT_pipe | FT_entry | FT_dev | FT_stdin | FT_stdout | FT_stderr

record KStat =
  st_dev :: nat
  st_ino :: nat
  st_mode :: nat
  st_nlink :: nat
  st_rdev :: nat
  st_size :: nat
  st_blksize :: nat
  st_blocks :: nat

datatype FileObj =
    ODev FileType KStat
  | OPipe KStat nat
  | OEntry KStat nat int

record File =
  op_r :: bool
  op_w :: bool
  op_a :: bool
  fl_flags :: nat
  obj :: FileObj

record fsys =
  fs_vfs :: vfs
  fs_env :: ramenv
  fs_files :: "File list"
  fs_pipes :: "Pipe list"
  fs_sched :: Scheduler
  fs_con :: Console

definition EINVAL :: int where "EINVAL = 22"
definition EBADF :: int where "EBADF = 9"
definition ENOMEM :: int where "ENOMEM = 12"
definition EISDIR :: int where "EISDIR = 21"
definition ENOTDIR :: int where "ENOTDIR = 20"
definition ENOTTY :: int where "ENOTTY = 25"

subsection \<open>Status of a file\<close>

definition mkDevNum :: "FileType \<Rightarrow> nat" where
  "mkDevNum t = (case t of FT_stdin \<Rightarrow> 0 | FT_stdout \<Rightarrow> 2 ^ 20 + 1 | FT_stderr \<Rightarrow> 2 * 2 ^ 20 + 2 | _ \<Rightarrow> 2 ^ 64 - 1)"

definition KStat_dev :: "FileType \<Rightarrow> KStat" where
  "KStat_dev t = \<lparr>st_dev = 0, st_ino = mkDevNum t, st_mode = (if t = FT_dev then S_IFCHR else S_IFIFO), st_nlink = 1,
     st_rdev = mkDevNum t, st_size = 0, st_blksize = 0, st_blocks = 0\<rparr>"

definition KStat_pipe :: KStat where
  "KStat_pipe = \<lparr>st_dev = 0, st_ino = 2 ^ 64 - 1, st_mode = S_IFIFO, st_nlink = 1, st_rdev = 0, st_size = 0,
     st_blksize = 0, st_blocks = 0\<rparr>"

definition KStat_entry :: "vfs \<Rightarrow> nat \<Rightarrow> KStat option" where
  "KStat_entry s i =
     do { x \<leftarrow> rd (dents s) i;
          dv \<leftarrow> v_rDev s (nod x); ino \<leftarrow> v_rINo s (nod x); m \<leftarrow> v_rMode s (nod x); sz \<leftarrow> v_rFileSize s (nod x);
          f \<leftarrow> v_getFS s (nod x); bs \<leftarrow> v_rBlkSiz s f;
          ensure (bs \<noteq> 0);
          let n = sz div bs;
          Some \<lparr>st_dev = dv, st_ino = ino, st_mode = m, st_nlink = 1, st_rdev = 0, st_size = sz, st_blksize = bs,
            st_blocks = (if n * bs < sz then n + 1 else n)\<rparr> }"

definition kst :: "File \<Rightarrow> KStat" where
  "kst f = (case obj f of ODev _ k \<Rightarrow> k | OPipe k _ \<Rightarrow> k | OEntry k _ _ \<Rightarrow> k)"

definition rType :: "File \<Rightarrow> FileType" where
  "rType f = (case obj f of ODev t _ \<Rightarrow> t | OPipe _ _ \<Rightarrow> FT_pipe | OEntry _ _ _ \<Rightarrow> FT_entry)"

definition getEntry :: "File \<Rightarrow> nat option" where
  "getEntry f = (case obj f of OEntry _ e _ \<Rightarrow> Some e | _ \<Rightarrow> None)"

definition getPipe :: "File \<Rightarrow> nat option" where
  "getPipe f = (case obj f of OPipe _ p \<Rightarrow> Some p | _ \<Rightarrow> None)"

subsection \<open>Construction and destruction\<close>

text \<open>
  The operations from the flags of an open: the append bit is \<open>flags & O_APPEND\<close> stored into a field of
  one bit, which keeps the lowest bit of it, zero.
\<close>

definition O_APPEND :: nat where "O_APPEND = 0x400"
definition O_CREAT :: nat where "O_CREAT = 0x40"
definition O_TRUNC :: nat where "O_TRUNC = 0x200"
definition O_DIRECTORY :: nat where "O_DIRECTORY = 0x10000"

definition File_flags :: "nat \<Rightarrow> FileObj \<Rightarrow> File" where
  "File_flags fl ob = \<lparr>op_r = (fl AND O_WRONLY = 0), op_w = (fl AND O_WRONLY \<noteq> 0 \<or> fl AND O_RDWR \<noteq> 0),
     op_a = odd (fl AND O_APPEND), fl_flags = fl, obj = ob\<rparr>"

text \<open>The constructor from a \<open>FileOp\<close> leaves the flags as they are in the memory the file is placed in.\<close>

definition File_ops :: "nat \<Rightarrow> nat \<Rightarrow> FileObj \<Rightarrow> File" where
  "File_ops junk raw ob = \<lparr>op_r = odd raw, op_w = odd (raw div 2), op_a = odd (raw div 4), fl_flags = junk, obj = ob\<rparr>"

definition add_file :: "fsys \<Rightarrow> File \<Rightarrow> fsys \<times> nat" where
  "add_file s f = (s\<lparr>fs_files := fs_files s @ [f]\<rparr>, length (fs_files s))"

definition new_entry_file :: "fsys \<Rightarrow> nat \<Rightarrow> nat \<Rightarrow> (fsys \<times> nat) option" where
  "new_entry_file s e fl = do { k \<leftarrow> KStat_entry (fs_vfs s) e; Some (add_file s (File_flags fl (OEntry k e 0))) }"

definition new_pipe_file :: "nat \<Rightarrow> fsys \<Rightarrow> nat \<Rightarrow> nat \<Rightarrow> (fsys \<times> nat) option" where
  "new_pipe_file junk s p raw =
     do { x \<leftarrow> rd (fs_pipes s) p;
          let f = File_ops junk raw (OPipe KStat_pipe p);
          let y = (if op_r f then addReader x else x);
          let z = (if op_w f then addWriter y else y);
          Some (add_file (s\<lparr>fs_pipes := (fs_pipes s)[p := z]\<rparr>) f) }"

text \<open>The destructor of a file, when its last reference goes.\<close>

definition File_delete :: "fsys \<Rightarrow> nat \<Rightarrow> fsys option" where
  "File_delete s i =
     do { f \<leftarrow> rd (fs_files s) i;
          case obj f of
            OPipe _ p \<Rightarrow> do {
              x \<leftarrow> rd (fs_pipes s) p;
              (y, sc) \<leftarrow> (if op_r f then decReader (x, fs_sched s) else if op_w f then decWriter (x, fs_sched s)
                         else Some (x, fs_sched s));
              Some (s\<lparr>fs_pipes := (fs_pipes s)[p := y], fs_sched := sc\<rparr>) }
          | _ \<Rightarrow> Some s }"

subsection \<open>Reading, writing, seeking\<close>

definition File_write :: "fsys \<Rightarrow> nat \<Rightarrow> byte list \<Rightarrow> (outcome \<times> int \<times> fsys) option" where
  "File_write s i v =
     do { f \<leftarrow> rd (fs_files s) i;
          if \<not> op_w f then Some (Done, - 1, s)
          else (case obj f of
              ODev t k \<Rightarrow>
                (if t = FT_stdout \<or> t = FT_stderr
                 then do { (n, con) \<leftarrow> printf (str_bytes ''%s'') [VStr (cstring v)] (fs_con s);
                           Some (Done, int (length v), s\<lparr>fs_con := con\<rparr>) }
                 else Some (Done, - 1, s))
            | OPipe k p \<Rightarrow> do {
                x \<leftarrow> rd (fs_pipes s) p;
                (oc, n, y, sc) \<leftarrow> Pipe_write v 0 (x, fs_sched s);
                Some (oc, int (length v), s\<lparr>fs_pipes := (fs_pipes s)[p := y], fs_sched := sc\<rparr>) }
            | OEntry k e o' \<Rightarrow> do {
                x \<leftarrow> rd (dents (fs_vfs s)) e;
                (w, r) \<leftarrow> v_nodWrite (fs_vfs s) (nod x) (nat (o' mod 2 ^ 32)) v;
                let s1 = s\<lparr>fs_vfs := w\<rparr>;
                if r = int (length v)
                then Some (Done, int (length v), s1\<lparr>fs_files := (fs_files s1)[i := f\<lparr>obj := OEntry k e (o' + int (length v))\<rparr>]\<rparr>)
                else Some (Done, - 1, s1) }) }"

text \<open>The offset argument is \<open>None\<close> for a negative one; \<open>upd\<close> is \<open>a_update\<close>.\<close>

definition File_read :: "fsys \<Rightarrow> nat \<Rightarrow> nat \<Rightarrow> int option \<Rightarrow> bool \<Rightarrow> (outcome \<times> byte list \<times> int \<times> fsys) option" where
  "File_read s i len aoff upd =
     do { f \<leftarrow> rd (fs_files s) i;
          if \<not> op_r f then Some (Done, [], - 1, s)
          else (case obj f of
              ODev t k \<Rightarrow> None
            | OPipe k p \<Rightarrow> do {
                x \<leftarrow> rd (fs_pipes s) p;
                (oc, v, y, sc) \<leftarrow> Pipe_read len [] (x, fs_sched s);
                Some (oc, v, int (length v), s\<lparr>fs_pipes := (fs_pipes s)[p := y], fs_sched := sc\<rparr>) }
            | OEntry k e o' \<Rightarrow> do {
                let p = (case aoff of None \<Rightarrow> o' | Some a \<Rightarrow> a);
                x \<leftarrow> rd (dents (fs_vfs s)) e;
                (w, v, r) \<leftarrow> v_nodRead (fs_env s) (fs_vfs s) (nod x) (nat (p mod 2 ^ 32)) len;
                let s1 = s\<lparr>fs_vfs := w\<rparr>;
                if 0 < r
                then Some (Done, v, r, if upd then s1\<lparr>fs_files := (fs_files s1)[i := f\<lparr>obj := OEntry k e (p + r)\<rparr>]\<rparr> else s1)
                else Some (Done, [], 0, s1) }) }"

definition File_lSeek :: "fsys \<Rightarrow> nat \<Rightarrow> int \<Rightarrow> nat \<Rightarrow> (int \<times> fsys) option" where
  "File_lSeek s i a whence =
     do { f \<leftarrow> rd (fs_files s) i;
          let m = st_mode (kst f) AND S_IFMT;
          if m = S_IFCHR \<or> m = S_IFIFO then Some (0, s)
          else (case obj f of
              OEntry k e o' \<Rightarrow> do {
                ks \<leftarrow> KStat_entry (fs_vfs s) e;
                let sz = int (st_size ks);
                if whence > 2 then Some (- EINVAL, s)
                else do {
                  let noff = (if whence = 0 then a else if whence = 1 then o' + a else sz + a);
                  if noff < 0 \<or> sz < noff then Some (- EINVAL, s)
                  else Some (noff, s\<lparr>fs_files := (fs_files s)[i := f\<lparr>obj := OEntry k e noff\<rparr>]\<rparr>) } }
            | _ \<Rightarrow> None) }"

text \<open>
  The loop of \<open>sendFile\<close>: the bytes sent, or the error.  A negative result of the read is used as the
  length of a buffer, which is outside every object.  The page the bytes go through is taken from the
  page allocator and is not part of this state.
\<close>

function send_loop :: "fsys \<Rightarrow> nat \<Rightarrow> nat \<Rightarrow> nat \<Rightarrow> int \<Rightarrow> (outcome \<times> (int + int) \<times> fsys) option" where
  "send_loop s i o' left sent =
     (if left = 0 then Some (Done, Inr sent, s)
      else do {
        (oc, v, r, s) \<leftarrow> File_read s i (min left 4096) None True;
        if oc = Blocked then Some (Blocked, Inr sent, s)
        else if r = 0 then Some (Done, Inr sent, s)
        else if r < 0 then None
        else do {
          (oc, w, s) \<leftarrow> File_write s o' (take (nat r) v);
          if oc = Blocked then Some (Blocked, Inr sent, s)
          else if w < 0 then Some (Done, Inl w, s)
          else if r \<noteq> w then Some (Done, Inr (sent + w), s)
          else if int left < r then None
          else send_loop s i o' (left - nat r) (sent + w) } })"
  by pat_completeness auto
termination
  by (relation "measure (\<lambda>(s, i, o', left, sent). left)") auto

declare send_loop.simps [simp del]

definition File_sendFile :: "fsys \<Rightarrow> nat \<Rightarrow> nat \<Rightarrow> int option \<Rightarrow> nat \<Rightarrow> (outcome \<times> int \<times> int option \<times> fsys) option" where
  "File_sendFile s i o' aoff len =
     (case aoff of
        None \<Rightarrow> do { (oc, r, s) \<leftarrow> send_loop s i o' len 0;
                     Some (oc, case r of Inl e \<Rightarrow> e | Inr n \<Rightarrow> n, None, s) }
      | Some a \<Rightarrow> do {
          (inoff, s) \<leftarrow> File_lSeek s o' 0 1;
          if inoff < 0 then Some (Done, inoff, aoff, s)
          else do {
            (_, s) \<leftarrow> File_lSeek s i a 0;
            (oc, r, s) \<leftarrow> send_loop s i o' len 0;
            case r of Inl e \<Rightarrow> Some (oc, e, aoff, s)
            | Inr n \<Rightarrow>
                if oc = Blocked then Some (oc, n, aoff, s)
                else do {
                  (p, s) \<leftarrow> File_lSeek s i 0 1;
                  (_, s) \<leftarrow> File_lSeek s i inoff 0;
                  Some (oc, n, Some p, s) } } })"

definition isRReady :: "fsys \<Rightarrow> nat \<Rightarrow> bool option" where
  "isRReady s i = do { f \<leftarrow> rd (fs_files s) i;
     case obj f of OPipe _ p \<Rightarrow> map_option readable (rd (fs_pipes s) p) | OEntry _ _ _ \<Rightarrow> Some True | _ \<Rightarrow> Some False }"

definition isWReady :: "fsys \<Rightarrow> nat \<Rightarrow> bool option" where
  "isWReady s i = do { f \<leftarrow> rd (fs_files s) i;
     case obj f of OPipe _ p \<Rightarrow> map_option writable (rd (fs_pipes s) p) | OEntry _ _ _ \<Rightarrow> Some True | _ \<Rightarrow> Some False }"

subsection \<open>Descriptors\<close>

definition mOFiles :: nat where "mOFiles = 101"
definition FdCwd :: int where "FdCwd = 3"
definition AT_FDCWD :: int where "AT_FDCWD = - 100"

definition fdOutRange :: "int \<Rightarrow> bool" where
  "fdOutRange fd \<longleftrightarrow> fd < 0 \<or> int mOFiles \<le> fd"

definition ofile :: "nat option list \<Rightarrow> int \<Rightarrow> nat option" where
  "ofile tbl fd = (let fd = (if fd = AT_FDCWD then FdCwd else fd)
     in if fdOutRange fd then None else tbl ! nat fd)"

fun fd_scan :: "nat option list \<Rightarrow> nat \<Rightarrow> nat \<Rightarrow> nat option" where
  "fd_scan tbl 0 fd = None"
| "fd_scan tbl (Suc n) fd = (if tbl ! fd = None then Some fd else fd_scan tbl n (fd + 1))"

definition fdAlloc :: "nat option list \<Rightarrow> nat \<Rightarrow> int \<Rightarrow> bool \<Rightarrow> nat option list \<times> int" where
  "fdAlloc tbl f fd appoint =
     (if \<not> appoint
      then (let st = nat fd
            in case fd_scan tbl (mOFiles - st) st of
                 Some k \<Rightarrow> (tbl[k := Some f], int k)
               | None \<Rightarrow> (tbl, - ENOMEM))
      else if fdOutRange fd then (tbl, - EBADF)
      else (tbl[nat fd := Some f], fd))"

subsection \<open>Opening a path\<close>

text \<open>The result is the new descriptor table and the descriptor or the error.\<close>

definition pathOpen :: "fsys \<Rightarrow> nat option list \<Rightarrow> nat \<Rightarrow> Path \<Rightarrow> nat \<Rightarrow> nat \<Rightarrow> (fsys \<times> nat option list \<times> int) option" where
  "pathOpen s tbl cwd p fl mode =
     do { (w, p, r) \<leftarrow> pathSearch (fs_vfs s) cwd False p;
          (w, p, r) \<leftarrow> (if r = None \<and> fl AND O_CREAT \<noteq> 0
                        then pathCreate w cwd (if mode AND S_IFMT = S_IFDIR then T_DIR else T_FILE) fl p
                        else Some (w, p, r));
          let s = s\<lparr>fs_vfs := w\<rparr>;
          case r of None \<Rightarrow> Some (s, tbl, - 1)
          | Some e \<Rightarrow> do {
              dir \<leftarrow> is_dir w e;
              if dir \<and> (fl AND O_RDWR \<noteq> 0 \<or> fl AND O_WRONLY \<noteq> 0) then Some (s, tbl, - EISDIR)
              else if fl AND O_DIRECTORY \<noteq> 0 \<and> \<not> dir then Some (s, tbl, - ENOTDIR)
              else do {
                k \<leftarrow> KStat_entry w e;
                x \<leftarrow> rd (dents w) e;
                sz \<leftarrow> v_rFileSize w (nod x);
                let (s1, f) = add_file s (File_flags fl (OEntry k e (if fl AND O_APPEND \<noteq> 0 then int sz else 0)));
                let (tbl1, fd) = fdAlloc tbl f 0 False;
                if fd < 0 then Some (s1, tbl1, - 1)
                else if \<not> dir \<and> fl AND O_TRUNC \<noteq> 0
                then do { w1 \<leftarrow> v_nodTrunc w (nod x); Some (s1\<lparr>fs_vfs := w1\<rparr>, tbl1, fd) }
                else Some (s1, tbl1, fd) } } }"

end
