(* ===== verification/Proc.thy ===== *)
theory Proc
  imports Files Vmar
begin

text \<open>
  Processes and tasks: \<open>include/proc.hh\<close>, \<open>kernel/proc.cc\<close>, the object tables of \<open>include/resmgr.hh\<close> and the
  process system calls of \<open>kernel/syscall/procmisc.cc\<close>.

  \<open>Kernel\<close> gathers the global state: the files and the scheduler (\<open>fsys\<close>), the memory objects and page
  frames, the tables of processes and tasks, the condition variables of the futexes by physical address,
  the memory object of every inode that has one (a weak reference) and the objects kept alive.  The scheduling
  fields of a task are those of the scheduler, under its number.  The saved kernel context of a
  task is not modelled.  \<open>rp\<close> is the file a memory object is loaded from, as in \<open>Vmo\<close>.

  The sets of tasks and of group numbers are hash sets of the container library: they are lists without
  duplicates here, and \<open>it\<close> is a parameter that gives the order in which the library iterates over them.
  The clock ticks \<open>schedule\<close> counts are
  not modelled.  As in \<open>Vmo\<close>, memory objects are not given back when their last reference goes; open files are.
\<close>

record SigAct =
  sa_handler :: nat
  sa_flags :: nat
  sa_restorer :: nat
  sa_mask :: "64 word"

record Context =
  gpr :: "nat list"
  pc :: nat

record SigStack =
  ss_sp :: nat
  ss_flags :: nat
  ss_size :: nat

record Task =
  t_proc :: nat
  ctx :: Context
  sigmask :: "64 word"
  sigpending :: "64 word"
  siginfos :: "byte list option list"
  sigstack :: SigStack
  hasInfo :: bool
  clearChildTid :: nat
  t_exitstatus :: int

record Process =
  p_parent :: nat
  vmar :: VMAR
  heapTop :: nat
  heapBottom :: nat
  p_tasks :: "nat list"
  p_files :: "nat option list"
  p_exe :: "byte list"
  p_cwd :: "nat option"
  p_state :: State
  p_exitstatus :: int
  sigacts :: "SigAct option list"
  m_pgid :: int
  m_sid :: int
  m_ruid :: nat
  m_euid :: nat
  m_suid :: nat
  m_rgid :: nat
  m_egid :: nat
  m_sgid :: nat
  supgids :: "nat list"
  p_umask :: nat
  rlimits :: "(nat \<times> nat) list"

record Kernel =
  kfs :: fsys
  kheap :: vmheap
  procs :: "nat \<Rightarrow> Process option"
  procIds :: nat
  tasks :: "nat \<Rightarrow> Task option"
  taskIds :: nat
  futexes :: "nat \<Rightarrow> condition_variable option"
  inode_vmo :: "INodeRef \<Rightarrow> nat option"
  vmolru :: "nat list"

definition numSigs :: nat where "numSigs = 64"
definition UserStackDefault :: nat where "UserStackDefault = 0x8000000"
definition UstackSize :: nat where "UstackSize = 0x20000"
definition UstackBottom :: nat where "UstackBottom = UserStackDefault - UstackSize"
definition TrapframePages :: nat where "TrapframePages = 2"
definition UserHeapSize :: nat where "UserHeapSize = 0x4000000"
definition vDSOBase :: nat where "vDSOBase = 0x9000000"

text \<open>\<open>vDSOBase+func&mask\<close> groups as \<open>(vDSOBase+func)&mask\<close>.\<close>

definition vDSOfuncAddr :: "nat \<Rightarrow> nat" where
  "vDSOfuncAddr func = add64 vDSOBase func AND (pageSize - 1)"

definition xreg :: "Context \<Rightarrow> nat \<Rightarrow> nat" where
  "xreg c r = gpr c ! (r - 1)"

definition set_xreg :: "nat \<Rightarrow> nat \<Rightarrow> Context \<Rightarrow> Context" where
  "set_xreg r v c = c\<lparr>gpr := (gpr c)[r - 1 := v]\<rparr>"

subsection \<open>Access to the tables\<close>

definition cur_task :: "Kernel \<Rightarrow> (nat \<times> Task) option" where
  "cur_task k = do { t \<leftarrow> curtask (fs_sched (kfs k)); x \<leftarrow> tasks k t; Some (t, x) }"

definition cur_proc :: "Kernel \<Rightarrow> (nat \<times> Process) option" where
  "cur_proc k = do { (t, x) \<leftarrow> cur_task k; p \<leftarrow> procs k (t_proc x); Some (t_proc x, p) }"

definition set_proc :: "nat \<Rightarrow> (Process \<Rightarrow> Process) \<Rightarrow> Kernel \<Rightarrow> Kernel" where
  "set_proc i f k = k\<lparr>procs := (procs k)(i := map_option f (procs k i))\<rparr>"

definition set_task :: "nat \<Rightarrow> (Task \<Rightarrow> Task) \<Rightarrow> Kernel \<Rightarrow> Kernel" where
  "set_task i f k = k\<lparr>tasks := (tasks k)(i := map_option f (tasks k i))\<rparr>"

definition set_sched :: "Scheduler \<Rightarrow> Kernel \<Rightarrow> Kernel" where
  "set_sched sc k = k\<lparr>kfs := (kfs k)\<lparr>fs_sched := sc\<rparr>\<rparr>"

text \<open>An action on the address space of a process, which shares the frames with all others.\<close>

definition with_vmar :: "nat \<Rightarrow> (vmst \<Rightarrow> vmst option) \<Rightarrow> Kernel \<Rightarrow> Kernel option" where
  "with_vmar i f k =
     do { p \<leftarrow> procs k i; (v, h) \<leftarrow> f (vmar p, kheap k); Some ((set_proc i (\<lambda>p. p\<lparr>vmar := v\<rparr>) k)\<lparr>kheap := h\<rparr>) }"

definition put_user :: "reader \<Rightarrow> nat \<Rightarrow> nat \<Rightarrow> byte list \<Rightarrow> Kernel \<Rightarrow> Kernel option" where
  "put_user rp i a v k = with_vmar i (copyout rp a v) k"

definition get_user :: "nat \<Rightarrow> nat \<Rightarrow> nat \<Rightarrow> Kernel \<Rightarrow> byte list option" where
  "get_user i a n k = do { p \<leftarrow> procs k i; copyin a n (vmar p, kheap k) }"

definition get_userstr :: "nat \<Rightarrow> nat \<Rightarrow> nat \<Rightarrow> Kernel \<Rightarrow> byte list option" where
  "get_userstr i a n k = do { p \<leftarrow> procs k i; b \<leftarrow> copyinstr a n (vmar p, kheap k); Some (cstring b) }"

text \<open>\<open>newId\<close> and \<open>addObj\<close> of the two tables.\<close>

definition add_proc :: "Process \<Rightarrow> Kernel \<Rightarrow> Kernel \<times> nat" where
  "add_proc p k = (let i = procIds k + 1 in (k\<lparr>procIds := i, procs := (procs k)(i \<mapsto> p)\<rparr>, i))"

definition add_taskobj :: "Task \<Rightarrow> Kernel \<Rightarrow> Kernel \<times> nat" where
  "add_taskobj t k = (let i = taskIds k + 1 in (k\<lparr>taskIds := i, tasks := (tasks k)(i \<mapsto> t)\<rparr>, i))"

definition getChilds :: "nat \<Rightarrow> Kernel \<Rightarrow> nat list" where
  "getChilds pid k = filter (\<lambda>i. case procs k i of None \<Rightarrow> False | Some p \<Rightarrow> p_parent p = pid) [0..<512]"

subsection \<open>Memory of a process\<close>

definition user_rw :: perm_t where
  "user_rw = mask_r OR mask_w OR mask_u OR mask_v"

definition map_contiguous :: "reader \<Rightarrow> nat \<Rightarrow> nat \<Rightarrow> nat \<Rightarrow> nat \<Rightarrow> Kernel \<Rightarrow> Kernel option" where
  "map_contiguous rp i vpn ppn n k =
     with_vmar i (\<lambda>(v, h). let (vo, h) = new_vmo (VMOContiguous ppn n) h
       in VMAR_map rp \<lparr>mp_vpn = vpn, mp_len = n, mp_offset = 0, mp_vmo = vo, mp_perm = user_rw,
            mp_mapping = Msystem, mp_sharing = Privt\<rparr> False (v, h)) k"

definition alloc_pages :: "nat \<Rightarrow> Kernel \<Rightarrow> (nat \<times> Kernel) option" where
  "alloc_pages n k =
     do { (ppn, pm) \<leftarrow> alloc n (pt_pm (vh_pt (kheap k)));
          Some (ppn, k\<lparr>kheap := (kheap k)\<lparr>vh_pt := (vh_pt (kheap k))\<lparr>pt_pm := pm\<rparr>\<rparr>\<rparr>) }"

definition newUstack :: "reader \<Rightarrow> nat \<Rightarrow> Kernel \<Rightarrow> (nat \<times> Kernel) option" where
  "newUstack rp i k =
     do { let n = bytes2pages UstackSize;
          (ppn, k) \<leftarrow> alloc_pages n k;
          k \<leftarrow> map_contiguous rp i (addr2pn UstackBottom) ppn n k;
          Some (UserStackDefault, k) }"

definition newTrapframe :: "reader \<Rightarrow> nat \<Rightarrow> Kernel \<Rightarrow> (nat \<times> Kernel) option" where
  "newTrapframe rp i k =
     do { (ppn, k) \<leftarrow> alloc_pages TrapframePages k;
          let vaddr = pn2addr ppn;
          k \<leftarrow> map_contiguous rp i (addr2pn vaddr) ppn TrapframePages k;
          Some (vaddr, k) }"

definition brk :: "reader \<Rightarrow> nat \<Rightarrow> Process \<times> vmheap \<Rightarrow> (nat \<times> Process \<times> vmheap) option" where
  "brk rp addr = (\<lambda>(p, h).
     if add64 (heapBottom p) UserHeapSize \<le> addr \<or> addr \<le> heapBottom p then Some (heapTop p, p, h)
     else if VMAR_contains (vmar p) addr then Some (addr, p\<lparr>heapTop := addr\<rparr>, h)
     else do {
       let curtop = bytes2pages (heapTop p);
       let destop = bytes2pages addr;
       let n = sub64 destop curtop;
       let (pg, h1) = new_pager (SwapPager None Map.empty \<lparr>seg_l = 0, seg_r = pn2addr n\<rparr>) h;
       let (vo, h2) = new_vmo (VMOPaged (replicate n None) pg) h1;
       (v, h3) \<leftarrow> VMAR_map rp \<lparr>mp_vpn = curtop, mp_len = n, mp_offset = 0, mp_vmo = vo, mp_perm = user_rw OR mask_x,
                    mp_mapping = Manon, mp_sharing = Privt\<rparr> False (vmar p, h2);
       Some (addr, p\<lparr>vmar := v, heapTop := addr\<rparr>, h3) })"

subsection \<open>Groups, limits, masks\<close>

definition getGroups :: "(nat list \<Rightarrow> nat list) \<Rightarrow> nat \<Rightarrow> Process \<Rightarrow> nat list" where
  "getGroups it n p = take n (it (supgids p))"

definition setGroups :: "nat list \<Rightarrow> Process \<Rightarrow> Process" where
  "setGroups gs p = p\<lparr>supgids := fold List.insert gs []\<rparr>"

definition setUMask :: "nat \<Rightarrow> Process \<Rightarrow> Process \<times> nat" where
  "setUMask m p = (p\<lparr>p_umask := m AND 511\<rparr>, p_umask p)"

definition RLIMIT_NLIMITS :: nat where "RLIMIT_NLIMITS = 16"

definition setRLimit :: "nat \<Rightarrow> (nat \<times> nat) option \<Rightarrow> Process \<Rightarrow> (Process \<times> int) option" where
  "setRLimit r lim p = (case lim of None \<Rightarrow> Some (p, - 1)
    | Some (c, m) \<Rightarrow> do {
        (c0, m0) \<leftarrow> rd (rlimits p) r;
        if m_euid p \<noteq> 0 \<and> (m0 < c \<or> m0 < m) then Some (p, - 1)
        else Some (p\<lparr>rlimits := (rlimits p)[r := (c, m)]\<rparr>, 0) })"

text \<open>
  \<open>getRLimit\<close> takes as many bytes as the whole table has, from the limit asked for on; the table is the last
  member of the object, so that every limit but the first reads past its end.
\<close>

definition getRLimit :: "nat \<Rightarrow> Process \<Rightarrow> byte list option" where
  "getRLimit r p = (if r = 0 then Some (concat (map (\<lambda>(c, m). enc64 c @ enc64 m) (rlimits p))) else None)"

definition defaultSigAct :: SigAct where
  "defaultSigAct = \<lparr>sa_handler = 0, sa_flags = 0, sa_restorer = 0, sa_mask = 0\<rparr>"

definition getSigAct :: "nat \<Rightarrow> Process \<Rightarrow> SigAct option" where
  "getSigAct i p = map_option (\<lambda>x. case x of None \<Rightarrow> defaultSigAct | Some a \<Rightarrow> a) (rd (sigacts p) i)"

subsection \<open>Creation\<close>

text \<open>
  The constructors of a task: the members with initialisers, the others as in the memory \<open>fresh\<close> the
  object is placed in.
\<close>

definition Task_init :: "nat \<Rightarrow> Task \<Rightarrow> Task" where
  "Task_init proc fresh = fresh\<lparr>t_proc := proc, sigmask := 0, sigpending := 0, siginfos := replicate numSigs None,
     sigstack := \<lparr>ss_sp = 0, ss_flags = 0, ss_size = 0\<rparr>, hasInfo := False, clearChildTid := 0\<rparr>"

definition Task_new :: "nat \<Rightarrow> Task \<Rightarrow> Task" where
  "Task_new proc fresh = (Task_init proc fresh)\<lparr>ctx := set_xreg 2 UserStackDefault (ctx fresh)\<rparr>"

definition Task_copy :: "nat \<Rightarrow> Task \<Rightarrow> Task \<Rightarrow> Task" where
  "Task_copy proc other fresh = (Task_init proc fresh)\<lparr>ctx := ctx other\<rparr>"

definition add_to_proc :: "nat \<Rightarrow> nat \<Rightarrow> nat \<Rightarrow> Kernel \<Rightarrow> Kernel option" where
  "add_to_proc i t prio k =
     do { sc \<leftarrow> new_task t prio (fs_sched (kfs k));
          Some (set_sched sc (set_proc i (\<lambda>p. p\<lparr>p_tasks := List.insert t (p_tasks p)\<rparr>) k)) }"

definition newKTask :: "reader \<Rightarrow> Task \<Rightarrow> nat \<Rightarrow> nat \<Rightarrow> Kernel \<Rightarrow> (nat \<times> Kernel) option" where
  "newKTask rp fresh prio i k =
     do { (va, k) \<leftarrow> newTrapframe rp i k;
          let (k, t) = add_taskobj (Task_new i fresh) k;
          k \<leftarrow> add_to_proc i t prio k;
          Some (t, k) }"

definition newTask :: "reader \<Rightarrow> Task \<Rightarrow> nat \<Rightarrow> Kernel \<Rightarrow> (nat \<times> Kernel) option" where
  "newTask rp fresh i k =
     do { (va, k) \<leftarrow> newTrapframe rp i k;
          let (k, t) = add_taskobj (Task_new i fresh) k;
          (sp, k) \<leftarrow> newUstack rp i k;
          let k = set_task t (\<lambda>x. x\<lparr>ctx := set_xreg 10 0 (set_xreg 2 sp (ctx x))\<rparr>) k;
          k \<leftarrow> add_to_proc i t 0 k;
          Some (t, k) }"

definition newTask_from :: "reader \<Rightarrow> Task \<Rightarrow> nat \<Rightarrow> nat \<Rightarrow> nat \<Rightarrow> Kernel \<Rightarrow> (nat \<times> Kernel) option" where
  "newTask_from rp fresh i other ustack k =
     do { o' \<leftarrow> tasks k other;
          prio \<leftarrow> map_option sc_prior (objs (fs_sched (kfs k)) other);
          (va, k) \<leftarrow> newTrapframe rp i k;
          let (k, t) = add_taskobj (Task_copy i o' fresh) k;
          (sp, k) \<leftarrow> (if ustack = 0 then newUstack rp i k else Some (ustack, k));
          let k = set_task t (\<lambda>x. x\<lparr>ctx := set_xreg 2 sp (ctx x)\<rparr>) k;
          k \<leftarrow> add_to_proc i t prio k;
          Some (t, k) }"

text \<open>
  The copy constructor of a process: the address space is cloned, the descriptors are shared, the heap
  starts at the other's bottom; signal actions, identities, mask and limits are not copied.
\<close>

definition Process_copy :: "reader \<Rightarrow> Process \<Rightarrow> nat \<Rightarrow> Kernel \<Rightarrow> (nat \<times> Kernel) option" where
  "Process_copy rp fresh other k =
     do { o' \<leftarrow> procs k other;
          (v, h) \<leftarrow> VMAR_clone rp (vmar o') (kheap k);
          let p = fresh\<lparr>p_parent := other, vmar := v, heapTop := heapBottom o', heapBottom := heapBottom o',
                p_tasks := [], p_files := p_files o', p_exe := [], p_cwd := p_cwd o', p_state := Init,
                sigacts := replicate numSigs None, supgids := []\<rparr>;
          let (k1, i) = add_proc p (k\<lparr>kheap := h\<rparr>);
          Some (i, k1) }"

definition defaultTask :: "(nat list \<Rightarrow> nat list) \<Rightarrow> Process \<Rightarrow> nat option" where
  "defaultTask it p = (case it (p_tasks p) of [] \<Rightarrow> None | t # _ \<Rightarrow> Some t)"

definition proc_clone :: "(nat list \<Rightarrow> nat list) \<Rightarrow> reader \<Rightarrow> Process \<Rightarrow> Task \<Rightarrow> nat \<Rightarrow> Kernel \<Rightarrow> (nat \<times> Kernel) option" where
  "proc_clone it rp freshp fresht t k =
     do { x \<leftarrow> tasks k t;
          (i, k) \<leftarrow> Process_copy rp freshp (t_proc x) k;
          (_, k) \<leftarrow> newTask_from rp fresht i t (xreg (ctx x) 2) k;
          q \<leftarrow> procs k i;
          d \<leftarrow> defaultTask it q;
          Some (i, set_task d (\<lambda>y. y\<lparr>ctx := set_xreg 10 0 (ctx y)\<rparr>) k) }"

subsection \<open>Termination of processes\<close>

definition Process_exit :: "(nat list \<Rightarrow> nat list) \<Rightarrow> nat \<Rightarrow> int \<Rightarrow> Kernel \<Rightarrow> Kernel option" where
  "Process_exit it i status k =
     do { p \<leftarrow> procs k i;
          let k = set_proc i (\<lambda>p. p\<lparr>p_state := Zombie, p_exitstatus := status\<rparr>) k;
          pp \<leftarrow> procs k (p_parent p);
          t \<leftarrow> defaultTask it pp;
          sc \<leftarrow> wakeup t (fs_sched (kfs k));
          sc \<leftarrow> kernel_yield sc;
          Some (set_sched sc k) }"

text \<open>
  A descriptor is cleared: the file goes when no process refers to it any more.  The destructor of a
  process clears its descriptors from the last to the first.
\<close>

definition file_shared :: "nat \<Rightarrow> Kernel \<Rightarrow> bool" where
  "file_shared f k = list_ex (\<lambda>i. case procs k i of None \<Rightarrow> False | Some p \<Rightarrow> Some f \<in> set (p_files p)) [0..<procIds k + 1]"

definition clear_fd :: "nat \<Rightarrow> nat \<Rightarrow> Kernel \<Rightarrow> Kernel option" where
  "clear_fd i fd k =
     do { p \<leftarrow> procs k i;
          x \<leftarrow> rd (p_files p) fd;
          let k = set_proc i (\<lambda>p. p\<lparr>p_files := (p_files p)[fd := None]\<rparr>) k;
          case x of None \<Rightarrow> Some k
          | Some f \<Rightarrow> if file_shared f k then Some k
                      else do { s \<leftarrow> File_delete (kfs k) f; Some (k\<lparr>kfs := s\<rparr>) } }"

fun clear_fds :: "nat \<Rightarrow> nat \<Rightarrow> Kernel \<Rightarrow> Kernel option" where
  "clear_fds i 0 k = Some k"
| "clear_fds i (Suc n) k = do { k \<leftarrow> clear_fd i n k; clear_fds i n k }"

definition proc_del :: "nat \<Rightarrow> Kernel \<Rightarrow> Kernel option" where
  "proc_del i k =
     (case procs k i of None \<Rightarrow> Some k
      | Some _ \<Rightarrow> do { k \<leftarrow> clear_fds i mOFiles k; Some (k\<lparr>procs := (procs k)(i := None)\<rparr>) })"

definition zombieExit :: "nat \<Rightarrow> Kernel \<Rightarrow> Kernel option" where
  "zombieExit i k =
     do { p \<leftarrow> procs k i;
          proc_del i (fold (\<lambda>c. set_proc c (\<lambda>q. q\<lparr>p_parent := p_parent p\<rparr>)) (getChilds i k) k) }"

subsection \<open>System calls on identities\<close>

definition ESRCH :: int where "ESRCH = 3"
definition EPERM :: int where "EPERM = 1"
definition EFAULT :: int where "EFAULT = 14"

definition sys_getPid :: "Kernel \<Rightarrow> nat option" where
  "sys_getPid k = map_option fst (cur_proc k)"

definition sys_getPPid :: "Kernel \<Rightarrow> nat option" where
  "sys_getPPid k = do { (i, p) \<leftarrow> cur_proc k; q \<leftarrow> procs k (p_parent p); Some (p_parent p) }"

definition sys_setGid :: "nat \<Rightarrow> Kernel \<Rightarrow> (Kernel \<times> int) option" where
  "sys_setGid g k = do { (i, _) \<leftarrow> cur_proc k; Some (set_proc i (\<lambda>p. p\<lparr>m_rgid := g, m_egid := g, m_sgid := g\<rparr>) k, 0) }"

definition sys_setUid :: "nat \<Rightarrow> Kernel \<Rightarrow> (Kernel \<times> int) option" where
  "sys_setUid u k = do { (i, _) \<leftarrow> cur_proc k; Some (set_proc i (\<lambda>p. p\<lparr>m_ruid := u, m_euid := u, m_suid := u\<rparr>) k, 0) }"

definition copy_ids :: "reader \<Rightarrow> nat \<Rightarrow> (nat \<times> nat) list \<Rightarrow> Kernel \<Rightarrow> Kernel option" where
  "copy_ids rp i xs k = foldl (\<lambda>m (a, v). m \<bind> put_user rp i a (enc32 v)) (Some k) xs"

definition sys_getRESgid :: "reader \<Rightarrow> nat \<Rightarrow> nat \<Rightarrow> nat \<Rightarrow> Kernel \<Rightarrow> (Kernel \<times> int) option" where
  "sys_getRESgid rp a b c k =
     (if a = 0 \<or> b = 0 \<or> c = 0 then Some (k, - EFAULT)
      else do { (i, p) \<leftarrow> cur_proc k; k \<leftarrow> copy_ids rp i [(a, m_rgid p), (b, m_egid p), (c, m_sgid p)] k; Some (k, 0) })"

definition sys_getRESuid :: "reader \<Rightarrow> nat \<Rightarrow> nat \<Rightarrow> nat \<Rightarrow> Kernel \<Rightarrow> (Kernel \<times> int) option" where
  "sys_getRESuid rp a b c k =
     (if a = 0 \<or> b = 0 \<or> c = 0 then Some (k, - EFAULT)
      else do { (i, p) \<leftarrow> cur_proc k; k \<leftarrow> copy_ids rp i [(a, m_ruid p), (b, m_euid p), (c, m_suid p)] k; Some (k, 0) })"

definition sys_getUid :: "Kernel \<Rightarrow> nat option" where
  "sys_getUid k = map_option (m_ruid \<circ> snd) (cur_proc k)"

definition sys_getEuid :: "Kernel \<Rightarrow> nat option" where
  "sys_getEuid k = map_option (m_euid \<circ> snd) (cur_proc k)"

definition sys_getGid :: "Kernel \<Rightarrow> nat option" where
  "sys_getGid k = map_option (m_rgid \<circ> snd) (cur_proc k)"

definition sys_getEgid :: "Kernel \<Rightarrow> nat option" where
  "sys_getEgid k = map_option (m_egid \<circ> snd) (cur_proc k)"

definition sys_getTid :: "Kernel \<Rightarrow> nat option" where
  "sys_getTid k = map_option fst (cur_task k)"

definition target_proc :: "int \<Rightarrow> Kernel \<Rightarrow> nat option option" where
  "target_proc pid k = (if pid = 0 then map_option (Some \<circ> fst) (cur_proc k)
     else Some (if pid < 0 \<or> procs k (nat pid) = None then None else Some (nat pid)))"

definition sys_setPGid :: "int \<Rightarrow> int \<Rightarrow> Kernel \<Rightarrow> (Kernel \<times> int) option" where
  "sys_setPGid pid g k =
     do { t \<leftarrow> target_proc pid k;
          case t of None \<Rightarrow> Some (k, - ESRCH)
          | Some i \<Rightarrow> Some (set_proc i (\<lambda>p. p\<lparr>m_pgid := (if g = 0 then int i else g)\<rparr>) k, 0) }"

definition sys_getPGid :: "int \<Rightarrow> Kernel \<Rightarrow> int option" where
  "sys_getPGid pid k =
     do { t \<leftarrow> target_proc pid k;
          case t of None \<Rightarrow> Some (- ESRCH) | Some i \<Rightarrow> map_option m_pgid (procs k i) }"

definition sys_getSid :: "int \<Rightarrow> Kernel \<Rightarrow> int option" where
  "sys_getSid pid k =
     do { t \<leftarrow> target_proc pid k;
          case t of None \<Rightarrow> Some (- ESRCH) | Some i \<Rightarrow> map_option m_sid (procs k i) }"

definition sys_setSid :: "Kernel \<Rightarrow> (Kernel \<times> int) option" where
  "sys_setSid k =
     do { (i, p) \<leftarrow> cur_proc k;
          if m_pgid p = int i then Some (k, - EPERM)
          else Some (set_proc i (\<lambda>p. p\<lparr>m_sid := int i, m_pgid := int i\<rparr>) k, int i) }"

text \<open>A negative size makes a buffer of negative length, which is outside every object.\<close>

definition sys_getGroups :: "(nat list \<Rightarrow> nat list) \<Rightarrow> reader \<Rightarrow> int \<Rightarrow> nat \<Rightarrow> Kernel \<Rightarrow> (Kernel \<times> int) option" where
  "sys_getGroups it rp n a k =
     (if a = 0 then Some (k, - EFAULT)
      else do {
        (i, p) \<leftarrow> cur_proc k;
        if n = 0 then Some (k, int (length (supgids p)))
        else if n < 0 then None
        else do {
          let g = getGroups it (nat n) p;
          k \<leftarrow> put_user rp i a (concat (map enc32 g)) k;
          Some (k, int (length g)) } })"

definition sys_setGroups :: "int \<Rightarrow> nat \<Rightarrow> Kernel \<Rightarrow> (Kernel \<times> int) option" where
  "sys_setGroups n a k =
     (if a = 0 then Some (k, - EFAULT)
      else if n < 0 then None
      else do {
        (i, p) \<leftarrow> cur_proc k;
        b \<leftarrow> get_user i a (nat n * 4) k;
        Some (set_proc i (setGroups (map (\<lambda>j. le32 b (4 * j)) [0..<nat n])) k, 0) })"

definition sys_getRLimit :: "reader \<Rightarrow> int \<Rightarrow> nat \<Rightarrow> Kernel \<Rightarrow> (Kernel \<times> int) option" where
  "sys_getRLimit rp r a k =
     (if a = 0 \<or> r < 0 \<or> int RLIMIT_NLIMITS \<le> r then Some (k, - EFAULT)
      else do {
        (i, p) \<leftarrow> cur_proc k;
        b \<leftarrow> getRLimit (nat r) p;
        k \<leftarrow> put_user rp i a b k;
        Some (k, 0) })"

definition sys_setRLimit :: "int \<Rightarrow> nat \<Rightarrow> Kernel \<Rightarrow> (Kernel \<times> int) option" where
  "sys_setRLimit r a k =
     (if a = 0 \<or> r < 0 \<or> int RLIMIT_NLIMITS \<le> r then Some (k, - EFAULT)
      else do {
        (i, p) \<leftarrow> cur_proc k;
        b \<leftarrow> get_user i a 16 k;
        let c = le32 b 0 + 2 ^ 32 * le32 b 4;
        let m = le32 b 8 + 2 ^ 32 * le32 b 12;
        if m < c then Some (k, - 1)
        else do { (p1, ret) \<leftarrow> setRLimit (nat r) (Some (c, m)) p; Some (set_proc i (\<lambda>_. p1) k, ret) } })"

definition sys_uMask :: "nat \<Rightarrow> Kernel \<Rightarrow> (Kernel \<times> int) option" where
  "sys_uMask m k = do { (i, p) \<leftarrow> cur_proc k; let (p1, old) = setUMask m p; Some (set_proc i (\<lambda>_. p1) k, int old) }"

end
