(* ===== verification/ProcSpec.thy ===== *)
theory ProcSpec
  imports Proc
begin

text \<open>Descriptors of a process: allocation takes the lowest free one.  The heap: its top stays in its region.\<close>

lemma fd_scan_Some:
  "fd_scan tbl n st = Some k \<Longrightarrow> st \<le> k \<and> k < st + n \<and> tbl ! k = None \<and> (\<forall>j. st \<le> j \<longrightarrow> j < k \<longrightarrow> tbl ! j \<noteq> None)"
proof (induction tbl n st rule: fd_scan.induct)
  case (2 tbl n fd)
  show ?case
  proof (cases "tbl ! fd = None")
    case False
    then have "fd + 1 \<le> k \<and> k < fd + 1 + n \<and> tbl ! k = None \<and> (\<forall>j. fd + 1 \<le> j \<longrightarrow> j < k \<longrightarrow> tbl ! j \<noteq> None)"
      using 2(1)[OF False] 2(2) False by (simp split: if_splits)
    moreover have "tbl ! j \<noteq> None" if "fd \<le> j" "j < k" for j
      using calculation that False by (cases "j = fd") auto
    ultimately show ?thesis by auto
  qed (use 2 in auto)
qed simp

lemma fd_scan_None: "fd_scan tbl n st = None \<Longrightarrow> st \<le> j \<Longrightarrow> j < st + n \<Longrightarrow> tbl ! j \<noteq> None"
proof (induction tbl n st rule: fd_scan.induct)
  case (2 tbl n fd)
  then show ?case by (cases "j = fd") (auto split: if_splits)
qed simp

text \<open>Allocating a descriptor without asking for a particular one takes the lowest free descriptor that is
  not below the given bound, changes no other entry and keeps the size of the table; it fails with
  \<open>ENOMEM\<close>, and changes nothing, exactly when every descriptor from the bound on is in use.\<close>

theorem fdAlloc_lowest:
  assumes "length tbl = mOFiles"
  shows "case fdAlloc tbl f lo False of (tbl', r) \<Rightarrow> length tbl' = mOFiles \<and>
     (if \<forall>j < mOFiles. nat lo \<le> j \<longrightarrow> tbl ! j \<noteq> None then tbl' = tbl \<and> r = - ENOMEM
      else \<exists>k. r = int k \<and> nat lo \<le> k \<and> k < mOFiles \<and> tbl ! k = None \<and> tbl' ! k = Some f
        \<and> (\<forall>j < mOFiles. j \<noteq> k \<longrightarrow> tbl' ! j = tbl ! j) \<and> (\<forall>j < k. nat lo \<le> j \<longrightarrow> tbl ! j \<noteq> None))"
proof (cases "fd_scan tbl (mOFiles - nat lo) (nat lo)")
  case None
  then have "\<forall>j < mOFiles. nat lo \<le> j \<longrightarrow> tbl ! j \<noteq> None" using fd_scan_None[OF None] by simp
  then show ?thesis using None assms by (simp add: fdAlloc_def)
next
  case (Some k)
  note s = fd_scan_Some[OF Some]
  then have k: "k < mOFiles" "nat lo \<le> k" "tbl ! k = None" by auto
  then have "\<not> (\<forall>j < mOFiles. nat lo \<le> j \<longrightarrow> tbl ! j \<noteq> None)" by blast
  then show ?thesis using Some assms s k by (auto simp: fdAlloc_def intro!: exI[of _ k])
qed

theorem fdAlloc_lowest_witness:
  "length (replicate 3 (Some 7) @ replicate 98 None) = mOFiles
   \<and> snd (fdAlloc (replicate 3 (Some 7) @ replicate 98 None) 9 0 False) = 3"
proof -
  let ?t = "replicate 3 (Some 7) @ replicate 98 None :: nat option list"
  have l: "length ?t = mOFiles" by (simp add: mOFiles_def)
  obtain t r where e: "fdAlloc ?t 9 0 False = (t, r)" by fastforce
  have v: "?t ! j = None \<longleftrightarrow> 3 \<le> j" if "j < mOFiles" for j using that by (auto simp: nth_append mOFiles_def)
  have n: "\<not> (\<forall>j < mOFiles. nat 0 \<le> j \<longrightarrow> ?t ! j \<noteq> None)" using v[of 3] by (auto simp: mOFiles_def intro!: exI[of _ 3])
  then obtain k where k: "r = int k" "k < mOFiles" "?t ! k = None" "\<forall>j < k. nat 0 \<le> j \<longrightarrow> ?t ! j \<noteq> None"
    using fdAlloc_lowest[OF l, where f = 9 and lo = 0] e by (simp only: prod.case if_False) blast
  have "k = 3" using v[OF k(2)] v[of 3] k by (auto simp: mOFiles_def le_less)
  then show ?thesis using l e k(1) by simp
qed

text \<open>C33: The break of a process stays in its heap region: from a state whose top is not below the bottom of the heap
  and under its limit, every call of \<open>brk\<close> that returns gives such a state again with the same bottom,
  and returns its top; an address outside the region changes nothing.\<close>

theorem brk_bounds:
  assumes "heapBottom p \<le> heapTop p" "heapTop p < heapBottom p + UserHeapSize" "heapBottom p + UserHeapSize < 2 ^ 64"
    and "brk rp addr (p, h) = Some (ret, p', h')"
  shows "heapBottom p' = heapBottom p \<and> heapBottom p' \<le> heapTop p' \<and> heapTop p' < heapBottom p' + UserHeapSize \<and> ret = heapTop p'
     \<and> (if heapBottom p < addr \<and> addr < heapBottom p + UserHeapSize then ret = addr else p' = p \<and> h' = h)"
  using assms by (auto simp: brk_def add64_def Let_def split: if_splits bind_splits prod.splits)

theorem brk_bounds_witness:
  "\<exists>p p' (h' :: vmheap). heapBottom p = 4096 \<and> heapTop p = 8192 \<and> brk (\<lambda>_ _. []) 6000 (p, undefined) = Some (6000, p', h')
     \<and> heapTop p' = 6000"
proof -
  let ?m = "\<lparr>mp_vpn = 1, mp_len = 1, mp_offset = 0, mp_vmo = 0, mp_perm = 0, mp_mapping = Manon, mp_sharing = Privt\<rparr>"
  let ?p = "undefined\<lparr>heapBottom := 4096, heapTop := 8192, vmar := \<lparr>va_mappings = [?m], va_root = 0\<rparr>\<rparr> :: Process"
  have c: "VMAR_contains (vmar ?p) 6000"
    by (simp add: VMAR_contains_def mp_contains_def vend_def addr2pn_def add64_def sub64_def)
  then obtain p' h' where b: "brk (\<lambda>_ _. []) 6000 (?p, undefined) = Some (6000, p', h')"
    by (simp add: brk_def UserHeapSize_def add64_def)
  have "heapTop p' = 6000" using brk_bounds[OF _ _ _ b] by (simp add: UserHeapSize_def)
  then show ?thesis using b by (intro exI[of _ ?p] exI[of _ p'] exI[of _ h']) simp
qed

end
