(* ===== verification/Signal.thy ===== *)
theory Signal
  imports Proc
begin

text \<open>
  Signals (\<open>kernel/ipc.cc\<close>, \<open>kernel/syscall/signal.cc\<close>) and the entry of system calls (\<open>uecallHandler\<close> of
  \<open>kernel/trap.cc\<close>).  A signal information block is its 128 bytes, an action its fields.  Bytes of a
  structure that the code never sets are given by \<open>junk\<close>, and \<open>sigret\<close> is the address of the return stub.
  A shift by a signal number outside 1 to 64 is undefined.  The two handlers for stopping and
  continuing are empty in the code.
\<close>

definition sigMaskBit :: "64 word \<Rightarrow> nat \<Rightarrow> bool" where
  "sigMaskBit m b = bit m b"

definition sigMaskBitSet :: "64 word \<Rightarrow> nat \<Rightarrow> bool \<Rightarrow> 64 word" where
  "sigMaskBitSet m b v = (if v then set_bit b m else unset_bit b m)"

definition sig_index :: "int \<Rightarrow> nat option" where
  "sig_index sig = (if 1 \<le> sig \<and> sig \<le> int numSigs then Some (nat (sig - 1)) else None)"

definition sigSend_task :: "nat \<Rightarrow> int \<Rightarrow> byte list option \<Rightarrow> Kernel \<Rightarrow> Kernel option" where
  "sigSend_task t sig info k =
     do { x \<leftarrow> tasks k t;
          i \<leftarrow> sig_index sig;
          old \<leftarrow> rd (siginfos x) i;
          Some (if old = None
                then set_task t (\<lambda>x. x\<lparr>sigpending := sigMaskBitSet (sigpending x) i True, siginfos := (siginfos x)[i := info]\<rparr>) k
                else k) }"

fun send_first :: "nat list \<Rightarrow> int \<Rightarrow> byte list option \<Rightarrow> Kernel \<Rightarrow> Kernel option" where
  "send_first [] sig info k = Some k"
| "send_first (t # ts) sig info k =
     do { x \<leftarrow> tasks k t;
          i \<leftarrow> sig_index sig;
          if sigMaskBit (sigmask x) i then send_first ts sig info k else sigSend_task t sig info k }"

definition sigSend :: "(nat list \<Rightarrow> nat list) \<Rightarrow> nat \<Rightarrow> int \<Rightarrow> byte list option \<Rightarrow> Kernel \<Rightarrow> Kernel option" where
  "sigSend it i sig info k = do { p \<leftarrow> procs k i; send_first (it (p_tasks p)) sig info k }"

subsection \<open>Actions and masks\<close>

definition sigAction :: "int \<Rightarrow> SigAct option \<Rightarrow> Kernel \<Rightarrow> (Kernel \<times> SigAct option \<times> int) option" where
  "sigAction sig nact k =
     (if sig \<le> 0 \<or> int numSigs < sig \<or> sig = 9 \<or> sig = 19 then Some (k, None, - EINVAL)
      else do {
        (i, p) \<leftarrow> cur_proc k;
        j \<leftarrow> sig_index sig;
        oact \<leftarrow> getSigAct j p;
        Some (case nact of None \<Rightarrow> k | Some a \<Rightarrow> set_proc i (\<lambda>p. p\<lparr>sigacts := (sigacts p)[j := Some a]\<rparr>) k, Some oact, 0) })"

definition unblockable :: "64 word" where
  "unblockable = push_bit 8 1 OR push_bit 18 1"

definition new_mask :: "int \<Rightarrow> 64 word \<Rightarrow> 64 word \<Rightarrow> 64 word option" where
  "new_mask how s m =
     map_option (\<lambda>v. v AND NOT unblockable)
       (if how = 0 then Some (m OR s) else if how = 1 then Some (m AND NOT s) else if how = 2 then Some s else None)"

definition sigProcMask :: "int \<Rightarrow> 64 word option \<Rightarrow> nat \<Rightarrow> Kernel \<Rightarrow> (Kernel \<times> 64 word option \<times> int) option" where
  "sigProcMask how nset sz k =
     (if sz \<noteq> 8 then Some (k, None, - EINVAL)
      else do {
        (t, x) \<leftarrow> cur_task k;
        Some (case nset of None \<Rightarrow> (k, Some (sigmask x), 0)
              | Some s \<Rightarrow> (case new_mask how s (sigmask x) of
                    None \<Rightarrow> (k, Some (sigmask x), - EINVAL)
                  | Some m \<Rightarrow> (set_task t (\<lambda>x. x\<lparr>sigmask := m\<rparr>) k, Some (sigmask x), 0))) })"

subsection \<open>The frame of a handler\<close>

definition dec64 :: "byte list \<Rightarrow> nat \<Rightarrow> nat" where
  "dec64 b i = le32 b i + 2 ^ 32 * le32 b (i + 4)"

definition pad :: "(nat \<Rightarrow> byte) \<Rightarrow> nat \<Rightarrow> nat \<Rightarrow> byte list" where
  "pad junk i n = map junk [i..<i + n]"

definition uctx_bytes :: "(nat \<Rightarrow> byte) \<Rightarrow> SigStack \<Rightarrow> 64 word \<Rightarrow> Context \<Rightarrow> byte list" where
  "uctx_bytes junk stk msk c =
     enc64 0 @ enc64 0 @ enc64 (ss_sp stk) @ enc32 (ss_flags stk) @ pad junk 28 4 @ enc64 (ss_size stk)
     @ enc64 (unat msk) @ pad junk 48 128 @ enc64 (pc c) @ concat (map enc64 (gpr c)) @ pad junk 432 528"

definition uctx_size :: nat where "uctx_size = 960"

definition uctx_mask :: "byte list \<Rightarrow> 64 word" where
  "uctx_mask b = of_nat (dec64 b 40)"

definition uctx_ctx :: "byte list \<Rightarrow> Context" where
  "uctx_ctx b = \<lparr>gpr = map (\<lambda>j. dec64 b (184 + 8 * j)) [0..<31], pc = dec64 b 176\<rparr>"

definition stream_put :: "reader \<Rightarrow> nat \<Rightarrow> byte list \<Rightarrow> Writer \<times> Kernel \<Rightarrow> (Writer \<times> Kernel) option" where
  "stream_put rp i b = (\<lambda>(w, k).
     do { p \<leftarrow> procs k i;
          (w, v, h) \<leftarrow> Writer_put rp b (w, vmar p, kheap k);
          Some (w, (set_proc i (\<lambda>p. p\<lparr>vmar := v\<rparr>) k)\<lparr>kheap := h\<rparr>) })"

definition stream_get :: "nat \<Rightarrow> nat \<Rightarrow> Writer \<times> Kernel \<Rightarrow> (byte list \<times> Writer) option" where
  "stream_get i n = (\<lambda>(w, k). do { p \<leftarrow> procs k i; Writer_get n (w, vmar p, kheap k) })"

definition sigReturn :: "Kernel \<Rightarrow> (Kernel \<times> int) option" where
  "sigReturn k =
     do { (t, x) \<leftarrow> cur_task k;
          let i = t_proc x;
          (b, _) \<leftarrow> stream_get i 8 (\<lparr>w_vaddr = xreg (ctx x) 2, w_reverse = False\<rparr>, k);
          let w = \<lparr>w_vaddr = dec64 b 0, w_reverse = True\<rparr>;
          w \<leftarrow> (if hasInfo x then map_option snd (stream_get i 128 (w, k)) else Some w);
          (u, _) \<leftarrow> stream_get i uctx_size (w, k);
          Some (set_task t (\<lambda>x. x\<lparr>sigmask := uctx_mask u, ctx := uctx_ctx u\<rparr>) k, 0) }"

subsection \<open>Delivery\<close>

definition sigExitHandler :: "(nat list \<Rightarrow> nat list) \<Rightarrow> nat \<Rightarrow> Kernel \<Rightarrow> Kernel option" where
  "sigExitHandler it sig k = do { (i, _) \<leftarrow> cur_proc k; Process_exit it i (128 + int sig) k }"

definition sigDumpHandler :: "(nat list \<Rightarrow> nat list) \<Rightarrow> nat \<Rightarrow> Kernel \<Rightarrow> Kernel option" where
  "sigDumpHandler it sig k =
     do { (i, p) \<leftarrow> cur_proc k;
          k \<leftarrow> sigSend it (p_parent p) 17 None k;
          sigExitHandler it sig k }"

definition pick_signal :: "Task \<Rightarrow> nat option" where
  "pick_signal x = find (\<lambda>i. bit (sigpending x) (i - 1) \<and> \<not> bit (sigmask x) (i - 1)) [1..<numSigs + 1]"

definition sig_default :: "(nat list \<Rightarrow> nat list) \<Rightarrow> nat \<Rightarrow> Kernel \<Rightarrow> Kernel option" where
  "sig_default it sig k =
     (if sig \<in> {1, 2, 9, 13, 14, 15, 10, 12, 29, 27, 26} \<or> 32 \<le> sig \<and> sig \<le> 64 then sigExitHandler it sig k
      else if sig \<in> {17, 23, 30} then Some k
      else if sig \<in> {3, 4, 6, 8, 11, 7, 31, 5, 24, 25} then sigDumpHandler it sig k
      else if sig \<in> {19, 20, 21, 22} then Some k
      else if sig = 18 then Some k
      else sigExitHandler it sig k)"

definition onSigStack :: "Task \<Rightarrow> bool" where
  "onSigStack x = (sub64 (xreg (ctx x) 2) (ss_sp (sigstack x)) < ss_size (sigstack x))"

definition SA_SIGINFO :: nat where "SA_SIGINFO = 4"
definition SA_ONSTACK :: nat where "SA_ONSTACK = 0x08000000"
definition SA_RESETHAND :: nat where "SA_RESETHAND = 0x80000000"
definition sigStackSiz :: nat where "sigStackSiz = 8192"

text \<open>The part of \<open>sigHandler\<close> that builds the frame and enters the handler \<open>sa\<close> of signal \<open>sig\<close>.\<close>

definition deliver :: "reader \<Rightarrow> (nat \<Rightarrow> byte) \<Rightarrow> nat \<Rightarrow> nat \<Rightarrow> SigAct \<Rightarrow> nat \<Rightarrow> Task \<Rightarrow> Kernel \<Rightarrow> Kernel option" where
  "deliver rp junk sigret sig sa t x k =
     do { let i = t_proc x;
          let switch = (sa_flags sa AND SA_ONSTACK \<noteq> 0 \<and> \<not> onSigStack x);
          let w = \<lparr>w_vaddr = (if switch then ss_sp (sigstack x) else xreg (ctx x) 2), w_reverse = True\<rparr>;
          (w, k) \<leftarrow> stream_put rp i (enc64 0) (w, k);
          let stack = w_vaddr w;
          let has_info = (sa_flags sa AND SA_SIGINFO \<noteq> 0);
          held \<leftarrow> rd (siginfos x) (sig - 1);
          let info = (case held of Some b \<Rightarrow> b
                      | None \<Rightarrow> enc32 sig @ enc32 0 @ enc32 0 @ pad junk 12 116);
          (w, k) \<leftarrow> (if has_info then stream_put rp i info (w, k) else Some (w, k));
          let pinfo = (if has_info then w_vaddr w else 0);
          let stk = (if switch then sigstack x else \<lparr>ss_sp = stack, ss_flags = 0, ss_size = sigStackSiz\<rparr>);
          (w, k) \<leftarrow> stream_put rp i (uctx_bytes junk stk (sigmask x) (ctx x)) (w, k);
          let puctx = w_vaddr w;
          (w, k) \<leftarrow> stream_put rp i (enc64 stack) (w, k);
          let c = set_xreg 1 (if sa_restorer sa \<noteq> 0 then sa_restorer sa else vDSOfuncAddr sigret) (ctx x);
          let c = set_xreg 10 sig (set_xreg 2 (w_vaddr w) c);
          let c = (if has_info then set_xreg 12 puctx (set_xreg 11 pinfo c) else c);
          let k = set_task t (\<lambda>x. x\<lparr>hasInfo := has_info, siginfos := (siginfos x)[sig - 1 := None],
                    sigmask := sigmask x OR sa_mask sa, ctx := c\<lparr>pc := sa_handler sa\<rparr>\<rparr>) k;
          Some (if sa_flags sa AND SA_RESETHAND \<noteq> 0
                then set_proc i (\<lambda>p. p\<lparr>sigacts := (sigacts p)[sig - 1 := None]\<rparr>) k else k) }"

definition sigHandler :: "(nat list \<Rightarrow> nat list) \<Rightarrow> reader \<Rightarrow> (nat \<Rightarrow> byte) \<Rightarrow> nat \<Rightarrow> Kernel \<Rightarrow> Kernel option" where
  "sigHandler it rp junk sigret k =
     do { (t, x) \<leftarrow> cur_task k;
          p \<leftarrow> procs k (t_proc x);
          case pick_signal x of
            None \<Rightarrow> Some k
          | Some sig \<Rightarrow> do {
              let k = set_task t (\<lambda>x. x\<lparr>sigpending := sigMaskBitSet (sigpending x) (sig - 1) False\<rparr>) k;
              if sig = 9 then sigExitHandler it sig k
              else if sig = 19 then Some k
              else do {
                sa \<leftarrow> getSigAct (sig - 1) p;
                if sa_handler sa = 2 ^ 64 - 1 then sigExitHandler it sig k
                else if sa_handler sa = 0 then sig_default it sig k
                else if sa_handler sa = 1 then Some k
                else deliver rp junk sigret sig sa t x k } } }"

subsection \<open>System calls on signals\<close>

definition sys_tkill :: "int \<Rightarrow> int \<Rightarrow> Kernel \<Rightarrow> (Kernel \<times> int) option" where
  "sys_tkill tid sig k = (if tid < 0 then None else do { k \<leftarrow> sigSend_task (nat tid) sig None k; Some (k, 0) })"

fun kill_all :: "(nat list \<Rightarrow> nat list) \<Rightarrow> nat \<Rightarrow> int \<Rightarrow> nat list \<Rightarrow> Kernel \<times> bool \<Rightarrow> (Kernel \<times> bool) option" where
  "kill_all it cur sig [] (k, ok) = Some (k, ok)"
| "kill_all it cur sig (i # is) (k, ok) =
     (if procs k i \<noteq> None \<and> i \<noteq> cur \<and> 2 < i
      then do { k \<leftarrow> sigSend it i sig None k; kill_all it cur sig is (k, True) }
      else kill_all it cur sig is (k, ok))"

definition sys_kill :: "(nat list \<Rightarrow> nat list) \<Rightarrow> int \<Rightarrow> int \<Rightarrow> Kernel \<Rightarrow> (Kernel \<times> int) option" where
  "sys_kill it pid sig k =
     do { (c, _) \<leftarrow> cur_proc k;
          let pid = (if pid = 0 then int c else pid);
          let pid = (if pid < - 1 then - pid else pid);
          if 0 < pid
          then (if procs k (nat pid) = None then Some (k, - ESRCH)
                else if sig = 0 then Some (k, 0)
                else do { k \<leftarrow> sigSend it (nat pid) sig None k; Some (k, 0) })
          else if pid = - 1
          then (if sig = 0 then Some (k, 0)
                else if sig = 9 \<or> sig = 19 then Some (k, - EPERM)
                else do { (k, ok) \<leftarrow> kill_all it c sig [0..<512] (k, False); Some (k, if ok then 0 else - 1) })
          else Some (k, 0) }"

definition sigact_bytes :: "SigAct \<Rightarrow> byte list" where
  "sigact_bytes a = enc64 (sa_handler a) @ enc64 (sa_flags a) @ enc64 (sa_restorer a) @ enc64 (unat (sa_mask a))"

definition sigact_of :: "byte list \<Rightarrow> SigAct" where
  "sigact_of b = \<lparr>sa_handler = dec64 b 0, sa_flags = dec64 b 8, sa_restorer = dec64 b 16, sa_mask = of_nat (dec64 b 24)\<rparr>"

definition sys_sigAction :: "reader \<Rightarrow> int \<Rightarrow> nat \<Rightarrow> nat \<Rightarrow> Kernel \<Rightarrow> (Kernel \<times> int) option" where
  "sys_sigAction rp sig na oa k =
     do { (i, _) \<leftarrow> cur_proc k;
          nact \<leftarrow> (if na = 0 then Some None else map_option (Some \<circ> sigact_of) (get_user i na 32 k));
          (k, oact, ret) \<leftarrow> sigAction sig nact k;
          k \<leftarrow> (case oact of Some a \<Rightarrow> if ret = 0 \<and> oa \<noteq> 0 then put_user rp i oa (sigact_bytes a) k else Some k
                | None \<Rightarrow> Some k);
          Some (k, ret) }"

text \<open>The old mask is left uninitialised on an error before it is read, and is copied out all the same.\<close>

definition sys_sigProcMask :: "reader \<Rightarrow> 64 word \<Rightarrow> int \<Rightarrow> nat \<Rightarrow> nat \<Rightarrow> nat \<Rightarrow> Kernel \<Rightarrow> (Kernel \<times> int) option" where
  "sys_sigProcMask rp fresh how ns os sz k =
     do { (i, _) \<leftarrow> cur_proc k;
          if ns = 0 then Some (k, 0)
          else do {
            b \<leftarrow> get_user i ns 8 k;
            (k, oset, ret) \<leftarrow> sigProcMask how (Some (of_nat (dec64 b 0))) sz k;
            k \<leftarrow> (if os \<noteq> 0 then put_user rp i os (enc64 (unat (case oset of Some m \<Rightarrow> m | None \<Rightarrow> fresh))) k else Some k);
            Some (k, ret) } }"

subsection \<open>Entry of system calls\<close>

text \<open>
  The dispatch of \<open>uecallHandler\<close> over the table of calls.  The result goes to register a0 of the calling
  task after the call has returned, whatever the call did to the registers.
\<close>

definition nSyscalls :: int where "nSyscalls = 284"

type_synonym syscall_t = "nat list \<Rightarrow> Kernel \<Rightarrow> (Kernel \<times> int) option"

definition uecallHandler :: "(nat \<Rightarrow> syscall_t option) \<Rightarrow> Kernel \<Rightarrow> Kernel option" where
  "uecallHandler syscallPtrs k =
     do { (t, x) \<leftarrow> cur_task k;
          let ecallId = sint (word_of_nat (xreg (ctx x) 17) :: 32 word);
          let k = set_task t (\<lambda>x. x\<lparr>ctx := (ctx x)\<lparr>pc := add64 (pc (ctx x)) 4\<rparr>\<rparr>) k;
          if nSyscalls \<le> ecallId then Some (set_task t (\<lambda>x. x\<lparr>ctx := set_xreg 10 1 (ctx x)\<rparr>) k)
          else if ecallId < 0 then None
          else (case syscallPtrs (nat ecallId) of
              None \<Rightarrow> Some k
            | Some f \<Rightarrow> do {
                (k, ret) \<leftarrow> f (map (xreg (ctx x)) [10..<16]) k;
                Some (set_task t (\<lambda>x. x\<lparr>ctx := set_xreg 10 (nat (ret mod 2 ^ 64)) (ctx x)\<rparr>) k) }) }"

end
