(* ===== verification/SignalSpec.thy ===== *)
theory SignalSpec
  imports Signal VmarSpec Codec
begin

text \<open>
  Signals: the frame of a handler decodes to the context it was built from; what a return from a
  handler restores; masks and the two signals that cannot be blocked; termination by a signal.
\<close>

subsection \<open>Encoded numbers\<close>

lemma dec64_at: "length xs = i \<Longrightarrow> v < 2 ^ 64 \<Longrightarrow> dec64 (xs @ enc64 v @ ys) i = v"
proof -
  assume l: "length xs = i" and v: "v < 2 ^ 64"
  have a: "le32 (xs @ enc64 v @ ys) i = v mod 2 ^ 32"
    using le32_at[OF l, of v "enc32 (v div 2 ^ 32) @ ys"] by (simp add: enc64_def)
  have b: "le32 (xs @ enc64 v @ ys) (i + 4) = v div 2 ^ 32 mod 2 ^ 32"
    using le32_at[of "xs @ enc32 v" "i + 4" "v div 2 ^ 32" ys] l by (simp add: enc64_def)
  have "v div 2 ^ 32 < 2 ^ 32" using v by (simp add: less_mult_imp_div_less)
  then show ?thesis by (simp add: dec64_def a b)
qed

subsection \<open>The frame\<close>

definition ctx_ok :: "Context \<Rightarrow> bool" where
  "ctx_ok c \<longleftrightarrow> length (gpr c) = 31 \<and> (\<forall>v \<in> set (gpr c). v < 2 ^ 64) \<and> pc c < 2 ^ 64"

lemma length_concat_enc64: "length (concat (map enc64 vs)) = 8 * length vs"
  by (induction vs) simp_all

lemma dec64_list:
  "j < length vs \<Longrightarrow> \<forall>v \<in> set vs. v < 2 ^ 64 \<Longrightarrow> length xs = i
    \<Longrightarrow> dec64 (xs @ concat (map enc64 vs) @ ys) (i + 8 * j) = vs ! j"
proof (induction vs arbitrary: j xs i)
  case (Cons v vs)
  show ?case
  proof (cases j)
    case 0
    then show ?thesis using dec64_at[of xs i v "concat (map enc64 vs) @ ys"] Cons.prems by simp
  next
    case (Suc n)
    then show ?thesis using Cons.IH[of n "xs @ enc64 v" "i + 8"] Cons.prems by (simp add: algebra_simps)
  qed
qed simp

lemma uctx_roundtrip:
  assumes c: "ctx_ok c"
  shows "length (uctx_bytes junk stk m c) = uctx_size" "uctx_mask (uctx_bytes junk stk m c) = m"
    "uctx_ctx (uctx_bytes junk stk m c) = c"
proof -
  let ?u = "uctx_bytes junk stk m c"
  show "length ?u = uctx_size" using c by (simp add: uctx_bytes_def uctx_size_def pad_def length_concat_enc64 ctx_ok_def)
  have "dec64 ?u 40 = unat m"
    using dec64_at[of "enc64 0 @ enc64 0 @ enc64 (ss_sp stk) @ enc32 (ss_flags stk) @ pad junk 28 4 @ enc64 (ss_size stk)" 40 "unat m"]
      unsigned_less[of m, where 'a = nat] by (simp add: uctx_bytes_def pad_def)
  then show "uctx_mask ?u = m" by (simp add: uctx_mask_def)
  let ?pre = "enc64 0 @ enc64 0 @ enc64 (ss_sp stk) @ enc32 (ss_flags stk) @ pad junk 28 4 @ enc64 (ss_size stk)
     @ enc64 (unat m) @ pad junk 48 128"
  have p: "dec64 ?u 176 = pc c"
    using dec64_at[of ?pre 176 "pc c"] c by (simp add: uctx_bytes_def pad_def ctx_ok_def)
  have g: "dec64 ?u (184 + 8 * j) = gpr c ! j" if "j < 31" for j
    using dec64_list[of j "gpr c" "?pre @ enc64 (pc c)" 184 "pad junk 432 528"] c that
    by (simp add: uctx_bytes_def pad_def ctx_ok_def)
  have "map (\<lambda>j. dec64 ?u (184 + 8 * j)) [0..<31] = gpr c"
    using c g by (intro nth_equalityI) (auto simp: ctx_ok_def)
  then show "uctx_ctx ?u = c" by (simp add: uctx_ctx_def p)
qed

text \<open>What \<open>sigReturn\<close> does when the stack holds a frame without a signal information block.\<close>

lemma sigReturn_frame:
  assumes k: "cur_task k = Some (t, x)" "procs k (t_proc x) = Some p" "\<not> hasInfo x" and c: "ctx_ok c"
    and s: "uctx_size \<le> s" "s < 2 ^ 64"
    and m: "copyin (xreg (ctx x) 2) 8 (vmar p, kheap k) = Some (enc64 s)"
      "copyin (s - uctx_size) uctx_size (vmar p, kheap k) = Some (uctx_bytes junk stk msk c)"
  shows "sigReturn k = Some (set_task t (\<lambda>x. x\<lparr>sigmask := msk, ctx := c\<rparr>) k, 0)"
proof -
  have d: "dec64 (enc64 s) 0 = s" using dec64_at[of "[]" 0 s "[]"] s by simp
  have a: "sub64 s uctx_size = s - uctx_size" by (rule sub64_in_range[OF s])
  show ?thesis using k m by (simp add: sigReturn_def stream_get_def Writer_get_def Let_def d a uctx_roundtrip[OF c])
qed

lemma set_task_cur:
  "cur_task k = Some (t, x) \<Longrightarrow> cur_task (set_task t f k) = Some (t, f x)"
  by (auto simp: cur_task_def set_task_def split: bind_splits)

lemma set_task_frame [simp]:
  "procs (set_task t f k) = procs k" "kheap (set_task t f k) = kheap k" "kfs (set_task t f k) = kfs k"
  "tasks (set_task t f k) t = map_option f (tasks k t)"
  by (simp_all add: set_task_def)


text \<open>An example: one page of identity mapped memory that holds the frame below address 8192.\<close>

definition ex_ctx :: Context where
  "ex_ctx = \<lparr>gpr = [1..<32], pc = 77\<rparr>"

definition ex_page :: "byte list" where
  "ex_page = replicate 3128 0 @ enc64 8192 @ uctx_bytes (\<lambda>_. 0) \<lparr>ss_sp = 0, ss_flags = 0, ss_size = 0\<rparr> 5 ex_ctx"

definition ex_heap :: vmheap where
  "ex_heap = undefined\<lparr>vh_pt := undefined\<lparr>pt_mem := \<lambda>_ _. 3\<rparr>, vh_phys := \<lambda>_. ex_page\<rparr>"

definition ex_task :: Task where
  "ex_task = undefined\<lparr>t_proc := 1, hasInfo := False, ctx := \<lparr>gpr = [0, 7224] @ replicate 14 0 @ [139] @ replicate 14 0, pc = 0\<rparr>\<rparr>"

definition ex_kernel :: Kernel where
  "ex_kernel = undefined\<lparr>kfs := undefined\<lparr>fs_sched := Scheduler_init\<lparr>curtask := Some 1\<rparr>\<rparr>, kheap := ex_heap,
     tasks := [1 \<mapsto> ex_task], procs := [1 \<mapsto> undefined]\<rparr>"

lemma ex_ctx_ok: "ctx_ok ex_ctx"
  by (simp add: ctx_ok_def ex_ctx_def)

lemma ex_copyin:
  assumes "ex_page = take i ex_page @ xs @ ys" "length (take i ex_page) = i" "i + length xs \<le> 4096" "n = length xs" and ne: "xs \<noteq> []"
  shows "copyin (4096 + i) n (v, ex_heap) = Some xs"
proof -
  have t: "trans 2 (\<lambda>_ _. 3) r (Suc 0) = Some (Suc 0)" for r
    by (subst trans.simps) (simp add: isValid_def isLeaf_def pte_ppn_def ensure_def bit_simps)
  have i: "i < 4096 \<or> xs = []" using assms(3) by (cases xs) auto
  have b: "phys_byte ex_heap (4096 + i + j) = Some (xs ! j)" if j: "j < length xs" for j
  proof -
    have "ex_page ! (i + j) = xs ! j" using assms(1,2) j by (metis nth_append_length_plus nth_append)
    moreover have "i + j < length ex_page" using assms(1,2) j by (metis add_less_cancel_left length_append trans_less_add1)
    moreover have "(4096 + i + j) div 4096 = 1" "(4096 + i + j) mod pageSize = i + j"
      using assms(3) j by (simp_all add: pageSize_def add.assoc div_add_self1)
    ultimately show ?thesis by (simp add: phys_byte_def rd_def ex_heap_def addr2pn_def addr2offset_def)
  qed
  have a: "VMAR_transaddr (4096 + i) (v, ex_heap) = Some (4096 + i)" if "i < 4096"
    using that t by (simp add: VMAR_transaddr_def transaddr_def PageTable_trans_def ex_heap_def addr2pn_def addr2offset_def
        pageSize_def pn2addr_def add64_def div_add_self1)
  show ?thesis using phys_read_eq[of xs ex_heap "4096 + i", OF b] a i assms(4) ne by (auto simp: copyin_def)
qed


subsection \<open>Masks\<close>

text \<open>C34: No call of \<open>sigProcMask\<close> can block the kill and stop signals: whatever the operation and the set,
  a call that succeeds with a set leaves both unblocked, and every other call keeps the mask.\<close>

theorem sigProcMask_unblockable:
  assumes "cur_task k = Some (t, x)" "sigProcMask how nset sz k = Some (k', oset, ret)"
  shows "\<exists>x'. tasks k' t = Some x' \<and>
     (if ret = 0 \<and> nset \<noteq> None then \<not> sigMaskBit (sigmask x') 8 \<and> \<not> sigMaskBit (sigmask x') 18 else sigmask x' = sigmask x)"
proof -
  have tx: "tasks k t = Some x" using assms(1) by (auto simp: cur_task_def split: bind_splits)
  show ?thesis using assms tx
    by (auto simp: sigProcMask_def new_mask_def EINVAL_def sigMaskBit_def unblockable_def bit_simps
        split: if_splits option.splits)
qed

theorem sigProcMask_unblockable_witness:
  "\<exists>k' oset x'. sigProcMask 2 (Some (- 1)) 8 ex_kernel = Some (k', oset, 0) \<and> tasks k' 1 = Some x'
     \<and> \<not> sigMaskBit (sigmask x') 8 \<and> \<not> sigMaskBit (sigmask x') 18"
proof -
  have c: "cur_task ex_kernel = Some (1, ex_task)" by (simp add: cur_task_def ex_kernel_def)
  then obtain k' oset where "sigProcMask 2 (Some (- 1)) 8 ex_kernel = Some (k', oset, 0)"
    by (simp add: sigProcMask_def new_mask_def)
  with sigProcMask_unblockable[OF c this] show ?thesis by auto
qed

subsection \<open>Termination\<close>

definition scheduled :: "nat \<Rightarrow> Scheduler \<Rightarrow> bool" where
  "scheduled t s \<longleftrightarrow> curtask s = Some t \<or> (\<exists>q \<in> set (ready s). t \<in> set q)"

lemma pick_keeps:
  "pick qs = Some (u, qs') \<Longrightarrow> q \<in> set qs \<Longrightarrow> t \<in> set q \<Longrightarrow> t = u \<or> (\<exists>q' \<in> set qs'. t \<in> set q')"
  by (induction qs arbitrary: qs' rule: pick.induct) fastforce+

lemma sched_add_keeps:
  "sched_add u s = Some s' \<Longrightarrow> objs s' = objs s \<and> curtask s' = curtask s"
  by (auto simp: sched_add_def split: if_splits bind_splits)

lemma sched_add_queues:
  assumes "sched_add t s = Some s'" "objs s t = Some ob" "sc_state ob \<noteq> Zombie" "sc_state ob \<noteq> Pending"
  shows "\<exists>q \<in> set (ready s'). t \<in> set q"
proof -
  obtain q where l: "sc_prior ob < length (ready s)" and r: "ready s' = (ready s)[sc_prior ob := q @ [t]]"
    using assms by (auto simp: sched_add_def rd_def wr_def split: if_splits bind_splits)
  have "q @ [t] \<in> set (ready s')" using set_update_memI[OF l] r by metis
  then show ?thesis by (intro bexI[of _ "q @ [t]"]) simp_all
qed

lemma wakeup_keeps:
  assumes "wakeup u s = Some s'" "objs s t = Some ob" "sc_state ob \<noteq> Pending"
  shows "objs s' t = Some ob" "curtask s' = curtask s"
  using assms sched_add_keeps by (auto simp: wakeup_def split: if_splits bind_splits dest!: sched_add_keeps)

lemma yield_scheduled:
  assumes "kernel_yield s = Some s'" "curtask s = Some t" "objs s t = Some ob" "sc_state ob \<noteq> Zombie" "sc_state ob \<noteq> Pending"
  shows "scheduled t s'"
proof -
  obtain s1 u qs where a: "sched_add t s = Some s1" "pick (ready s1) = Some (u, qs)" "s' = s1\<lparr>ready := qs, curtask := Some u\<rparr>"
    using assms(1,2) by (auto simp: kernel_yield_def schedule_def sched_next_def ensure_def split: bind_splits option.splits if_splits)
  obtain q where "q \<in> set (ready s1)" "t \<in> set q" using sched_add_queues[OF a(1) assms(3-5)] by blast
  then show ?thesis using pick_keeps[OF a(2)] a(3) by (auto simp: scheduled_def)
qed

text \<open>C30: A task that takes a kill signal makes its process a zombie with status 137, but the task itself is not
  taken from the scheduler: it is still the current task or in a ready queue, and will run again.\<close>

theorem sigkill_task_stays:
  assumes k: "cur_task k = Some (t, x)" "pick_signal x = Some 9"
    and o: "objs (fs_sched (kfs k)) t = Some ob" "sc_state ob \<noteq> Zombie" "sc_state ob \<noteq> Pending"
    and r: "sigHandler it rp junk sigret k = Some k'"
  shows "(\<exists>p'. procs k' (t_proc x) = Some p' \<and> p_state p' = Zombie \<and> p_exitstatus p' = 137) \<and> scheduled t (fs_sched (kfs k'))"
proof -
  let ?k = "set_task t (\<lambda>x. x\<lparr>sigpending := sigMaskBitSet (sigpending x) 8 False\<rparr>) k"
  have c: "curtask (fs_sched (kfs k)) = Some t" using k(1) by (auto simp: cur_task_def split: bind_splits)
  obtain p where p: "procs k (t_proc x) = Some p" using r k by (auto simp: sigHandler_def split: bind_splits)
  have e: "Process_exit it (t_proc x) 137 ?k = Some k'"
    using r k p set_task_cur[OF k(1)] by (simp add: sigHandler_def sigExitHandler_def cur_proc_def Let_def)
  then obtain u s1 s2 where s: "wakeup u (fs_sched (kfs k)) = Some s1" "kernel_yield s1 = Some s2"
    "k' = set_sched s2 (set_proc (t_proc x) (\<lambda>p. p\<lparr>p_state := Zombie, p_exitstatus := 137\<rparr>) ?k)"
    by (auto simp: Process_exit_def set_proc_def Let_def split: bind_splits)
  have "scheduled t s2"
    using yield_scheduled[OF s(2)] wakeup_keeps[OF s(1) o(1,3)] c o by simp
  then show ?thesis using s(3) p by (simp add: set_sched_def set_proc_def)
qed

definition kill_sched :: Scheduler where
  "kill_sched = Scheduler_init\<lparr>curtask := Some 1, pending := {2},
     objs := [1 \<mapsto> \<lparr>sc_prior = 0, sc_state = Running\<rparr>, 2 \<mapsto> \<lparr>sc_prior = 0, sc_state = Pending\<rparr>]\<rparr>"

definition kill_task :: Task where
  "kill_task = ex_task\<lparr>sigpending := 256, sigmask := 0\<rparr>"

definition kill_kernel :: Kernel where
  "kill_kernel = ex_kernel\<lparr>kfs := undefined\<lparr>fs_sched := kill_sched\<rparr>, tasks := [1 \<mapsto> kill_task],
     procs := [1 \<mapsto> undefined\<lparr>p_parent := 2\<rparr>, 2 \<mapsto> undefined\<lparr>p_tasks := [2]\<rparr>]\<rparr>"

lemma kill_pick: "pick_signal kill_task = Some 9"
proof -
  have "[1..<numSigs + 1] = 1 # 2 # 3 # 4 # 5 # 6 # 7 # 8 # 9 # [10..<65]"
    by (simp add: numSigs_def upt_conv_Cons)
  moreover have "bit (256 :: 64 word) n \<longleftrightarrow> n = 8" for n
    using bit_exp_iff[where 'a = "64 word", of 8 n] by auto
  ultimately show ?thesis by (simp add: pick_signal_def kill_task_def)
qed

theorem sigkill_task_stays_witness:
  "\<exists>k'. sigHandler id (\<lambda>_ _. []) (\<lambda>_. 0) 0 kill_kernel = Some k'
     \<and> (\<exists>p'. procs k' 1 = Some p' \<and> p_state p' = Zombie \<and> p_exitstatus p' = 137) \<and> scheduled 1 (fs_sched (kfs k'))"
proof -
  have c: "cur_task kill_kernel = Some (1, kill_task)" by (simp add: cur_task_def kill_kernel_def kill_sched_def)
  have o: "objs (fs_sched (kfs kill_kernel)) 1 = Some \<lparr>sc_prior = 0, sc_state = Running\<rparr>"
    by (simp add: kill_kernel_def kill_sched_def)
  have i: "t_proc kill_task = 1" by (simp add: kill_task_def ex_task_def)
  have "sigHandler id (\<lambda>_ _. []) (\<lambda>_. 0) 0 kill_kernel \<noteq> None"
    using c kill_pick i
    by (simp add: sigHandler_def sigExitHandler_def cur_proc_def set_task_cur Process_exit_def Let_def set_proc_def defaultTask_def)
      (simp add: kill_kernel_def kill_sched_def Scheduler_init_def maxPrior_def defaultTask_def wakeup_def sched_add_def cur_prior_def rd_def wr_def
        kernel_yield_def schedule_def sched_next_def ensure_def numeral_2_eq_2)
  then obtain k' where k': "sigHandler id (\<lambda>_ _. []) (\<lambda>_. 0) 0 kill_kernel = Some k'" by blast
  show ?thesis using sigkill_task_stays[OF c kill_pick o _ _ k'] k' i by simp
qed

end
