(* ===== verification/Syscalls.thy ===== *)
theory Syscalls
  imports Signal
begin

text \<open>
  The system calls on memory (\<open>kernel/syscall/mm.cc\<close>, without \<open>mmap\<close>) and on futexes
  (\<open>kernel/syscall/futex.cc\<close>, the version behind the system call).  A call that blocks returns the outcome
  \<open>Blocked\<close> with the state in which the next task runs; its result is then the one it has when woken.
\<close>

subsection \<open>Memory\<close>

definition sys_brk :: "reader \<Rightarrow> nat \<Rightarrow> Kernel \<Rightarrow> (Kernel \<times> nat) option" where
  "sys_brk rp addr k =
     do { (i, p) \<leftarrow> cur_proc k;
          (ret, p1, h) \<leftarrow> brk rp addr (p, kheap k);
          Some ((set_proc i (\<lambda>_. p1) k)\<lparr>kheap := h\<rparr>, ret) }"

definition page_range :: "nat \<Rightarrow> nat \<Rightarrow> Segment" where
  "page_range addr len = \<lparr>seg_l = addr2pn addr, seg_r = addr2pn (sub64 (add64 addr len) 1)\<rparr>"

definition sys_munmap :: "reader \<Rightarrow> nat \<Rightarrow> nat \<Rightarrow> Kernel \<Rightarrow> (Kernel \<times> int) option" where
  "sys_munmap rp addr len k =
     do { (i, _) \<leftarrow> cur_proc k;
          if addr2offset addr \<noteq> 0 then Some (k, - EINVAL)
          else do { k \<leftarrow> with_vmar i (VMAR_unmap rp (page_range addr len)) k; Some (k, 0) } }"

text \<open>The protection argument keeps its four low bits and whether it is zero as a whole.\<close>

definition prot_arg :: "int \<Rightarrow> 8 word" where
  "prot_arg prot = (word_of_int prot AND 15) OR (if prot = 0 then 0 else 16)"

definition sys_mprotect :: "reader \<Rightarrow> nat \<Rightarrow> nat \<Rightarrow> int \<Rightarrow> Kernel \<Rightarrow> (Kernel \<times> int) option" where
  "sys_mprotect rp addr len prot k =
     do { (i, _) \<leftarrow> cur_proc k;
          if addr2offset addr \<noteq> 0 then Some (k, - EINVAL)
          else do { k \<leftarrow> with_vmar i (VMAR_protect rp (page_range addr len) (prot2perm (prot_arg prot))) k; Some (k, 0) } }"

definition sys_mremap :: "reader \<Rightarrow> nat \<Rightarrow> nat \<Rightarrow> nat \<Rightarrow> Kernel \<Rightarrow> (Kernel \<times> int) option" where
  "sys_mremap rp oldaddr oldsize newsize k =
     do { (i, _) \<leftarrow> cur_proc k;
          if addr2offset oldaddr \<noteq> 0 then Some (k, - EINVAL)
          else do {
            let oldpages = bytes2pages oldsize;
            let newpages = bytes2pages newsize;
            if oldpages < newpages then Some (k, - ENOMEM)
            else do {
              let oldvpn = addr2pn oldaddr;
              k \<leftarrow> with_vmar i (VMAR_unmap rp \<lparr>seg_l = add64 oldvpn newpages, seg_r = sub64 (add64 oldvpn oldpages) 1\<rparr>) k;
              Some (k, int oldaddr) } } }"

subsection \<open>Futexes\<close>

definition EAGAIN :: int where "EAGAIN = 11"

fun notify_times :: "nat \<Rightarrow> condition_variable \<Rightarrow> Scheduler \<Rightarrow> (condition_variable \<times> Scheduler) option" where
  "notify_times 0 cv s = Some (cv, s)"
| "notify_times (Suc n) cv s = do { (cv, s) \<leftarrow> notify_one cv s; notify_times n cv s }"

definition load_int :: "nat \<Rightarrow> Kernel \<Rightarrow> int option" where
  "load_int a k = do { b \<leftarrow> phys_read (kheap k) a 4; Some (sint (word_of_nat (le32 b 0) :: 32 word)) }"

definition futex_cv :: "nat \<Rightarrow> Kernel \<Rightarrow> condition_variable" where
  "futex_cv a k = (case futexes k a of None \<Rightarrow> [] | Some cv \<Rightarrow> cv)"

definition set_futex :: "nat \<Rightarrow> condition_variable \<Rightarrow> Scheduler \<Rightarrow> Kernel \<Rightarrow> Kernel" where
  "set_futex a cv sc k = set_sched sc (k\<lparr>futexes := (futexes k)(a \<mapsto> cv)\<rparr>)"

definition futex_wait :: "nat \<Rightarrow> nat \<Rightarrow> int \<Rightarrow> nat \<Rightarrow> Kernel \<Rightarrow> (outcome \<times> Kernel \<times> int) option" where
  "futex_wait i a val timeout k =
     do { let cv = futex_cv a k;
          let k = k\<lparr>futexes := (futexes k)(a \<mapsto> cv)\<rparr>;
          v \<leftarrow> load_int a k;
          if v \<noteq> val then Some (Done, k, - EAGAIN)
          else if timeout \<noteq> 0 then do { _ \<leftarrow> get_user i timeout 16 k; Some (Done, k, 0) }
          else do { (cv, sc) \<leftarrow> cv_wait cv (fs_sched (kfs k)); Some (Blocked, set_futex a cv sc k, 0) } }"

definition futex_wake :: "nat \<Rightarrow> int \<Rightarrow> Kernel \<Rightarrow> (outcome \<times> Kernel \<times> int) option" where
  "futex_wake a val k =
     (case futexes k a of None \<Rightarrow> Some (Done, k, 0)
      | Some cv \<Rightarrow>
          if val = 2 ^ 31 - 1
          then do { (cv', sc) \<leftarrow> notify_all cv (fs_sched (kfs k)); Some (Done, set_futex a cv' sc k, int (waiters cv)) }
          else do { (cv', sc) \<leftarrow> notify_times (nat val) cv (fs_sched (kfs k)); Some (Done, set_futex a cv' sc k, val) })"

text \<open>The queue that the second address had is overwritten.\<close>

definition futex_requeue :: "nat \<Rightarrow> nat \<Rightarrow> nat \<Rightarrow> int \<Rightarrow> Kernel \<Rightarrow> (outcome \<times> Kernel \<times> int) option" where
  "futex_requeue i a uaddr2 val k =
     (if val = 2 ^ 31 - 1 then Some (Done, k\<lparr>futexes := (futexes k)(a \<mapsto> futex_cv a k)\<rparr>, - EINVAL)
      else do {
        (cv, sc) \<leftarrow> notify_times (nat val) (futex_cv a k) (fs_sched (kfs k));
        let k = set_futex a cv sc k;
        p \<leftarrow> procs k i;
        a2 \<leftarrow> VMAR_transaddr uaddr2 (vmar p, kheap k);
        Some (Done, k\<lparr>futexes := (futexes k)(a2 \<mapsto> cv, a := None)\<rparr>, val) })"

definition sys_futex :: "nat \<Rightarrow> int \<Rightarrow> int \<Rightarrow> nat \<Rightarrow> nat \<Rightarrow> int \<Rightarrow> Kernel \<Rightarrow> (outcome \<times> Kernel \<times> int) option" where
  "sys_futex uaddr op val timeout uaddr2 val3 k =
     do { (i, p) \<leftarrow> cur_proc k;
          a \<leftarrow> VMAR_transaddr uaddr (vmar p, kheap k);
          let cmd = op AND NOT 384;
          if cmd = 0 then futex_wait i a val timeout k
          else if cmd = 1 then futex_wake a val k
          else if cmd = 4
          then do { v \<leftarrow> load_int a k;
                    if v \<noteq> val3 then Some (Done, k, - EAGAIN) else futex_requeue i a uaddr2 val k }
          else if cmd = 3 then futex_requeue i a uaddr2 val k
          else Some (Done, k, - EINVAL) }"

end
