(* ===== verification/FileCalls.thy ===== *)
theory FileCalls
  imports Syscalls
begin

text \<open>
  The system calls on files: \<open>kernel/syscall/file.cc\<close>, with the virtual calls of inodes that only they
  reach (\<open>include/fs.hh\<close>, \<open>include/fat.hh\<close>, \<open>include/fs/ramfs.hh\<close>).

  A call acts on the process of the running task.  Strings are copied from the user with \<open>copyinstr\<close>,
  results go back with \<open>copyout\<close>; both are those of \<open>Vmar\<close>.  A call that blocks in a pipe ends with
  \<open>Blocked\<close> and goes on from the loop of the pipe when its task runs again.  What the calls print is left
  out.  The entries a call has looked up are released by \<open>DEntry_drop\<close> when nothing else refers to them.
  Every process has a working directory; a call of one without is not defined here.
\<close>

definition FAT32_MAX_PATH :: nat where "FAT32_MAX_PATH = 260"
definition O_CLOEXEC :: nat where "O_CLOEXEC = 0x80000"
definition ENOENT :: int where "ENOENT = 2"

definition s32 :: "nat \<Rightarrow> int" where
  "s32 n = sint (word_of_nat n :: 32 word)"

definition clear_bits :: "nat \<Rightarrow> nat \<Rightarrow> nat" where
  "clear_bits fl m = fl - (fl AND m)"

subsection \<open>Virtual calls\<close>

definition v_readDir :: "vfs \<Rightarrow> INodeRef \<Rightarrow> nat \<Rightarrow> nat \<Rightarrow> (vfs \<times> DStat list \<times> nat \<times> nat) option" where
  "v_readDir s n len aoff = (case n of
      FNode i \<Rightarrow> do { x \<leftarrow> rd (finodes s) i; (f, ds, o', r) \<leftarrow> readDir (vfat s) x len aoff; Some (s\<lparr>vfat := f\<rparr>, ds, o', r) }
    | RNode i \<Rightarrow> Some (s, [], aoff, 0))"

text \<open>The bytes written to the front of the buffer and the result.\<close>

definition v_readLink :: "ramenv \<Rightarrow> vfs \<Rightarrow> INodeRef \<Rightarrow> nat \<Rightarrow> (byte list \<times> int) option" where
  "v_readLink env s n sz = (case n of
      FNode i \<Rightarrow> Some ([], - EPERM)
    | RNode i \<Rightarrow> do { x \<leftarrow> rd (rnodes (vram s)) i; Some (ram_readLink env x sz) })"

definition v_chMod :: "INodeRef \<Rightarrow> nat \<Rightarrow> int" where
  "v_chMod n mode = (case n of FNode i \<Rightarrow> - EPERM | RNode i \<Rightarrow> - 1)"

definition v_chOwn :: "INodeRef \<Rightarrow> nat \<Rightarrow> nat \<Rightarrow> int" where
  "v_chOwn n owner grp = (case n of FNode i \<Rightarrow> - EPERM | RNode i \<Rightarrow> - 1)"

text \<open>The three members of the time that the device does not set come from the stack.\<close>

definition rtc_bytes :: "byte list \<Rightarrow> rtc_time \<Rightarrow> byte list" where
  "rtc_bytes junk t = concat (map enc32 [tm_sec t, tm_min t, tm_hour t, tm_mday t, tm_mon t, tm_year t]) @ junk"

definition v_ioctl :: "reader \<Rightarrow> byte list \<Rightarrow> nat \<Rightarrow> INodeRef \<Rightarrow> nat \<Rightarrow> nat \<Rightarrow> Kernel \<Rightarrow> (Kernel \<times> int) option" where
  "v_ioctl rp junk i n req arg k = (case n of
      FNode j \<Rightarrow> Some (k, - ENOTTY)
    | RNode j \<Rightarrow> do {
        x \<leftarrow> rd (rnodes (vram (fs_vfs (kfs k)))) j;
        if ri_kind x \<noteq> RTCFile then Some (k, - ENOTTY)
        else (case rtc_ioctl (fs_env (kfs k)) req of
            Inl e \<Rightarrow> Some (k, e)
          | Inr t \<Rightarrow> do { k \<leftarrow> put_user rp i arg (rtc_bytes junk t) k; Some (k, 0) }) })"

record StatFS =
  f_type :: nat
  f_bsize :: nat
  f_blocks :: nat
  f_bfree :: nat
  f_bavail :: nat
  f_files :: nat
  f_ffree :: nat
  f_fsid :: nat
  f_namelen :: nat

definition StatFS_of :: "vfs \<Rightarrow> FSRef \<Rightarrow> StatFS option" where
  "StatFS_of s f = (case f of
      FFS i \<Rightarrow> do {
        x \<leftarrow> rd (fatfss s) i; j \<leftarrow> fs_spblk x; sb \<leftarrow> rd (sblks (vfat s)) j;
        ensure (rSPC sb \<noteq> 0);
        let n = tot_sec (bpb sb);
        Some \<lparr>f_type = 0x4d44, f_bsize = rBPS sb, f_blocks = n, f_bfree = n, f_bavail = n, f_files = n div rSPC sb,
              f_ffree = n div rSPC sb, f_fsid = 0, f_namelen = FAT32_MAX_FILENAME\<rparr> }
    | RFS i \<Rightarrow> Some \<lparr>f_type = 0x19270810, f_bsize = 512, f_blocks = 0, f_bfree = 0, f_bavail = 0, f_files = 0x1000,
              f_ffree = 0, f_fsid = 0, f_namelen = 512\<rparr>)"

subsection \<open>Layout of the results\<close>

definition StatFS_bytes :: "StatFS \<Rightarrow> byte list" where
  "StatFS_bytes t = concat (map enc64 [f_type t, f_bsize t, f_blocks t, f_bfree t, f_bavail t, f_files t, f_ffree t,
     f_fsid t, f_namelen t])"

definition KStat_bytes :: "KStat \<Rightarrow> byte list" where
  "KStat_bytes t = enc64 (st_dev t) @ enc64 (st_ino t) @ enc32 (st_mode t) @ enc32 (st_nlink t) @ replicate 8 0 @
     enc64 (st_rdev t) @ replicate 8 0 @ enc64 (st_size t) @ enc32 (st_blksize t) @ replicate 4 0 @
     enc64 (st_blocks t) @ replicate 56 0"

text \<open>The padding behind the name is what the buffer held.\<close>

definition DStat_bytes :: "byte list \<Rightarrow> DStat \<Rightarrow> byte list" where
  "DStat_bytes hole t = enc64 (d_ino t) @ enc64 (nat (d_off t mod 2 ^ 64)) @ enc16 (d_reclen t) @ [word_of_nat (d_type t)] @
     d_name t @ hole"

subsection \<open>Descriptors\<close>

text \<open>A reference to a file goes; with the last one in a descriptor table the file does.\<close>

definition drop_file :: "nat option \<Rightarrow> Kernel \<Rightarrow> Kernel option" where
  "drop_file x k = (case x of None \<Rightarrow> Some k
    | Some f \<Rightarrow> if file_shared f k then Some k else do { s \<leftarrow> File_delete (kfs k) f; Some (k\<lparr>kfs := s\<rparr>) })"

definition set_files :: "nat \<Rightarrow> nat option list \<Rightarrow> Kernel \<Rightarrow> Kernel" where
  "set_files i tbl k = set_proc i (\<lambda>p. p\<lparr>p_files := tbl\<rparr>) k"

text \<open>\<open>files[fd] = f\<close> drops what the slot held.\<close>

definition assign_fd :: "nat \<Rightarrow> nat \<Rightarrow> nat \<Rightarrow> Kernel \<Rightarrow> Kernel option" where
  "assign_fd i fd f k =
     do { p \<leftarrow> procs k i;
          x \<leftarrow> rd (p_files p) fd;
          drop_file x (set_files i ((p_files p)[fd := Some f]) k) }"

definition set_flags :: "nat \<Rightarrow> (nat \<Rightarrow> nat) \<Rightarrow> Kernel \<Rightarrow> Kernel option" where
  "set_flags f g k =
     do { x \<leftarrow> rd (fs_files (kfs k)) f;
          Some (k\<lparr>kfs := (kfs k)\<lparr>fs_files := (fs_files (kfs k))[f := x\<lparr>fl_flags := g (fl_flags x)\<rparr>]\<rparr>\<rparr>) }"

definition alloc_fd :: "nat \<Rightarrow> nat \<Rightarrow> int \<Rightarrow> Kernel \<Rightarrow> (Kernel \<times> int) option" where
  "alloc_fd i f fd k =
     do { p \<leftarrow> procs k i; let (tbl, r) = fdAlloc (p_files p) f fd False; Some (set_files i tbl k, r) }"

definition sys_dup :: "int \<Rightarrow> Kernel \<Rightarrow> (Kernel \<times> int) option" where
  "sys_dup fd k =
     do { (i, p) \<leftarrow> cur_proc k;
          case ofile (p_files p) fd of None \<Rightarrow> Some (k, - EBADF) | Some f \<Rightarrow> alloc_fd i f 0 k }"

definition sys_dup3 :: "int \<Rightarrow> int \<Rightarrow> nat \<Rightarrow> Kernel \<Rightarrow> (Kernel \<times> int) option" where
  "sys_dup3 fd newfd fl k =
     (if fd = newfd then Some (k, - EINVAL)
      else do {
        (i, p) \<leftarrow> cur_proc k;
        case ofile (p_files p) fd of None \<Rightarrow> Some (k, - EBADF)
        | Some f \<Rightarrow>
            if fdOutRange newfd then Some (k, - EBADF)
            else do {
              k \<leftarrow> assign_fd i (nat newfd) f k;
              k \<leftarrow> set_flags f (\<lambda>x. clear_bits x O_CLOEXEC OR fl) k;
              Some (k, newfd) } })"

text \<open>The flags \<open>F_SETFL\<close> may change.\<close>

definition setfl_mask :: nat where
  "setfl_mask = O_APPEND OR 0x2000 OR 0x4000 OR 0x40000 OR 0x800"

definition sys_fCntl :: "int \<Rightarrow> int \<Rightarrow> nat \<Rightarrow> Kernel \<Rightarrow> (Kernel \<times> int) option" where
  "sys_fCntl fd cmd arg k =
     do { (i, p) \<leftarrow> cur_proc k;
          case ofile (p_files p) fd of None \<Rightarrow> Some (k, - EBADF)
          | Some f \<Rightarrow> do {
              x \<leftarrow> rd (fs_files (kfs k)) f;
              if cmd = 0 then alloc_fd i f (s32 arg) k
              else if cmd = 1 then Some (k, if fl_flags x AND O_CLOEXEC \<noteq> 0 then 1 else 0)
              else if cmd = 2
              then do { k \<leftarrow> set_flags f (\<lambda>y. if odd arg then y OR O_CLOEXEC else clear_bits y O_CLOEXEC) k; Some (k, 0) }
              else if cmd = 3 then Some (k, s32 (fl_flags x))
              else if cmd = 4
              then do { k \<leftarrow> set_flags f (\<lambda>y. clear_bits y setfl_mask OR (arg AND setfl_mask)) k; Some (k, 0) }
              else if cmd = 1030
              then do {
                (k, r) \<leftarrow> alloc_fd i f (s32 arg) k;
                k \<leftarrow> (if 0 \<le> r then set_flags f (\<lambda>y. clear_bits y O_CLOEXEC OR O_CLOEXEC) k else Some k);
                Some (k, r) }
              else Some (k, - EINVAL) } }"

text \<open>\<open>AT_FDCWD\<close> passes the test and is then an index in front of the table.\<close>

definition sys_close :: "int \<Rightarrow> Kernel \<Rightarrow> (Kernel \<times> int) option" where
  "sys_close fd k =
     do { (i, p) \<leftarrow> cur_proc k;
          case ofile (p_files p) fd of None \<Rightarrow> Some (k, - EBADF)
          | Some _ \<Rightarrow> do { ensure (0 \<le> fd); k \<leftarrow> clear_fd i (nat fd) k; Some (k, 0) } }"

text \<open>
  \<open>pipe2\<close>: an error of \<open>fdAlloc\<close> is handed out as a descriptor; the file it was for goes with the call.
  The address is an \<open>int\<close>.  The buffer and the flags are what the memory of the new objects holds.
\<close>

definition sys_pipe2 :: "reader \<Rightarrow> byte list \<Rightarrow> nat \<Rightarrow> nat \<Rightarrow> int \<Rightarrow> int \<Rightarrow> Kernel \<Rightarrow> (Kernel \<times> int) option" where
  "sys_pipe2 rp junkb junkr junkw fd fl k =
     do { (i, _) \<leftarrow> cur_proc k;
          let p = length (fs_pipes (kfs k));
          (s, r) \<leftarrow> new_pipe_file junkr ((kfs k)\<lparr>fs_pipes := fs_pipes (kfs k) @ [Pipe_init junkb]\<rparr>) p 1;
          (s, w) \<leftarrow> new_pipe_file junkw s p 2;
          (k, a) \<leftarrow> alloc_fd i r 0 (k\<lparr>kfs := s\<rparr>);
          (k, b) \<leftarrow> alloc_fd i w 0 k;
          k \<leftarrow> put_user rp i (nat (fd mod 2 ^ 64)) (enc32 (nat (a mod 2 ^ 32)) @ enc32 (nat (b mod 2 ^ 32))) k;
          k \<leftarrow> drop_file (Some w) k;
          k \<leftarrow> drop_file (Some r) k;
          Some (k, 0) }"

subsection \<open>Paths\<close>

definition set_vfs :: "vfs \<Rightarrow> Kernel \<Rightarrow> Kernel" where
  "set_vfs w k = k\<lparr>kfs := (kfs k)\<lparr>fs_vfs := w\<rparr>\<rparr>"

text \<open>
  \<open>Path(path, ofile(fd))\<close> for a descriptor that is open, and what is then done with the path.  The inner
  \<open>None\<close> of \<open>base_entry\<close> is a descriptor that is not open; a file that is no entry fails the assertion of
  \<open>getEntry\<close>.
\<close>

definition base_entry :: "int \<Rightarrow> Kernel \<Rightarrow> nat option option" where
  "base_entry fd k =
     do { (i, p) \<leftarrow> cur_proc k;
          case ofile (p_files p) fd of None \<Rightarrow> Some None
          | Some f \<Rightarrow> do { x \<leftarrow> rd (fs_files (kfs k)) f; e \<leftarrow> getEntry x; Some (Some e) } }"

definition user_path :: "nat \<Rightarrow> nat \<Rightarrow> Kernel \<Rightarrow> byte list option" where
  "user_path a n k = do { (i, _) \<leftarrow> cur_proc k; get_userstr i a n k }"

definition with_path :: "byte list \<Rightarrow> nat option \<Rightarrow> (nat \<Rightarrow> Path \<Rightarrow> vfs \<Rightarrow> (vfs \<times> 'a) option) \<Rightarrow> Kernel \<Rightarrow> (Kernel \<times> 'a) option" where
  "with_path nm b f k =
     do { (i, p) \<leftarrow> cur_proc k;
          c \<leftarrow> p_cwd p;
          (w, q) \<leftarrow> Path_new (fs_vfs (kfs k)) c nm b;
          (w, r) \<leftarrow> f c q w;
          Some (set_vfs w k, r) }"

definition at_path :: "int \<Rightarrow> byte list \<Rightarrow> (nat \<Rightarrow> Path \<Rightarrow> vfs \<Rightarrow> (vfs \<times> int) option) \<Rightarrow> Kernel \<Rightarrow> (Kernel \<times> int) option" where
  "at_path fd nm f k =
     do { b \<leftarrow> base_entry fd k; case b of None \<Rightarrow> Some (k, - EBADF) | Some e \<Rightarrow> with_path nm (Some e) f k }"

text \<open>\<open>Path(path, base).pathOpen(flags, mode)\<close> on the descriptor table of the process.\<close>

definition open_path :: "byte list \<Rightarrow> nat option \<Rightarrow> nat \<Rightarrow> nat \<Rightarrow> Kernel \<Rightarrow> (Kernel \<times> int) option" where
  "open_path nm b fl mode k =
     do { (i, p) \<leftarrow> cur_proc k;
          c \<leftarrow> p_cwd p;
          (w, q) \<leftarrow> Path_new (fs_vfs (kfs k)) c nm b;
          (s, tbl, fd) \<leftarrow> pathOpen ((kfs k)\<lparr>fs_vfs := w\<rparr>) (p_files p) c q fl mode;
          Some (set_files i tbl (k\<lparr>kfs := s\<rparr>), fd) }"

definition open_at :: "int \<Rightarrow> byte list \<Rightarrow> nat \<Rightarrow> nat \<Rightarrow> Kernel \<Rightarrow> (Kernel \<times> int) option" where
  "open_at fd nm fl mode k =
     do { b \<leftarrow> base_entry fd k; case b of None \<Rightarrow> Some (k, - EBADF) | Some e \<Rightarrow> open_path nm (Some e) fl mode k }"

definition close_own :: "int \<Rightarrow> Kernel \<Rightarrow> Kernel option" where
  "close_own fd k = do { (i, _) \<leftarrow> cur_proc k; clear_fd i (nat fd) k }"

subsection \<open>Calls on paths\<close>

definition sys_getCwd :: "reader \<Rightarrow> nat \<Rightarrow> nat \<Rightarrow> Kernel \<Rightarrow> (Kernel \<times> int) option" where
  "sys_getCwd rp a len k =
     (if a = 0 then Some (k, - 1)
      else do {
        (i, p) \<leftarrow> cur_proc k;
        (k, cwd) \<leftarrow> with_path [] (p_cwd p) (\<lambda>c q w. do { v \<leftarrow> pathAbsolute w q; Some (w, v) }) k;
        if len < length cwd + 1 then Some (k, 0)
        else do { k \<leftarrow> put_user rp i a (cwd @ [0]) k; Some (k, int a) } })"

definition sys_mkDirAt :: "int \<Rightarrow> nat \<Rightarrow> nat \<Rightarrow> Kernel \<Rightarrow> (Kernel \<times> int) option" where
  "sys_mkDirAt fd a mode k =
     (if a = 0 then Some (k, - EFAULT)
      else do {
        nm \<leftarrow> user_path a FAT32_MAX_PATH k;
        at_path fd nm (\<lambda>c q w. do { (w, _, e) \<leftarrow> pathCreate w c T_DIR 0 q; Some (w, if e = None then - 1 else 0) }) k })"

definition sys_unlinkAt :: "int \<Rightarrow> nat \<Rightarrow> nat \<Rightarrow> Kernel \<Rightarrow> (Kernel \<times> int) option" where
  "sys_unlinkAt fd a fl k =
     (if a = 0 then Some (k, - EFAULT)
      else do {
        nm \<leftarrow> user_path a FAT32_MAX_PATH k;
        at_path fd nm (\<lambda>c q w. do { (w, _, r) \<leftarrow> pathHardUnlink w c q; Some (w, r) }) k })"

definition sys_symLinkAt :: "nat \<Rightarrow> int \<Rightarrow> nat \<Rightarrow> Kernel \<Rightarrow> (Kernel \<times> int) option" where
  "sys_symLinkAt target fd a k =
     do { _ \<leftarrow> user_path target FAT32_MAX_PATH k;
          nm \<leftarrow> user_path a FAT32_MAX_PATH k;
          at_path fd nm (\<lambda>c q w. do { (w, _, r) \<leftarrow> pathSymLink w c q; Some (w, r) }) k }"

text \<open>Both descriptors are tested before either path is built.\<close>

definition sys_linkAt :: "int \<Rightarrow> nat \<Rightarrow> int \<Rightarrow> nat \<Rightarrow> nat \<Rightarrow> Kernel \<Rightarrow> (Kernel \<times> int) option" where
  "sys_linkAt ofd oa nfd na fl k =
     (if oa = 0 \<or> na = 0 then Some (k, - EFAULT)
      else do {
        onm \<leftarrow> user_path oa FAT32_MAX_PATH k;
        nnm \<leftarrow> user_path na FAT32_MAX_PATH k;
        (i, p) \<leftarrow> cur_proc k;
        if ofile (p_files p) ofd = None \<or> ofile (p_files p) nfd = None then Some (k, - EBADF)
        else do {
          ob \<leftarrow> base_entry ofd k;
          nb \<leftarrow> base_entry nfd k;
          with_path onm ob (\<lambda>c q w. do { (w, q') \<leftarrow> Path_new w c nnm nb; pathHardLink w c q q' }) k } })"

definition sys_umount2 :: "nat \<Rightarrow> nat \<Rightarrow> Kernel \<Rightarrow> (Kernel \<times> int) option" where
  "sys_umount2 a fl k =
     (if a = 0 then Some (k, - EFAULT)
      else do { nm \<leftarrow> user_path a FAT32_MAX_PATH k; with_path nm None (\<lambda>c q w. pathUnmount w q) k })"

definition sys_mount :: "nat \<Rightarrow> nat \<Rightarrow> nat \<Rightarrow> Kernel \<Rightarrow> (Kernel \<times> int) option" where
  "sys_mount da ma ta k =
     (if da = 0 \<or> ma = 0 \<or> ta = 0 then Some (k, - EFAULT)
      else do {
        dnm \<leftarrow> user_path da FAT32_MAX_PATH k;
        mnm \<leftarrow> user_path ma FAT32_MAX_PATH k;
        fstype \<leftarrow> user_path ta FAT32_MAX_PATH k;
        with_path mnm None (\<lambda>c q w. do { (w, q') \<leftarrow> Path_new w c dnm None; pathMount w c q q' fstype }) k })"

text \<open>The entry a path leads to.\<close>

definition search_at :: "byte list \<Rightarrow> nat option \<Rightarrow> Kernel \<Rightarrow> (Kernel \<times> nat option) option" where
  "search_at nm b k = with_path nm b (\<lambda>c q w. do { (w, _, e) \<leftarrow> pathSearch w c False q; Some (w, e) }) k"

definition sys_statFS :: "reader \<Rightarrow> nat \<Rightarrow> nat \<Rightarrow> Kernel \<Rightarrow> (Kernel \<times> int) option" where
  "sys_statFS rp a buf k =
     do { (i, _) \<leftarrow> cur_proc k;
          nm \<leftarrow> user_path a FAT32_MAX_PATH k;
          (k, r) \<leftarrow> search_at nm None k;
          case r of None \<Rightarrow> Some (k, - 1)
          | Some e \<Rightarrow> do {
              x \<leftarrow> rd (dents (fs_vfs (kfs k))) e;
              f \<leftarrow> v_getFS (fs_vfs (kfs k)) (nod x);
              t \<leftarrow> StatFS_of (fs_vfs (kfs k)) f;
              k \<leftarrow> put_user rp i buf (StatFS_bytes t) k;
              Some (k, 0) } }"

text \<open>
  The comparison with \<open>Err(EISDIR)\<close> compares a number with an error result; a result that holds no value
  differs from every number, so that every negative descriptor is returned.
\<close>

definition access_flags :: "nat \<Rightarrow> nat option" where
  "access_flags mode =
     (if mode AND 5 \<noteq> 0 \<and> mode AND 2 \<noteq> 0 then Some O_RDWR
      else if mode AND 2 \<noteq> 0 then Some O_WRONLY
      else if mode AND 5 \<noteq> 0 then Some 0
      else None)"

definition sys_fAccessAt :: "int \<Rightarrow> nat \<Rightarrow> nat \<Rightarrow> nat \<Rightarrow> Kernel \<Rightarrow> (Kernel \<times> int) option" where
  "sys_fAccessAt fd a mode fl k =
     (if a = 0 then Some (k, - EFAULT)
      else (case access_flags mode of None \<Rightarrow> Some (k, - EINVAL)
      | Some g \<Rightarrow> do {
          nm \<leftarrow> user_path a FAT32_MAX_PATH k;
          (k, r) \<leftarrow> open_at fd nm (g OR fl) S_IFREG k;
          if r < 0 then Some (k, r)
          else do { k \<leftarrow> close_own r k; Some (k, 0) } }))"

definition sys_chDir :: "nat \<Rightarrow> Kernel \<Rightarrow> (Kernel \<times> int) option" where
  "sys_chDir a k =
     (if a = 0 then Some (k, - EFAULT)
      else do {
        (i, _) \<leftarrow> cur_proc k;
        nm \<leftarrow> user_path a FAT32_MAX_PATH k;
        (k, r) \<leftarrow> search_at nm None k;
        case r of None \<Rightarrow> Some (k, - 1)
        | Some e \<Rightarrow> do {
            dir \<leftarrow> is_dir (fs_vfs (kfs k)) e;
            if \<not> dir then Some (k, - 1)
            else do {
              let k = set_proc i (\<lambda>p. p\<lparr>p_cwd := Some e\<rparr>) k;
              (s, f) \<leftarrow> new_entry_file (kfs k) e O_RDWR;
              k \<leftarrow> assign_fd i (nat FdCwd) f (k\<lparr>kfs := s\<rparr>);
              Some (k, 0) } } })"

definition sys_fChDir :: "int \<Rightarrow> Kernel \<Rightarrow> (Kernel \<times> int) option" where
  "sys_fChDir fd k =
     do { (i, p) \<leftarrow> cur_proc k;
          case ofile (p_files p) fd of None \<Rightarrow> Some (k, - EBADF)
          | Some f \<Rightarrow> do {
              x \<leftarrow> rd (fs_files (kfs k)) f;
              e \<leftarrow> getEntry x;
              dir \<leftarrow> is_dir (fs_vfs (kfs k)) e;
              if \<not> dir then Some (k, - ENOTDIR)
              else do {
                k \<leftarrow> assign_fd i (nat FdCwd) f (set_proc i (\<lambda>p. p\<lparr>p_cwd := Some e\<rparr>) k);
                Some (k, 0) } } }"

text \<open>The inode behind a file that is an entry.\<close>

definition file_inode :: "nat \<Rightarrow> Kernel \<Rightarrow> INodeRef option" where
  "file_inode f k =
     do { x \<leftarrow> rd (fs_files (kfs k)) f; e \<leftarrow> getEntry x; y \<leftarrow> rd (dents (fs_vfs (kfs k))) e; Some (nod y) }"

definition fd_inode :: "int \<Rightarrow> Kernel \<Rightarrow> INodeRef option" where
  "fd_inode fd k = do { (i, p) \<leftarrow> cur_proc k; f \<leftarrow> ofile (p_files p) fd; file_inode f k }"

definition on_fd :: "int \<Rightarrow> (INodeRef \<Rightarrow> int) \<Rightarrow> Kernel \<Rightarrow> (Kernel \<times> int) option" where
  "on_fd fd g k =
     do { (i, p) \<leftarrow> cur_proc k;
          if ofile (p_files p) fd = None then Some (k, - EBADF)
          else do { n \<leftarrow> fd_inode fd k; Some (k, g n) } }"

definition on_opened :: "int \<Rightarrow> nat \<Rightarrow> nat \<Rightarrow> (INodeRef \<Rightarrow> int) \<Rightarrow> Kernel \<Rightarrow> (Kernel \<times> int) option" where
  "on_opened fd a fl g k =
     do { nm \<leftarrow> user_path a FAT32_MAX_FILENAME k;
          (k, r) \<leftarrow> open_at fd nm fl S_IFREG k;
          if r < 0 then Some (k, r)
          else do { n \<leftarrow> fd_inode r k; k \<leftarrow> close_own r k; Some (k, g n) } }"

definition sys_fChMod :: "int \<Rightarrow> nat \<Rightarrow> Kernel \<Rightarrow> (Kernel \<times> int) option" where
  "sys_fChMod fd mode k = on_fd fd (\<lambda>n. v_chMod n mode) k"

definition sys_fChModAt :: "int \<Rightarrow> nat \<Rightarrow> nat \<Rightarrow> nat \<Rightarrow> Kernel \<Rightarrow> (Kernel \<times> int) option" where
  "sys_fChModAt fd a mode fl k = on_opened fd a fl (\<lambda>n. v_chMod n mode) k"

definition sys_fChOwnAt :: "int \<Rightarrow> nat \<Rightarrow> nat \<Rightarrow> nat \<Rightarrow> nat \<Rightarrow> Kernel \<Rightarrow> (Kernel \<times> int) option" where
  "sys_fChOwnAt fd a uid gid fl k = on_opened fd a fl (\<lambda>n. v_chOwn n uid gid) k"

definition sys_fChOwn :: "int \<Rightarrow> nat \<Rightarrow> nat \<Rightarrow> Kernel \<Rightarrow> (Kernel \<times> int) option" where
  "sys_fChOwn fd uid gid k = on_fd fd (\<lambda>n. v_chOwn n uid gid) k"

definition sys_openAt :: "int \<Rightarrow> nat \<Rightarrow> nat \<Rightarrow> nat \<Rightarrow> Kernel \<Rightarrow> (Kernel \<times> int) option" where
  "sys_openAt fd a fl mode k =
     (if a = 0 then Some (k, - EFAULT)
      else do { nm \<leftarrow> user_path a FAT32_MAX_PATH k; open_at fd nm fl mode k })"

text \<open>
  The buffer has the size the user gives and all of it is copied out, whatever the link filled: \<open>junk\<close> is
  what the heap held.  There is no test of the descriptor; none means the working directory.
\<close>

definition sys_readLinkAt :: "reader \<Rightarrow> (nat \<Rightarrow> byte list) \<Rightarrow> int \<Rightarrow> nat \<Rightarrow> nat \<Rightarrow> nat \<Rightarrow> Kernel \<Rightarrow> (Kernel \<times> int) option" where
  "sys_readLinkAt rp junk fd a buf sz k =
     do { (i, _) \<leftarrow> cur_proc k;
          nm \<leftarrow> user_path a FAT32_MAX_PATH k;
          b \<leftarrow> base_entry fd k;
          (k, r) \<leftarrow> open_path nm b 0 S_IFREG k;
          if r < 0 then Some (k, r)
          else do {
            n \<leftarrow> fd_inode r k;
            (v, ret) \<leftarrow> v_readLink (fs_env (kfs k)) (fs_vfs (kfs k)) n sz;
            k \<leftarrow> close_own r k;
            k \<leftarrow> put_user rp i buf (patch (junk sz) 0 v) k;
            Some (k, ret) } }"

definition sys_fStatAt :: "reader \<Rightarrow> int \<Rightarrow> nat \<Rightarrow> nat \<Rightarrow> nat \<Rightarrow> Kernel \<Rightarrow> (Kernel \<times> int) option" where
  "sys_fStatAt rp fd a ks fl k =
     (if ks = 0 \<or> a = 0 then Some (k, - EFAULT)
      else do {
        (i, _) \<leftarrow> cur_proc k;
        nm \<leftarrow> user_path a FAT32_MAX_PATH k;
        b \<leftarrow> base_entry fd k;
        case b of None \<Rightarrow> Some (k, - EBADF)
        | Some e \<Rightarrow> do {
            (k, r) \<leftarrow> search_at nm (Some e) k;
            case r of None \<Rightarrow> Some (k, - ENOENT)
            | Some e \<Rightarrow> do {
                t \<leftarrow> KStat_entry (fs_vfs (kfs k)) e;
                k \<leftarrow> put_user rp i ks (KStat_bytes t) k;
                Some (k, 0) } } })"

subsection \<open>Calls on open files\<close>

definition sys_fStat :: "reader \<Rightarrow> int \<Rightarrow> nat \<Rightarrow> Kernel \<Rightarrow> (Kernel \<times> int) option" where
  "sys_fStat rp fd ks k =
     (if ks = 0 then Some (k, - EFAULT)
      else do {
        (i, p) \<leftarrow> cur_proc k;
        case ofile (p_files p) fd of None \<Rightarrow> Some (k, - EBADF)
        | Some f \<Rightarrow> do {
            x \<leftarrow> rd (fs_files (kfs k)) f;
            k \<leftarrow> put_user rp i ks (KStat_bytes (kst x)) k;
            Some (k, 0) } })"

text \<open>The request is cut to 32 bits; a descriptor that is not open is a null dereference.\<close>

definition sys_ioCtl :: "reader \<Rightarrow> byte list \<Rightarrow> int \<Rightarrow> nat \<Rightarrow> nat \<Rightarrow> Kernel \<Rightarrow> (Kernel \<times> int) option" where
  "sys_ioCtl rp junk fd req arg k =
     do { (i, p) \<leftarrow> cur_proc k;
          f \<leftarrow> ofile (p_files p) fd;
          x \<leftarrow> rd (fs_files (kfs k)) f;
          if st_mode (kst x) AND S_IFMT \<noteq> S_IFCHR then Some (k, - ENOTTY)
          else do { n \<leftarrow> file_inode f k; v_ioctl rp junk i n (u32 req) arg k } }"

text \<open>\<open>readDir\<close> works on the low half of the offset; directories keep the other half zero.\<close>

definition sys_getDents64 :: "reader \<Rightarrow> (nat \<Rightarrow> byte list) \<Rightarrow> int \<Rightarrow> nat \<Rightarrow> nat \<Rightarrow> Kernel \<Rightarrow> (Kernel \<times> int) option" where
  "sys_getDents64 rp hole fd buf len k =
     (if buf = 0 then Some (k, - EFAULT)
      else do {
        (i, p) \<leftarrow> cur_proc k;
        case ofile (p_files p) fd of None \<Rightarrow> Some (k, - EBADF)
        | Some f \<Rightarrow> do {
            x \<leftarrow> rd (fs_files (kfs k)) f;
            case obj x of
              OEntry ks e o' \<Rightarrow> do {
                y \<leftarrow> rd (dents (fs_vfs (kfs k))) e;
                (w, ds, o'', r) \<leftarrow> v_readDir (fs_vfs (kfs k)) (nod y) (u32 (len div DStat_size)) (nat (o' mod 2 ^ 32));
                let s = (kfs k)\<lparr>fs_vfs := w,
                          fs_files := (fs_files (kfs k))[f := x\<lparr>obj := OEntry ks e (o' - o' mod 2 ^ 32 + int o'')\<rparr>]\<rparr>;
                let v = concat (map2 DStat_bytes (map hole [0..<length ds]) ds);
                k \<leftarrow> (if 0 < r then put_user rp i buf v (k\<lparr>kfs := s\<rparr>) else Some (k\<lparr>kfs := s\<rparr>));
                Some (k, int r) }
            | _ \<Rightarrow> Some (k, - EINVAL) } })"

definition sys_lSeek :: "int \<Rightarrow> int \<Rightarrow> int \<Rightarrow> Kernel \<Rightarrow> (Kernel \<times> int) option" where
  "sys_lSeek fd a whence k =
     do { (i, p) \<leftarrow> cur_proc k;
          case ofile (p_files p) fd of None \<Rightarrow> Some (k, - EBADF)
          | Some f \<Rightarrow> do {
              (r, s) \<leftarrow> File_lSeek (kfs k) f a (if whence < 0 then 3 else nat whence);
              Some (k\<lparr>kfs := s\<rparr>, r) } }"

text \<open>A file that may not be read gives \<open>-1\<close>, which then is the length of the buffer that is copied out.\<close>

definition sys_read :: "reader \<Rightarrow> int \<Rightarrow> nat \<Rightarrow> nat \<Rightarrow> Kernel \<Rightarrow> (outcome \<times> Kernel \<times> int) option" where
  "sys_read rp fd uva len k =
     do { (i, p) \<leftarrow> cur_proc k;
          case ofile (p_files p) fd of None \<Rightarrow> Some (Done, k, - EBADF)
          | Some f \<Rightarrow> do {
              (oc, v, r, s) \<leftarrow> File_read (kfs k) f len None True;
              let k = k\<lparr>kfs := s\<rparr>;
              if oc = Blocked then Some (Blocked, k, 0)
              else do {
                ensure (0 \<le> r);
                k \<leftarrow> put_user rp i uva (take (nat r) v) k;
                Some (Done, k, r) } } }"

definition sys_write :: "int \<Rightarrow> nat \<Rightarrow> nat \<Rightarrow> Kernel \<Rightarrow> (outcome \<times> Kernel \<times> int) option" where
  "sys_write fd src len k =
     (if src = 0 then Some (Done, k, - EFAULT)
      else do {
        (i, p) \<leftarrow> cur_proc k;
        case ofile (p_files p) fd of None \<Rightarrow> Some (Done, k, - EBADF)
        | Some f \<Rightarrow> do {
            v \<leftarrow> get_user i src len k;
            (oc, r, s) \<leftarrow> File_write (kfs k) f v;
            Some (oc, k\<lparr>kfs := s\<rparr>, r) } })"

definition s64 :: "byte list \<Rightarrow> int" where
  "s64 b = sint (word_of_nat (le32 b 0 + 2 ^ 32 * le32 b 4) :: 64 word)"

definition sys_sendFile :: "reader \<Rightarrow> int \<Rightarrow> int \<Rightarrow> nat \<Rightarrow> nat \<Rightarrow> Kernel \<Rightarrow> (outcome \<times> Kernel \<times> int) option" where
  "sys_sendFile rp outfd infd aoff len k =
     do { (i, p) \<leftarrow> cur_proc k;
          case (ofile (p_files p) outfd, ofile (p_files p) infd) of
            (Some o', Some f) \<Rightarrow>
              if aoff \<noteq> 0
              then do {
                b \<leftarrow> get_user i aoff 8 k;
                (oc, r, off, s) \<leftarrow> File_sendFile (kfs k) f o' (Some (s64 b)) len;
                let k = k\<lparr>kfs := s\<rparr>;
                if oc = Blocked then Some (Blocked, k, r)
                else do { v \<leftarrow> off; k \<leftarrow> put_user rp i aoff (enc64 (nat (v mod 2 ^ 64))) k; Some (Done, k, r) } }
              else do { (oc, r, _, s) \<leftarrow> File_sendFile (kfs k) f o' None len; Some (oc, k\<lparr>kfs := s\<rparr>, r) }
          | _ \<Rightarrow> Some (Done, k, - EBADF) }"

definition sys_sync :: "Kernel \<Rightarrow> Kernel \<times> int" where
  "sys_sync k = (k, 0)"

end
