(* ===== verification/FileCallsSpec.thy ===== *)
theory FileCallsSpec
  imports FileCalls ProcSpec PipeSpec
begin

text \<open>
  The system calls on files together with the layers under them: user memory, descriptors, open files,
  pipes and the file systems.
\<close>

subsection \<open>Generic facts\<close>

lemma phys_read_length: "phys_read h a n = Some b \<Longrightarrow> length b = n"
  by (induction h a n arbitrary: b rule: phys_read.induct) (auto simp: bind_eq_Some_iff)

lemma get_user_length: "get_user i a n k = Some b \<Longrightarrow> length b = n"
  by (auto simp: get_user_def copyin_def bind_eq_Some_iff dest: phys_read_length)

lemma cur_proc_kfs [simp]: "fs_sched s = fs_sched (kfs k) \<Longrightarrow> cur_proc (k\<lparr>kfs := s\<rparr>) = cur_proc k"
  by (simp add: cur_proc_def cur_task_def)

lemma patch_length: "i + length v \<le> length b \<Longrightarrow> length (patch b i v) = length b"
  by (simp add: patch_def)

lemma text_patch_read: "i \<le> length b \<Longrightarrow> take (length v) (drop i (patch b i v)) = v"
  by (simp add: patch_def)

lemma u32_small: "n < 2 ^ 32 \<Longrightarrow> u32 n = n"
  by (simp add: u32_def)

subsection \<open>An example state\<close>

text \<open>
  One process with one task; its memory is mapped one to one by a leaf in the root table and holds sevens.  The
  tree has a directory and in it a plain file of three bytes in memory.
\<close>

definition ex_heap :: vmheap where
  "ex_heap = undefined\<lparr>vh_pt := undefined\<lparr>pt_mem := (\<lambda>_ _. 3)\<rparr>, vh_phys := (\<lambda>_. replicate 4096 7), vh_vmos := [0 \<mapsto> VMOContiguous 0 16]\<rparr>"

definition ex_vmar :: VMAR where
  "ex_vmar = undefined\<lparr>va_root := 0, va_mappings := [\<lparr>mp_vpn = 0, mp_len = 16, mp_offset = 0, mp_vmo = 0, mp_perm = 7,
     mp_mapping = Manon, mp_sharing = Privt\<rparr>]\<rparr>"

definition ex_vfs :: vfs where
  "ex_vfs = undefined\<lparr>dents := [
       \<lparr>de_parent = None, nod = RNode 0, de_name = [], subs = [], isMount = False, alive = True\<rparr>,
       \<lparr>de_parent = Some 0, nod = RNode 1, de_name = [], subs = [], isMount = False, alive = True\<rparr>],
     vram := \<lparr>rnodes = [
       \<lparr>ri_super = 0, ri_ino = 1, isDir = True, ri_bytes = [], ri_subs = [], ri_kind = Plain\<rparr>,
       \<lparr>ri_super = 0, ri_ino = 2, isDir = False, ri_bytes = [1, 2, 3], ri_subs = [], ri_kind = Plain\<rparr>], rsupers = []\<rparr>\<rparr>"

definition ex_kernel :: "File list \<Rightarrow> Pipe list \<Rightarrow> nat option list \<Rightarrow> Kernel" where
  "ex_kernel files pipes tbl = undefined\<lparr>
     kfs := undefined\<lparr>fs_vfs := ex_vfs, fs_files := files, fs_pipes := pipes, fs_sched := undefined\<lparr>curtask := Some 1\<rparr>\<rparr>,
     kheap := ex_heap, procIds := 1, procs := [1 \<mapsto> undefined\<lparr>p_files := tbl, p_cwd := Some 0, vmar := ex_vmar\<rparr>],
     tasks := [1 \<mapsto> undefined\<lparr>t_proc := 1\<rparr>]\<rparr>"

lemma ex_kernel_cur: "cur_proc (ex_kernel fs ps tbl) = Some (1, undefined\<lparr>p_files := tbl, p_cwd := Some 0, vmar := ex_vmar\<rparr>)"
  by (simp add: ex_kernel_def cur_proc_def cur_task_def)

lemma ex_kernel_mem: "get_user 1 4096 2 (ex_kernel fs ps tbl) = Some [7, 7]"
  by (simp add: ex_kernel_def get_user_def copyin_def VMAR_transaddr_def transaddr_def PageTable_trans_def trans.simps ex_heap_def
    ex_vmar_def isValid_def isLeaf_def pte_ppn_def addr2pn_def pn2addr_def addr2offset_def pageSize_def add64_def phys_byte_def
    rd_def numeral_2_eq_2)

definition ex_table :: "nat option list" where
  "ex_table = [None, None, None, None, Some 0, Some 1] @ replicate 95 None"

lemma ex_table_nth: "length ex_table = mOFiles" "ofile ex_table 4 = Some 0" "ofile ex_table 5 = Some 1"
  by (simp_all add: ex_table_def mOFiles_def ofile_def AT_FDCWD_def fdOutRange_def)

definition ex_file :: "bool \<Rightarrow> bool \<Rightarrow> FileObj \<Rightarrow> File" where
  "ex_file r w ob = \<lparr>op_r = r, op_w = w, op_a = False, fl_flags = 0, obj = ob\<rparr>"

lemmas ex_defs = ex_kernel_def ex_vfs_def ex_file_def rd_def

subsection \<open>Writing, seeking back and reading\<close>

lemma ram_write_plain:
  assumes "rd (rnodes r) n = Some nd" "ri_kind nd = Plain" "\<not> isDir nd" "o' \<le> length (ri_bytes nd)" "o' + length v < 2 ^ 32"
  shows "\<exists>b. ram_nodWrite r n o' v = Some (r\<lparr>rnodes := (rnodes r)[n := nd\<lparr>ri_bytes := b\<rparr>]\<rparr>, int (length v))
    \<and> o' + length v \<le> length b \<and> length b \<le> max (length (ri_bytes nd)) (o' + length v) \<and> take (length v) (drop o' b) = v"
proof -
  let ?b = "if length (ri_bytes nd) < o' + length v
            then ri_bytes nd @ replicate (o' + length v - length (ri_bytes nd)) 0 else ri_bytes nd"
  have l: "o' + length v \<le> length ?b" "length ?b \<le> max (length (ri_bytes nd)) (o' + length v)" by auto
  have "ram_nodWrite r n o' v = Some (r\<lparr>rnodes := (rnodes r)[n := nd\<lparr>ri_bytes := patch ?b o' v\<rparr>]\<rparr>, int (length v))"
    using assms l(1) by (simp add: ram_nodWrite_def set_node_def u32_small Let_def)
  then show ?thesis using l by (intro exI[of _ "patch ?b o' v"]) (auto simp: patch_length text_patch_read)
qed

text \<open>A descriptor of the running process that is open on a plain file in memory, at an offset inside the file.\<close>

definition on_plain :: "Kernel \<Rightarrow> int \<Rightarrow> nat \<Rightarrow> nat \<Rightarrow> File \<Rightarrow> KStat \<Rightarrow> nat \<Rightarrow> nat \<Rightarrow> RamINode \<Rightarrow> nat \<Rightarrow> bool" where
  "on_plain k fd i f x ks e n nd o' \<longleftrightarrow>
     (\<exists>p d. cur_proc k = Some (i, p) \<and> ofile (p_files p) fd = Some f \<and> rd (fs_files (kfs k)) f = Some x
       \<and> obj x = OEntry ks e (int o') \<and> st_mode ks AND S_IFMT = S_IFREG
       \<and> rd (dents (fs_vfs (kfs k))) e = Some d \<and> nod d = RNode n
       \<and> rd (rnodes (vram (fs_vfs (kfs k)))) n = Some nd \<and> ri_kind nd = Plain \<and> \<not> isDir nd
       \<and> o' \<le> length (ri_bytes nd) \<and> length (ri_bytes nd) < 2 ^ 32)"

definition with_file :: "Kernel \<Rightarrow> nat \<Rightarrow> File \<Rightarrow> Kernel" where
  "with_file k f x = k\<lparr>kfs := (kfs k)\<lparr>fs_files := (fs_files (kfs k))[f := x]\<rparr>\<rparr>"

definition with_node :: "Kernel \<Rightarrow> nat \<Rightarrow> RamINode \<Rightarrow> Kernel" where
  "with_node k n nd = set_vfs ((fs_vfs (kfs k))\<lparr>vram := (vram (fs_vfs (kfs k)))\<lparr>rnodes := (rnodes (vram (fs_vfs (kfs k))))[n := nd]\<rparr>\<rparr>) k"

lemma on_plain_step:
  assumes "on_plain k fd i f x ks e n nd o'" "o'' \<le> length b" "length b < 2 ^ 32"
  shows "on_plain (with_file (with_node k n (nd\<lparr>ri_bytes := b\<rparr>)) f (x\<lparr>obj := OEntry ks e (int o'')\<rparr>)) fd i f
           (x\<lparr>obj := OEntry ks e (int o'')\<rparr>) ks e n (nd\<lparr>ri_bytes := b\<rparr>) o''"
  using assms by (auto simp: on_plain_def with_file_def with_node_def set_vfs_def rd_eq_Some_iff)

lemma sys_write_plain:
  assumes "on_plain k fd i f x ks e n nd o'" "op_w x" "src \<noteq> 0" "get_user i src len k = Some v" "o' + len < 2 ^ 32"
  shows "\<exists>b. sys_write fd src len k
      = Some (Done, with_file (with_node k n (nd\<lparr>ri_bytes := b\<rparr>)) f (x\<lparr>obj := OEntry ks e (int (o' + len))\<rparr>), int len)
    \<and> o' + len \<le> length b \<and> length b < 2 ^ 32 \<and> take len (drop o' b) = v"
proof -
  have len: "length v = len" using get_user_length[OF assms(4)] .
  obtain p d where p: "cur_proc k = Some (i, p)" "ofile (p_files p) fd = Some f" "rd (fs_files (kfs k)) f = Some x"
    "obj x = OEntry ks e (int o')" "rd (dents (fs_vfs (kfs k))) e = Some d" "nod d = RNode n"
    "rd (rnodes (vram (fs_vfs (kfs k)))) n = Some nd" "ri_kind nd = Plain" "\<not> isDir nd" "o' \<le> length (ri_bytes nd)"
    "length (ri_bytes nd) < 2 ^ 32"
    using assms(1) by (auto simp: on_plain_def)
  obtain b where b: "ram_nodWrite (vram (fs_vfs (kfs k))) n o' v
      = Some ((vram (fs_vfs (kfs k)))\<lparr>rnodes := (rnodes (vram (fs_vfs (kfs k))))[n := nd\<lparr>ri_bytes := b\<rparr>]\<rparr>, int (length v))"
    "o' + length v \<le> length b" "length b \<le> max (length (ri_bytes nd)) (o' + length v)" "take (length v) (drop o' b) = v"
    using ram_write_plain[OF p(7-10)] assms(5) len by blast
  have "nat (int o' mod 2 ^ 32) = o'" using assms(5) by simp
  then have "sys_write fd src len k
      = Some (Done, with_file (with_node k n (nd\<lparr>ri_bytes := b\<rparr>)) f (x\<lparr>obj := OEntry ks e (int (o' + len))\<rparr>), int len)"
    using p b(1) assms(2-4) len
    by (simp add: sys_write_def File_write_def v_nodWrite_def with_file_def with_node_def set_vfs_def)
  then show ?thesis using b p(11) len assms(5) by (intro exI[of _ b]) auto
qed

lemma sys_lSeek_plain:
  assumes "on_plain k fd i f x ks e n nd o'" "o'' \<le> length (ri_bytes nd)"
  shows "sys_lSeek fd (int o'') 0 k = Some (with_file k f (x\<lparr>obj := OEntry ks e (int o'')\<rparr>), int o'')"
  using assms
  by (auto simp: on_plain_def sys_lSeek_def File_lSeek_def kst_def KStat_entry_def v_rDev_def v_rINo_def v_rMode_def
    v_rFileSize_def v_getFS_def v_rBlkSiz_def with_file_def S_IFREG_def S_IFCHR_def S_IFIFO_def Let_def)

lemma sys_read_plain:
  assumes "on_plain k fd i f x ks e n nd o'" "op_r x" "o' + len \<le> length (ri_bytes nd)"
  shows "sys_read rp fd dst len k = map_option (\<lambda>k'. (Done, k', int len))
     (put_user rp i dst (take len (drop o' (ri_bytes nd))) (with_file k f (x\<lparr>obj := OEntry ks e (int (o' + len))\<rparr>)))"
proof -
  obtain p d where p: "cur_proc k = Some (i, p)" "ofile (p_files p) fd = Some f" "rd (fs_files (kfs k)) f = Some x"
    "obj x = OEntry ks e (int o')" "rd (dents (fs_vfs (kfs k))) e = Some d" "nod d = RNode n"
    "rd (rnodes (vram (fs_vfs (kfs k)))) n = Some nd" "ri_kind nd = Plain" "\<not> isDir nd" "length (ri_bytes nd) < 2 ^ 32"
    using assms(1) by (auto simp: on_plain_def)
  have o: "nat (int o' mod 2 ^ 32) = o'" using assms(3) p(10) by simp
  have m: "min len (sub64 (length (ri_bytes nd)) o') = len" using assms(3) p(10) by (simp add: sub64_in_range)
  have k: "with_file k f (x\<lparr>obj := OEntry ks e (int o')\<rparr>) = k"
  proof -
    have "x\<lparr>obj := OEntry ks e (int o')\<rparr> = x" using p(4) by (cases x) simp
    then show ?thesis using p(3) by (simp add: with_file_def rd_eq_Some_iff)
  qed
  have r: "ram_nodRead (fs_env (kfs k)) nd o' len = Some (take len (drop o' (ri_bytes nd)), int len)"
    using p(8,9) assms(3) m by (simp add: ram_nodRead_def Let_def del: min_def)
  show ?thesis
  proof (cases "len = 0")
    case True
    then show ?thesis using p assms(2) o r k
      by (simp add: sys_read_def File_read_def v_nodRead_def map_option_case split: option.split)
  next
    case False
    then show ?thesis using p assms(2) o r
      by (simp add: sys_read_def File_read_def v_nodRead_def with_file_def map_option_case Let_def split: option.split)
  qed
qed

text \<open>C17: What is written to a plain file in memory can be read back.  After a \<open>write\<close> of \<open>len\<close> bytes of user memory
  at an offset inside the file and an \<open>lseek\<close> back to that offset, both of which succeed, a \<open>read\<close> of \<open>len\<close>
  bytes copies exactly the bytes written to the destination, returns \<open>len\<close>, and leaves the files as
  they were after the \<open>write\<close>.\<close>

theorem write_seek_read:
  assumes "on_plain k fd i f x ks e n nd o'" "op_r x" "op_w x"
    and "src \<noteq> 0" "get_user i src len k = Some v" "o' + len < 2 ^ 32"
  shows "\<exists>k1 k2. sys_write fd src len k = Some (Done, k1, int len) \<and> sys_lSeek fd (int o') 0 k1 = Some (k2, int o')
    \<and> sys_read rp fd dst len k2 = map_option (\<lambda>k3. (Done, k3, int len)) (put_user rp i dst v k1)"
proof -
  obtain b where b: "sys_write fd src len k
      = Some (Done, with_file (with_node k n (nd\<lparr>ri_bytes := b\<rparr>)) f (x\<lparr>obj := OEntry ks e (int (o' + len))\<rparr>), int len)"
    "o' + len \<le> length b" "length b < 2 ^ 32" "take len (drop o' b) = v"
    using sys_write_plain[OF assms(1,3-6)] by blast
  let ?nd = "nd\<lparr>ri_bytes := b\<rparr>"
  let ?k1 = "with_file (with_node k n ?nd) f (x\<lparr>obj := OEntry ks e (int (o' + len))\<rparr>)"
  let ?k2 = "with_file ?k1 f (x\<lparr>obj := OEntry ks e (int o')\<rparr>)"
  have s1: "on_plain ?k1 fd i f (x\<lparr>obj := OEntry ks e (int (o' + len))\<rparr>) ks e n ?nd (o' + len)"
    using on_plain_step[OF assms(1) b(2,3)] .
  have s2: "sys_lSeek fd (int o') 0 ?k1 = Some (?k2, int o')" using sys_lSeek_plain[OF s1] b(2) by simp
  have k2: "?k2 = with_file (with_node k n ?nd) f (x\<lparr>obj := OEntry ks e (int o')\<rparr>)" by (simp add: with_file_def)
  then have "on_plain ?k2 fd i f (x\<lparr>obj := OEntry ks e (int o')\<rparr>) ks e n ?nd o'"
    using on_plain_step[OF assms(1) _ b(3), of o'] b(2) by simp
  from sys_read_plain[OF this, of len rp dst]
  have "sys_read rp fd dst len ?k2 = map_option (\<lambda>k'. (Done, k', int len)) (put_user rp i dst v ?k1)"
    using assms(2) b(2,4) by (simp add: with_file_def)
  then show ?thesis using b(1) s2 by blast
qed

theorem write_seek_read_witness:
  "\<exists>k k1 k2. get_user 1 4096 2 k = Some [7, 7] \<and> sys_write 4 4096 2 k = Some (Done, k1, 2) \<and> sys_lSeek 4 1 0 k1 = Some (k2, 1)
    \<and> sys_read (\<lambda>_ _. []) 4 8192 2 k2 = map_option (\<lambda>k3. (Done, k3, 2)) (put_user (\<lambda>_ _. []) 1 8192 [7, 7] k1)"
proof -
  let ?ks = "undefined\<lparr>st_mode := S_IFREG\<rparr> :: KStat"
  let ?x = "ex_file True True (OEntry ?ks 1 1)"
  let ?k = "ex_kernel [?x] [] ex_table"
  have "on_plain ?k 4 1 0 ?x ?ks 1 1 \<lparr>ri_super = 0, ri_ino = 2, isDir = False, ri_bytes = [1, 2, 3], ri_subs = [], ri_kind = Plain\<rparr> 1"
    using ex_kernel_cur[of "[?x]" "[]" ex_table] ex_table_nth(2) by (simp add: on_plain_def ex_defs S_IFREG_def S_IFMT_def)
  from write_seek_read[OF this, of 4096 2 "[7, 7]" "\<lambda>_ _. []" 8192]
  show ?thesis using ex_kernel_mem[of "[?x]" "[]" ex_table] by (auto simp: ex_file_def)
qed

subsection \<open>Close-on-exec\<close>

lemma cur_proc_set_files [simp]:
  "cur_proc k = Some (i, p) \<Longrightarrow> cur_proc (set_files i tbl k) = Some (i, p\<lparr>p_files := tbl\<rparr>)"
  by (auto simp: cur_proc_def cur_task_def set_files_def set_proc_def bind_eq_Some_iff)

lemma kfs_set_files [simp]: "kfs (set_files i tbl k) = kfs k"
  by (simp add: set_files_def set_proc_def)

lemma set_then_test: "(a OR b) AND b = (b :: nat)"
  by (simp add: bit_eq_iff bit_simps) blast

lemma ofile_update_other:
  assumes "ofile tbl fd = Some f" "tbl ! j \<noteq> Some f"
  shows "ofile (tbl[j := y]) fd = Some f"
proof -
  let ?d = "if fd = AT_FDCWD then FdCwd else fd"
  have d: "\<not> fdOutRange ?d" "tbl ! nat ?d = Some f" using assms(1) by (auto simp: ofile_def Let_def split: if_splits)
  then have "j \<noteq> nat ?d" using assms(2) by auto
  then show ?thesis using d by (simp add: ofile_def Let_def)
qed

lemma fdAlloc_keeps:
  assumes "fdAlloc tbl f lo False = (tbl', r)" "0 \<le> r" "ofile tbl fd = Some f"
  shows "ofile tbl' fd = Some f" and "length tbl = mOFiles \<Longrightarrow> ofile tbl' r = Some f"
proof -
  obtain j where j: "fd_scan tbl (mOFiles - nat lo) (nat lo) = Some j" "tbl' = tbl[j := Some f]" "r = int j"
    using assms(1,2) by (auto simp: fdAlloc_def ENOMEM_def Let_def split: option.splits)
  note s = fd_scan_Some[OF j(1)]
  show "ofile tbl' fd = Some f" using ofile_update_other[OF assms(3), of j] s j(2) by simp
  show "ofile tbl' r = Some f" if "length tbl = mOFiles"
    using that s j(2,3) by (auto simp: ofile_def Let_def fdOutRange_def AT_FDCWD_def)
qed

text \<open>C31: A duplicate that is asked for with close-on-exec marks the original descriptor too: after a successful
  \<open>fcntl(fd, F_DUPFD_CLOEXEC, arg)\<close> both descriptors name the same open file, and \<open>F_GETFD\<close> reports
  \<open>FD_CLOEXEC\<close> for the original, whatever its flag was before.\<close>

theorem dupfd_cloexec_marks_original:
  assumes "cur_proc k = Some (i, p)" "length (p_files p) = mOFiles" "ofile (p_files p) fd = Some f"
    and "sys_fCntl fd 1030 arg k = Some (k', r)" "0 \<le> r"
  shows "(\<exists>p'. cur_proc k' = Some (i, p') \<and> ofile (p_files p') fd = Some f \<and> ofile (p_files p') r = Some f)
    \<and> sys_fCntl fd 1 0 k' = Some (k', 1) \<and> sys_fCntl r 1 0 k' = Some (k', 1)"
proof -
  obtain tbl r' where t: "fdAlloc (p_files p) f (s32 arg) False = (tbl, r')" by fastforce
  have pr: "procs k i = Some p" using assms(1) by (auto simp: cur_proc_def bind_eq_Some_iff)
  let ?k = "set_files i tbl k"
  obtain x where x: "rd (fs_files (kfs k)) f = Some x" and r: "r' = r"
    and k': "k' = ?k\<lparr>kfs := (kfs k)\<lparr>fs_files := (fs_files (kfs k))[f := x\<lparr>fl_flags := clear_bits (fl_flags x) O_CLOEXEC OR O_CLOEXEC\<rparr>]\<rparr>\<rparr>"
    using assms(1,3-5) t pr
    by (auto simp: sys_fCntl_def alloc_fd_def set_flags_def bind_eq_Some_iff split: if_splits)
  have o: "ofile tbl fd = Some f" "ofile tbl r = Some f" using fdAlloc_keeps[OF t _ assms(3)] assms(2,5) r by auto
  have c: "cur_proc k' = Some (i, p\<lparr>p_files := tbl\<rparr>)" using assms(1) by (simp add: k')
  have f: "rd (fs_files (kfs k')) f = Some (x\<lparr>fl_flags := clear_bits (fl_flags x) O_CLOEXEC OR O_CLOEXEC\<rparr>)"
    using x by (simp add: k' rd_def split: if_splits)
  have g: "sys_fCntl d 1 0 k' = Some (k', 1)" if "ofile tbl d = Some f" for d
    using that c f by (simp add: sys_fCntl_def set_then_test O_CLOEXEC_def)
  show ?thesis using c o g by auto
qed

theorem dupfd_cloexec_marks_original_witness:
  "\<exists>k k'. sys_fCntl 4 1 0 k = Some (k, 0) \<and> sys_fCntl 4 1030 0 k = Some (k', 0) \<and> sys_fCntl 4 1 0 k' = Some (k', 1)"
proof -
  let ?k = "ex_kernel [ex_file True True (OEntry undefined 1 0)] [] ex_table"
  note c = ex_kernel_cur[of "[ex_file True True (OEntry undefined 1 0)]" "[]" ex_table]
  have a: "fdAlloc ex_table 0 0 False = (ex_table[0 := Some 0], 0)"
    by (simp add: fdAlloc_def ex_table_def mOFiles_def numeral_eq_Suc)
  have pr: "procs ?k 1 = Some (undefined\<lparr>p_files := ex_table, p_cwd := Some 0, vmar := ex_vmar\<rparr>)"
    using c by (auto simp: cur_proc_def bind_eq_Some_iff)
  have g: "sys_fCntl 4 1 0 ?k = Some (?k, 0)" using c ex_table_nth(2) by (simp add: sys_fCntl_def ex_defs)
  obtain k' where k': "sys_fCntl 4 1030 0 ?k = Some (k', 0)"
    using c ex_table_nth(2) pr a by (simp add: sys_fCntl_def alloc_fd_def set_flags_def s32_def) (simp add: ex_defs)
  show ?thesis using g k' dupfd_cloexec_marks_original[OF c _ _ k'] ex_table_nth by auto
qed

subsection \<open>The working directory\<close>

lemma up_names_empty:
  assumes "up_names s c acc = Some ns" "\<forall>d \<in> set (dents s). de_name d = []"
  shows "\<exists>m. ns = replicate m [] @ acc"
proof -
  have "(\<forall>d \<in> set (dents s). de_name d = []) \<longrightarrow> (\<exists>m. ns = replicate m [] @ acc)"
  proof (rule up_names.raw_induct[where P = "\<lambda>s c acc ns. (\<forall>d \<in> set (dents s). de_name d = []) \<longrightarrow> (\<exists>m. ns = replicate m [] @ acc)",
      OF _ assms(1)], intro impI)
    fix up s c acc ns
    assume ih: "\<And>s c acc ns. up s c acc = Some ns \<Longrightarrow> (\<forall>d \<in> set (dents s). de_name d = []) \<longrightarrow> (\<exists>m. ns = replicate m [] @ acc)"
      and e: "do { x \<leftarrow> rd (dents s) c;
          stop \<leftarrow> (if de_parent x = None then do { f \<leftarrow> v_getFS s (nod x); v_isRootFS s f } else Some False);
          if stop then Some acc else do { p \<leftarrow> de_parent x; up s p (de_name x # acc) } } = Some ns"
      and n: "\<forall>d \<in> set (dents s). de_name d = []"
    from e obtain x stop where x: "rd (dents s) c = Some x"
      and e': "(if stop then Some acc else do { p \<leftarrow> de_parent x; up s p (de_name x # acc) }) = Some ns"
      by (auto simp: bind_eq_Some_iff)
    have d: "de_name x = []" using x n by (auto simp: rd_eq_Some_iff)
    show "\<exists>m. ns = replicate m [] @ acc"
    proof (cases stop)
      case False
      then obtain q where "up s q ([] # acc) = Some ns" using e' d by (auto simp: bind_eq_Some_iff)
      then obtain m where "ns = replicate m [] @ [] # acc" using ih n by blast
      then show ?thesis by (intro exI[of _ "Suc m"]) (simp add: replicate_app_Cons_same)
    qed (use e' in \<open>auto intro: exI[of _ 0]\<close>)
  qed
  then show ?thesis using assms(2) by blast
qed

lemma abs_names_empty: "abs_names (replicate m []) acc = acc @ replicate m 47"
proof (induction m arbitrary: acc)
  case (Suc m)
  then show ?case by (cases m) (simp_all add: replicate_app_Cons_same)
qed simp

lemma pathAbsolute_empty:
  assumes "\<forall>d \<in> set (dents s). de_name d = []" "base q = Some c" "dirname q = []" "pathAbsolute s q = Some a"
  shows "\<exists>m. a = replicate (Suc m) 47"
proof -
  obtain ns where n: "up_names s c [] = Some ns" "a = (if abs_names ns [] = [] then [47] else abs_names ns [])"
    using assms(2-4) by (auto simp: pathAbsolute_def bind_eq_Some_iff Let_def)
  obtain m where "ns = replicate m []" using up_names_empty[OF n(1) assms(1)] by auto
  then have "a = (if m = 0 then [47] else replicate m 47)" using n(2) by (simp add: abs_names_empty)
  then show ?thesis by (cases m) auto
qed

lemma sys_getCwd_eq:
  assumes "cur_proc k = Some (i, p)" "p_cwd p = Some c" "a \<noteq> 0"
  shows "sys_getCwd rp a len k = do { v \<leftarrow> pathAbsolute (fs_vfs (kfs k)) \<lparr>pathname = [], dirname = [], base = Some c\<rparr>;
    if len < length v + 1 then Some (k, 0) else do { k \<leftarrow> put_user rp i a (v @ [0]) k; Some (k, int a) } }"
proof -
  have "set_vfs (fs_vfs (kfs k)) k = k" by (simp add: set_vfs_def)
  then show ?thesis using assms by (simp add: sys_getCwd_def with_path_def Path_new_def pathBuild_def)
qed

text \<open>The name of the working directory is lost.  Directory entries do not keep their names, so that \<open>getcwd\<close>
  writes nothing but slashes, one for every directory on the way, whatever the directories are called; it
  returns its buffer, or 0 when the slashes do not fit.\<close>

theorem getCwd_only_slashes:
  assumes "cur_proc k = Some (i, p)" "\<forall>d \<in> set (dents (fs_vfs (kfs k))). de_name d = []"
    and "a \<noteq> 0" "sys_getCwd rp a len k = Some (k', r)"
  shows "\<exists>m. if len < m + 2 then k' = k \<and> r = 0 else put_user rp i a (replicate (Suc m) 47 @ [0]) k = Some k' \<and> r = int a"
proof -
  obtain c where c: "p_cwd p = Some c" using assms by (auto simp: sys_getCwd_def with_path_def bind_eq_Some_iff)
  obtain v where v: "pathAbsolute (fs_vfs (kfs k)) \<lparr>pathname = [], dirname = [], base = Some c\<rparr> = Some v"
    and e: "(if len < length v + 1 then Some (k, 0) else do { k \<leftarrow> put_user rp i a (v @ [0]) k; Some (k, int a) }) = Some (k', r)"
    using assms(4) sys_getCwd_eq[OF assms(1) c assms(3)] by (auto simp: bind_eq_Some_iff)
  obtain m where "v = replicate (Suc m) 47" using pathAbsolute_empty[OF assms(2) _ _ v] by auto
  then show ?thesis using e by (intro exI[of _ m]) (auto simp: bind_eq_Some_iff split: if_splits)
qed

lemma ex_put_user:
  assumes "procs k 1 = Some p" "vmar p = ex_vmar" "kheap k = ex_heap"
  shows "\<exists>k'. put_user rp 1 4096 [47, 0] k = Some k'"
proof -
  have "VMAR_find ex_vmar 4096 = Some (Some (va_mappings ex_vmar ! 0))"
    by (simp add: VMAR_find_def ex_vmar_def mp_contains_def vend_def addr2pn_def add64_def sub64_def)
  then have "\<exists>st. copyout rp 4096 [47, 0] (ex_vmar, ex_heap) = Some st"
    by (simp add: copyout.simps ex_vmar_def ex_heap_def VMO_len_def pageSize_def pn2addr_def VMO_req_def wr_def)
  then show ?thesis using assms by (auto simp: put_user_def with_vmar_def)
qed

theorem getCwd_only_slashes_witness:
  "\<exists>k k' m. sys_getCwd (\<lambda>_ _. []) 4096 9 k = Some (k', 4096) \<and> put_user (\<lambda>_ _. []) 1 4096 (replicate (Suc m) 47 @ [0]) k = Some k'"
proof -
  let ?w = "ex_vfs\<lparr>dents := [
       \<lparr>de_parent = None, nod = FNode 0, de_name = [], subs = [], isMount = False, alive = True\<rparr>,
       \<lparr>de_parent = Some 0, nod = FNode 1, de_name = [], subs = [], isMount = False, alive = True\<rparr>],
     finodes := [undefined\<lparr>entry := Some 0\<rparr>], fatfss := [undefined\<lparr>isroot := True\<rparr>],
     vfat := undefined\<lparr>ents := [undefined\<lparr>mntblk := None, spblk := Some 0\<rparr>], sblks := [undefined\<lparr>sb_fs := 0\<rparr>]\<rparr>\<rparr>"
  let ?k = "set_proc 1 (\<lambda>p. p\<lparr>p_cwd := Some 1\<rparr>) (set_vfs ?w (ex_kernel [] [] ex_table))"
  have c: "cur_proc ?k = Some (1, undefined\<lparr>p_files := ex_table, p_cwd := Some 1, vmar := ex_vmar\<rparr>)"
    by (simp add: cur_proc_def cur_task_def ex_kernel_def set_proc_def set_vfs_def)
  have u: "up_names ?w 1 [] = Some [[]]"
    by (subst up_names.simps, subst up_names.simps) (simp add: rd_def v_getFS_def v_isRootFS_def getSpBlk_def)
  have f: "fs_vfs (kfs ?k) = ?w" by (simp add: set_proc_def set_vfs_def)
  have h: "procs ?k 1 = Some (undefined\<lparr>p_files := ex_table, p_cwd := Some 1, vmar := ex_vmar\<rparr>)" "kheap ?k = ex_heap"
    using c by (auto simp: cur_proc_def bind_eq_Some_iff) (simp add: set_proc_def set_vfs_def ex_kernel_def)
  obtain k' where k': "put_user (\<lambda>_ _. []) 1 4096 [47, 0] ?k = Some k'" using ex_put_user[OF h(1) _ h(2)] by force
  have g: "sys_getCwd (\<lambda>_ _. []) 4096 9 ?k = Some (k', 4096)"
    using sys_getCwd_eq[OF c, of 1 4096 "\<lambda>_ _. []" 9] u k' unfolding f by (simp add: pathAbsolute_def)
  from getCwd_only_slashes[OF c _ _ g] f show ?thesis using g by (auto split: if_splits)
qed

subsection \<open>The end of a pipe\<close>

lemma wakeup_curtask: "wakeup t s = Some s' \<Longrightarrow> curtask s' = curtask s"
  by (auto simp: wakeup_def sched_add_def bind_eq_Some_iff split: if_splits)

lemma wakeup_list_curtask: "wakeup_list ts s = Some s' \<Longrightarrow> curtask s' = curtask s"
  by (induction ts s rule: wakeup_list.induct) (auto simp: bind_eq_Some_iff dest: wakeup_curtask)

lemma cur_proc_sched:
  "curtask (fs_sched s) = curtask (fs_sched (kfs k)) \<Longrightarrow> cur_proc (k\<lparr>kfs := s\<rparr>) = cur_proc k"
  by (simp add: cur_proc_def cur_task_def)

lemma put_user_nil: "procs k i = Some p \<Longrightarrow> \<exists>k'. put_user rp i a [] k = Some k'"
  by (simp add: put_user_def with_vmar_def copyout.simps)

lemma Pipe_read_eof:
  assumes "Pipe_empty q" "wcnt q = 0" "canw q = []"
  shows "Pipe_read len [] (q, sc) = Some (Done, [], q, sc)"
proof -
  have t: "tryWakeup (q, sc) = Some (q, sc)" using assms(1,3) by (simp add: tryWakeup_def notify_canw_def notify_one_def)
  have "rlen q n = 0" for n using assms(1) by (simp add: rlen_def Pipe_empty_def sub64_def)
  then show ?thesis using assms(2) t by (simp add: Pipe_read.simps)
qed

lemma clear_last_pipe_end:
  assumes "procs k i = Some p" "rd (p_files p) fd = Some (Some f)"
    and "\<not> file_shared f (set_files i ((p_files p)[fd := None]) k)"
    and "rd (fs_files (kfs k)) f = Some x" "obj x = OPipe ks pp" "op_w x" "\<not> op_r x" "rd (fs_pipes (kfs k)) pp = Some q"
  shows "clear_fd i fd k = do { (q', sc) \<leftarrow> decWriter (q, fs_sched (kfs k));
     Some ((set_files i ((p_files p)[fd := None]) k)\<lparr>kfs := (kfs k)\<lparr>fs_pipes := (fs_pipes (kfs k))[pp := q'], fs_sched := sc\<rparr>\<rparr>) }"
proof -
  have s: "set_proc i (\<lambda>p. p\<lparr>p_files := (p_files p)[fd := None]\<rparr>) k = set_files i ((p_files p)[fd := None]) k"
    using assms(1) by (simp add: set_files_def set_proc_def)
  show ?thesis using assms unfolding clear_fd_def
    by (simp add: s File_delete_def case_prod_beta Let_def) (cases "decWriter (q, fs_sched (kfs k))", auto)
qed

text \<open>C27: Closing the last write end of an empty pipe is seen as the end of the data: \<open>close\<close> wakes every task that
  waits for data, and a \<open>read\<close> of any length from the other end then returns 0 and does not block.\<close>

theorem close_last_writer_eof:
  assumes "cur_proc k = Some (i, p)" "length (p_files p) = mOFiles"
    and "0 \<le> wfd" "ofile (p_files p) wfd = Some fw" "rd (fs_files (kfs k)) fw = Some xw"
      "obj xw = OPipe ks pp" "op_w xw" "\<not> op_r xw" "\<not> file_shared fw (set_files i ((p_files p)[nat wfd := None]) k)"
    and "ofile (p_files p) rfd = Some fr" "rd (fs_files (kfs k)) fr = Some xr" "obj xr = OPipe ks' pp" "op_r xr"
    and "rd (fs_pipes (kfs k)) pp = Some q" "wcnt q = 1" "Pipe_empty q" "canw q = []"
    and "sys_close wfd k = Some (k', r)"
  shows "r = 0 \<and> canr (fs_pipes (kfs k') ! pp) = [] \<and> (\<exists>sc. wakeup_list (canr q) (fs_sched (kfs k)) = Some sc \<and> fs_sched (kfs k') = sc)
    \<and> (\<exists>k''. sys_read rp rfd dst len k' = Some (Done, k'', 0))"
proof -
  let ?tbl = "(p_files p)[nat wfd := None]"
  have pr: "procs k i = Some p" using assms(1) by (auto simp: cur_proc_def bind_eq_Some_iff)
  have "wfd \<noteq> AT_FDCWD" using assms(3) by (simp add: AT_FDCWD_def)
  then have w: "rd (p_files p) (nat wfd) = Some (Some fw)" "\<not> fdOutRange wfd"
    using assms(2-4) by (auto simp: ofile_def fdOutRange_def rd_def Let_def split: if_splits)
  obtain sc where sc: "wakeup_list (canr q) (fs_sched (kfs k)) = Some sc"
    and k': "k' = (set_files i ?tbl k)\<lparr>kfs := (kfs k)\<lparr>fs_pipes := (fs_pipes (kfs k))[pp := q\<lparr>wcnt := 0, canr := []\<rparr>], fs_sched := sc\<rparr>\<rparr>"
    and r: "r = 0"
    using assms(18) assms(1,3,4,15) clear_last_pipe_end[OF pr w(1) assms(9,5-8,14)]
    by (auto simp: sys_close_def decWriter_def notify_all_def bind_eq_Some_iff)
  have "fr \<noteq> fw" using assms(5,8,11,13) by auto
  then have "p_files p ! nat wfd \<noteq> Some fr" using w(1) by (simp add: rd_def split: if_splits)
  then have o: "ofile ?tbl rfd = Some fr" using ofile_update_other[OF assms(10)] by blast
  have c: "cur_proc k' = Some (i, p\<lparr>p_files := ?tbl\<rparr>)"
    using assms(1) wakeup_list_curtask[OF sc] by (simp add: k' cur_proc_sched)
  then have pi: "procs k' i = Some (p\<lparr>p_files := ?tbl\<rparr>)" by (auto simp: cur_proc_def bind_eq_Some_iff)
  let ?q = "q\<lparr>wcnt := 0, canr := []\<rparr>"
  have pp: "rd (fs_pipes (kfs k')) pp = Some ?q" using assms(14) by (auto simp: k' rd_def split: if_splits)
  have e: "Pipe_read len [] (?q, sc) = Some (Done, [], ?q, sc)" using assms(16,17) by (intro Pipe_read_eof) (simp_all add: Pipe_empty_def)
  have s: "(kfs k')\<lparr>fs_pipes := (fs_pipes (kfs k'))[pp := ?q], fs_sched := sc\<rparr> = kfs k'"
    using pp by (simp add: k' rd_eq_Some_iff)
  obtain k'' where "put_user rp i dst [] k' = Some k''" using put_user_nil[OF pi] by blast
  then have "sys_read rp rfd dst len k' = Some (Done, k'', 0)"
    using c o assms(11-13) pp e s by (simp add: sys_read_def File_read_def k')
  then show ?thesis using sc k' r pp by (auto simp: rd_eq_Some_iff)
qed

theorem close_last_writer_eof_witness:
  "\<exists>k k' k''. sys_close 5 k = Some (k', 0) \<and> sys_read (\<lambda>_ _. []) 4 4096 10 k' = Some (Done, k'', 0)"
proof -
  let ?q = "(Pipe_init (replicate 64 0))\<lparr>wcnt := 1, rcnt := 1\<rparr>"
  let ?r = "ex_file True False (OPipe KStat_pipe 0)" and ?w = "ex_file False True (OPipe KStat_pipe 0)"
  let ?k = "ex_kernel [?r, ?w] [?q] ex_table"
  note c = ex_kernel_cur[of "[?r, ?w]" "[?q]" ex_table]
  then have p: "procs ?k 1 = Some (undefined\<lparr>p_files := ex_table, p_cwd := Some 0, vmar := ex_vmar\<rparr>)"
    by (auto simp: cur_proc_def bind_eq_Some_iff)
  have n: "\<not> file_shared 1 (set_files 1 (ex_table[nat 5 := None]) ?k)"
    by (simp add: file_shared_def set_files_def set_proc_def ex_kernel_def ex_table_def)
  have f: "rd (fs_files (kfs ?k)) 0 = Some ?r" "rd (fs_files (kfs ?k)) 1 = Some ?w" "rd (fs_pipes (kfs ?k)) 0 = Some ?q"
    by (simp_all add: ex_kernel_def rd_def)
  have t: "rd ex_table 5 = Some (Some 1)" by (simp add: ex_table_def rd_def)
  have "\<exists>k'. clear_fd 1 (nat 5) ?k = Some k'"
    using clear_last_pipe_end[OF p _ _ f(2) _ _ _ f(3), of "nat 5" KStat_pipe] n t
    by (simp add: ex_file_def decWriter_def notify_all_def Pipe_init_def)
  then obtain k' where k': "sys_close 5 ?k = Some (k', 0)" using c ex_table_nth(3) by (auto simp: sys_close_def)
  have "\<exists>k''. sys_read (\<lambda>_ _. []) 4 4096 10 k' = Some (Done, k'', 0)"
    using close_last_writer_eof[OF c _ _ _ f(2) _ _ _ _ _ f(1) _ _ f(3) _ _ _ k', of KStat_pipe 4 KStat_pipe "\<lambda>_ _. []" 4096 10]
      ex_table_nth n by (simp add: ex_file_def Pipe_init_def Pipe_empty_def)
  then show ?thesis using k' by blast
qed

end
