(* ===== verification/ProcCalls.thy ===== *)
theory ProcCalls
  imports Syscalls
begin

text \<open>
  The system calls that make, end and collect processes and tasks: \<open>clone\<close>, \<open>setTidAddress\<close>, \<open>exitGroup\<close>,
  \<open>exit\<close> and \<open>waitpid\<close> of \<open>kernel/syscall/proc.cc\<close>, with \<open>Task::exit\<close> of \<open>kernel/proc.cc\<close>.

  \<open>waitpid\<close> blocks in a loop: its outcome is then \<open>Blocked\<close>, and the loop goes on with a call of it in the
  state in which the task runs again.  The times of a process, which \<open>waitpid\<close> adds up, are not modelled.
\<close>

definition CLONE_VM :: nat where "CLONE_VM = 0x100"
definition CLONE_SIGHAND :: nat where "CLONE_SIGHAND = 0x800"
definition CLONE_THREAD :: nat where "CLONE_THREAD = 0x10000"
definition CLONE_SETTLS :: nat where "CLONE_SETTLS = 0x80000"
definition CLONE_PARENT_SETTID :: nat where "CLONE_PARENT_SETTID = 0x100000"
definition CLONE_CHILD_CLEARTID :: nat where "CLONE_CHILD_CLEARTID = 0x200000"
definition CLONE_CHILD_SETTID :: nat where "CLONE_CHILD_SETTID = 0x1000000"

subsection \<open>Making\<close>

text \<open>The task of the new thread or process: any one of three flags makes a thread.\<close>

definition clone_task :: "(nat list \<Rightarrow> nat list) \<Rightarrow> reader \<Rightarrow> Process \<Rightarrow> Task \<Rightarrow> nat \<Rightarrow> nat \<Rightarrow> Kernel \<Rightarrow> (nat \<times> Kernel) option" where
  "clone_task it rp freshp fresht flags stack k =
     do { (t, x) \<leftarrow> cur_task k;
          if flags AND (CLONE_VM OR CLONE_THREAD OR CLONE_SIGHAND) \<noteq> 0
          then do {
            _ \<leftarrow> procs k (t_proc x);
            (n, k) \<leftarrow> newTask_from rp fresht (t_proc x) t stack k;
            Some (n, set_task n (\<lambda>y. y\<lparr>ctx := set_xreg 10 0 (ctx y)\<rparr>) k) }
          else do {
            (i, k) \<leftarrow> proc_clone it rp freshp fresht t k;
            q \<leftarrow> procs k i;
            n \<leftarrow> defaultTask it q;
            Some (n, if stack \<noteq> 0 then set_task n (\<lambda>y. y\<lparr>ctx := set_xreg 2 stack (ctx y)\<rparr>) k else k) } }"

definition sys_clone :: "(nat list \<Rightarrow> nat list) \<Rightarrow> reader \<Rightarrow> Process \<Rightarrow> Task \<Rightarrow> nat \<Rightarrow> nat \<Rightarrow> nat \<Rightarrow> nat \<Rightarrow> nat \<Rightarrow> Kernel \<Rightarrow> (Kernel \<times> int) option" where
  "sys_clone it rp freshp fresht flags stack parent_tid tls child_tid k =
     do { (t, x) \<leftarrow> cur_task k;
          (n, k) \<leftarrow> clone_task it rp freshp fresht flags stack k;
          y \<leftarrow> tasks k n;
          k \<leftarrow> (if flags AND CLONE_CHILD_SETTID \<noteq> 0 \<and> child_tid \<noteq> 0 then put_user rp (t_proc y) child_tid (enc32 n) k else Some k);
          k \<leftarrow> (if flags AND CLONE_PARENT_SETTID \<noteq> 0 \<and> parent_tid \<noteq> 0 then put_user rp (t_proc x) parent_tid (enc32 n) k else Some k);
          let k = (if flags AND CLONE_SETTLS \<noteq> 0 then set_task n (\<lambda>y. y\<lparr>ctx := set_xreg 4 tls (ctx y)\<rparr>) k else k);
          let k = (if flags AND CLONE_CHILD_CLEARTID \<noteq> 0 then set_task n (\<lambda>y. y\<lparr>clearChildTid := child_tid\<rparr>) k else k);
          Some (k, int (if flags AND CLONE_THREAD \<noteq> 0 then n else t_proc y)) }"

definition sys_setTidAddress :: "nat \<Rightarrow> Kernel \<Rightarrow> (Kernel \<times> int) option" where
  "sys_setTidAddress tidptr k =
     do { (t, _) \<leftarrow> cur_task k; Some (set_task t (\<lambda>x. x\<lparr>clearChildTid := tidptr\<rparr>) k, int t) }"

subsection \<open>Ending\<close>

definition zombie_task :: "nat \<Rightarrow> Kernel \<Rightarrow> Kernel option" where
  "zombie_task t k =
     do { let s = fs_sched (kfs k);
          x \<leftarrow> objs s t;
          s \<leftarrow> sched_remove t (s\<lparr>objs := (objs s)(t \<mapsto> x\<lparr>sc_state := Zombie\<rparr>)\<rparr>);
          Some (set_sched s k) }"

text \<open>
  \<open>Task::exit\<close>: the task leaves the scheduler and its process, the word it has registered is cleared and one
  waiter woken.  The last task ends the process, whose \<open>exit\<close> does not come back.
\<close>

definition clear_tid :: "reader \<Rightarrow> nat \<Rightarrow> nat \<Rightarrow> Kernel \<Rightarrow> Kernel option" where
  "clear_tid rp i a k =
     (if a = 0 then Some k
      else do { k \<leftarrow> put_user rp i a (enc32 0) k; (_, k, _) \<leftarrow> sys_futex a 1 1 0 0 0 k; Some k })"

definition Task_exit :: "(nat list \<Rightarrow> nat list) \<Rightarrow> reader \<Rightarrow> int \<Rightarrow> Kernel \<Rightarrow> Kernel option" where
  "Task_exit it rp status k =
     do { (t, x) \<leftarrow> cur_task k;
          k \<leftarrow> zombie_task t (set_task t (\<lambda>x. x\<lparr>t_exitstatus := status\<rparr>) k);
          let i = t_proc x;
          _ \<leftarrow> procs k i;
          k \<leftarrow> clear_tid rp i (clearChildTid x) (set_proc i (\<lambda>p. p\<lparr>p_tasks := remove1 t (p_tasks p)\<rparr>) k);
          p \<leftarrow> procs k i;
          if p_tasks p = [] then Process_exit it i status k
          else do {
            k \<leftarrow> sigSend it i 17 None k;
            sc \<leftarrow> kernel_yield (fs_sched (kfs k));
            Some (set_sched sc k) } }"

definition sys_exit :: "(nat list \<Rightarrow> nat list) \<Rightarrow> reader \<Rightarrow> int \<Rightarrow> Kernel \<Rightarrow> Kernel option" where
  "sys_exit it rp status k = Task_exit it rp status k"

fun zombie_tasks :: "nat list \<Rightarrow> Kernel \<Rightarrow> Kernel option" where
  "zombie_tasks [] k = Some k"
| "zombie_tasks (t # ts) k = do { k \<leftarrow> zombie_task t k; zombie_tasks ts k }"

definition sys_exitGroup :: "(nat list \<Rightarrow> nat list) \<Rightarrow> int \<Rightarrow> Kernel \<Rightarrow> Kernel option" where
  "sys_exitGroup it status k =
     do { (i, p) \<leftarrow> cur_proc k;
          k \<leftarrow> zombie_tasks (it (p_tasks p)) k;
          Process_exit it i status k }"

subsection \<open>Collecting\<close>

datatype wait_for = Reap nat | NoChild | Wait

definition is_zombie :: "Kernel \<Rightarrow> nat \<Rightarrow> bool" where
  "is_zombie k i = (case procs k i of None \<Rightarrow> False | Some p \<Rightarrow> p_state p = Zombie)"

text \<open>
  One round of the loops: \<open>-1\<close> asks for any child, a positive number for that process, which need not be a
  child; a number without a process and the other numbers panic.
\<close>

definition wait_target :: "int \<Rightarrow> nat \<Rightarrow> Kernel \<Rightarrow> wait_for option" where
  "wait_target pid i k =
     (if pid = - 1
      then Some (if getChilds i k = [] then NoChild
                 else (case find (is_zombie k) (getChilds i k) of Some c \<Rightarrow> Reap c | None \<Rightarrow> Wait))
      else if 0 < pid
      then do { _ \<leftarrow> procs k (nat pid); Some (if is_zombie k (nat pid) then Reap (nat pid) else Wait) }
      else None)"

definition sys_waitpid :: "reader \<Rightarrow> int \<Rightarrow> nat \<Rightarrow> int \<Rightarrow> Kernel \<Rightarrow> (outcome \<times> Kernel \<times> int) option" where
  "sys_waitpid rp pid wstatus options k =
     do { (i, _) \<leftarrow> cur_proc k;
          w \<leftarrow> wait_target pid i k;
          case w of
            NoChild \<Rightarrow> Some (Done, k, - 1)
          | Wait \<Rightarrow> do { sc \<leftarrow> kernel_sleep (fs_sched (kfs k)); Some (Blocked, set_sched sc k, 0) }
          | Reap c \<Rightarrow> do {
              q \<leftarrow> procs k c;
              k \<leftarrow> (if wstatus \<noteq> 0 then put_user rp i wstatus (enc32 (nat (p_exitstatus q * 256 mod 2 ^ 32))) k else Some k);
              k \<leftarrow> zombieExit c k;
              Some (Done, k, int c) } }"

end
