(* ===== verification/ProcCallsSpec.thy ===== *)
theory ProcCallsSpec
  imports ProcCalls SchedSpec VmarSpec
begin

text \<open>The life of a process: what \<open>clone\<close> makes, what \<open>exit_group\<close> leaves, and what \<open>waitpid\<close> collects.\<close>

subsection \<open>What the steps leave alone\<close>

lemma put_user_procs:
  assumes "put_user rp i a v k = Some k'"
  shows "\<exists>va. procs k' = (procs k)(i := map_option (\<lambda>p. p\<lparr>vmar := va\<rparr>) (procs k i))"
  using assms by (auto simp: put_user_def with_vmar_def set_proc_def bind_eq_Some_iff)

lemma put_user_kfs: "put_user rp i a v k = Some k' \<Longrightarrow> kfs k' = kfs k"
  by (auto simp: put_user_def with_vmar_def set_proc_def bind_eq_Some_iff)

lemma put_user_parent:
  assumes "put_user rp i a v k = Some k'"
  shows "map_option p_parent (procs k' j) = map_option p_parent (procs k j)"
  using put_user_procs[OF assms] by (auto simp: option.map_comp comp_def)

lemma getChilds_parent: "(\<And>j. map_option p_parent (procs k' j) = map_option p_parent (procs k j)) \<Longrightarrow> getChilds c k' = getChilds c k"
proof -
  assume h: "\<And>j. map_option p_parent (procs k' j) = map_option p_parent (procs k j)"
  have "(case procs k' j of None \<Rightarrow> False | Some p \<Rightarrow> p_parent p = c) = (case procs k j of None \<Rightarrow> False | Some p \<Rightarrow> p_parent p = c)" for j
    using h[of j] by (auto split: option.splits)
  then show ?thesis by (simp add: getChilds_def)
qed

lemma clear_fd_procs: "clear_fd c fd k = Some k' \<Longrightarrow> j \<noteq> c \<Longrightarrow> procs k' j = procs k j"
  by (auto simp: clear_fd_def bind_eq_Some_iff set_proc_def Let_def split: option.splits if_splits)

lemma clear_fds_procs: "clear_fds c n k = Some k' \<Longrightarrow> j \<noteq> c \<Longrightarrow> procs k' j = procs k j"
  by (induction n arbitrary: k) (auto simp: bind_eq_Some_iff dest: clear_fd_procs)

lemma reparent_procs:
  "procs (fold (\<lambda>c. set_proc c (\<lambda>q. q\<lparr>p_parent := pp\<rparr>)) cs k) j
   = (if j \<in> set cs then map_option (\<lambda>q. q\<lparr>p_parent := pp\<rparr>) (procs k j) else procs k j)"
  by (induction cs arbitrary: k) (auto simp: set_proc_def option.map_comp comp_def)

lemma zombieExit_procs:
  assumes "zombieExit c k = Some k'" "procs k c = Some q"
  shows "procs k' j = (if j = c then None
    else map_option (\<lambda>x. if j < 512 \<and> p_parent x = c then x\<lparr>p_parent := p_parent q\<rparr> else x) (procs k j))"
proof -
  let ?k = "fold (\<lambda>x. set_proc x (\<lambda>y. y\<lparr>p_parent := p_parent q\<rparr>)) (getChilds c k) k"
  have s: "procs ?k c \<noteq> None" using assms(2) by (simp add: reparent_procs)
  obtain k1 where k1: "clear_fds c mOFiles ?k = Some k1" "k' = k1\<lparr>procs := (procs k1)(c := None)\<rparr>"
    using assms s by (auto simp: zombieExit_def proc_del_def bind_eq_Some_iff split: option.splits)
  have m: "j \<in> set (getChilds c k) \<longleftrightarrow> j < 512 \<and> (\<exists>x. procs k j = Some x \<and> p_parent x = c)"
    by (auto simp: getChilds_def split: option.splits)
  show ?thesis
  proof (cases "j = c")
    case False
    then have "procs k' j = procs ?k j" using k1 clear_fds_procs[OF k1(1) False] by simp
    then show ?thesis using False m by (cases "procs k j") (auto simp: reparent_procs)
  qed (simp add: k1(2))
qed

subsection \<open>Collecting\<close>

lemma find_in: "find P xs = Some x \<Longrightarrow> P x \<and> x \<in> set xs"
  by (auto simp: find_Some_iff)

lemma wait_target_Reap:
  assumes "wait_target pid i k = Some (Reap c)"
  shows "\<exists>q. procs k c = Some q \<and> p_state q = Zombie \<and> (if pid = - 1 then c \<in> set (getChilds i k) else pid = int c)"
  using assms by (auto simp: wait_target_def bind_eq_Some_iff is_zombie_def split: if_splits option.splits dest!: find_in)


lemma clear_fds_none:
  "procs k c = Some q \<Longrightarrow> p_files q = replicate m None \<Longrightarrow> n \<le> m \<Longrightarrow> clear_fds c n k = Some k"
proof (induction n)
  case (Suc n)
  have "q\<lparr>p_files := (p_files q)[n := None]\<rparr> = q" using Suc.prems(2,3) by (cases q) (simp add: list_eq_iff_nth_eq nth_list_update)
  then have "set_proc c (\<lambda>p. p\<lparr>p_files := (p_files p)[n := None]\<rparr>) k = k" using Suc.prems(1) by (cases k) (auto simp: set_proc_def)
  then have "clear_fd c n k = Some k" using Suc.prems by (simp add: clear_fd_def acc_simps)
  then show ?case using Suc by simp
qed simp


subsection \<open>Ending\<close>

lemma zombie_task_effect:
  assumes "zombie_task t k = Some k'"
  shows "procs k' = procs k" "tasks k' = tasks k" "curtask (fs_sched (kfs k')) = curtask (fs_sched (kfs k))"
    "\<exists>x. objs (fs_sched (kfs k)) t = Some x \<and> objs (fs_sched (kfs k')) = (objs (fs_sched (kfs k)))(t \<mapsto> x\<lparr>sc_state := Zombie\<rparr>)
       \<and> (\<exists>q. rd (ready (fs_sched (kfs k))) (sc_prior x) = Some q \<and> ready (fs_sched (kfs k')) = (ready (fs_sched (kfs k)))[sc_prior x := removeAll t q])"
  using assms by (auto simp: zombie_task_def sched_remove_def set_sched_def bind_eq_Some_iff wr_def Let_def split: if_splits)

lemma zombie_tasks_effect:
  assumes "zombie_tasks ts k = Some k'"
  shows "procs k' = procs k" "tasks k' = tasks k" "curtask (fs_sched (kfs k')) = curtask (fs_sched (kfs k))"
  using assms by (induction ts k rule: zombie_tasks.induct) (auto simp: bind_eq_Some_iff dest: zombie_task_effect(1-3))

lemma zombie_tasks_keep:
  assumes "zombie_tasks ts k = Some k'" "objs (fs_sched (kfs k)) t = Some x" "sc_state x = Zombie"
  shows "\<exists>y. objs (fs_sched (kfs k')) t = Some y \<and> sc_state y = Zombie"
  using assms
proof (induction ts k arbitrary: x rule: zombie_tasks.induct)
  case (2 s ts k)
  then obtain k1 where k1: "zombie_task s k = Some k1" "zombie_tasks ts k1 = Some k'" by (auto simp: bind_eq_Some_iff)
  obtain y where y: "objs (fs_sched (kfs k)) s = Some y" "objs (fs_sched (kfs k1)) = (objs (fs_sched (kfs k)))(s \<mapsto> y\<lparr>sc_state := Zombie\<rparr>)"
    using zombie_task_effect(4)[OF k1(1)] by blast
  show ?case
  proof (cases "s = t")
    case True
    then show ?thesis using 2(1)[OF k1(1) k1(2), of "y\<lparr>sc_state := Zombie\<rparr>"] y(2) by simp
  next
    case False
    then show ?thesis using 2(1)[OF k1(1) k1(2), of x] y(2) 2(3,4) by simp
  qed
qed simp

lemma zombie_tasks_all:
  assumes "zombie_tasks ts k = Some k'" "t \<in> set ts"
  shows "\<exists>y. objs (fs_sched (kfs k')) t = Some y \<and> sc_state y = Zombie"
  using assms
proof (induction ts k rule: zombie_tasks.induct)
  case (2 s ts k)
  then obtain k1 where k1: "zombie_task s k = Some k1" "zombie_tasks ts k1 = Some k'" by (auto simp: bind_eq_Some_iff)
  show ?case
  proof (cases "t \<in> set ts")
    case True
    then show ?thesis using 2(1)[OF k1] by blast
  next
    case False
    then have "s = t" using 2(3) by simp
    then show ?thesis using zombie_task_effect(4)[OF k1(1)] zombie_tasks_keep[OF k1(2), of t] by auto
  qed
qed simp

lemma wakeup_zombie:
  assumes "wakeup u s = Some s'" "objs s t = Some x" "sc_state x = Zombie"
  shows "objs s' t = Some x"
  using assms by (auto simp: wakeup_def sched_add_def bind_eq_Some_iff split: if_splits)

lemma exitGroup_effect:
  assumes "cur_proc k = Some (c, p)" "sys_exitGroup it status k = Some k1"
  shows "procs k1 = (procs k)(c \<mapsto> p\<lparr>p_state := Zombie, p_exitstatus := status\<rparr>)"
    and "\<And>t. t \<in> set (it (p_tasks p)) \<Longrightarrow> \<exists>y. objs (fs_sched (kfs k1)) t = Some y \<and> sc_state y = Zombie"
proof -
  obtain k0 where k0: "zombie_tasks (it (p_tasks p)) k = Some k0" "Process_exit it c status k0 = Some k1"
    using assms by (auto simp: sys_exitGroup_def bind_eq_Some_iff)
  have pr: "procs k0 c = Some p" using assms(1) zombie_tasks_effect(1)[OF k0(1)] by (auto simp: cur_proc_def bind_eq_Some_iff)
  let ?k = "set_proc c (\<lambda>p. p\<lparr>p_state := Zombie, p_exitstatus := status\<rparr>) k0"
  obtain u sc sc' where w: "wakeup u (fs_sched (kfs k0)) = Some sc" "schedule sc = Some sc'" "k1 = set_sched sc' ?k"
    using k0(2) pr by (auto simp: Process_exit_def kernel_yield_def bind_eq_Some_iff set_proc_def)
  show "procs k1 = (procs k)(c \<mapsto> p\<lparr>p_state := Zombie, p_exitstatus := status\<rparr>)"
    using w(3) pr zombie_tasks_effect(1)[OF k0(1)] by (simp add: set_sched_def set_proc_def)
  show "\<exists>y. objs (fs_sched (kfs k1)) t = Some y \<and> sc_state y = Zombie" if "t \<in> set (it (p_tasks p))" for t
    using zombie_tasks_all[OF k0(1) that] wakeup_zombie[OF w(1)] schedule_objs[OF w(2)] w(3) by (auto simp: set_sched_def)
qed



subsection \<open>Memory for a new task\<close>

lemma user_rw_ok: "perm_ok user_rw"
  by (simp add: perm_ok_def user_rw_def mask_r_def mask_w_def mask_u_def mask_v_def)

lemma newTrapframe_total:
  assumes "procs k i = Some p" "pt_inv 2 (vh_pt (kheap k)) (va_root (vmar p)) F A"
    and "pt_mem (vh_pt (kheap k)) (va_root (vmar p)) = (\<lambda>_. 0)"
    and "free_block (pt_pm (vh_pt (kheap k))) F q 1" "1 < rootOrder (pt_pm (vh_pt (kheap k)))" "12 \<le> card F" "F \<subseteq> {..< 2 ^ 26}"
  shows "\<exists>va k'. newTrapframe rp i k = Some (va, k')"
proof -
  let ?st = "vh_pt (kheap k)" and ?root = "va_root (vmar p)"
  obtain U where U: "pm_inv (pt_pm ?st) F U" "A \<subseteq> {..< pm_end (pt_pm ?st)}" "\<forall>p \<in> A. (p, 0) \<in> U"
    using assms(2) by (auto simp: pt_inv_def frames_inv_def)
  have l: "log2up 2 = 1" by (simp add: log2up_def log2up_loop.simps)
  have "log2up 2 + 1 \<le> buddyNodes (pt_pm ?st) ! 0" using alloc_None(2)[OF U(1), of 2 q] assms(4,5) by (auto simp: l)
  then obtain ppn pm where a: "alloc 2 (pt_pm ?st) = Some (ppn, pm)" "free_block (pt_pm ?st) F ppn 1"
      "pm_inv pm (F - block ppn 1) (insert (ppn, 1) U)" "pm_end pm = pm_end (pt_pm ?st)"
    using alloc_Some[OF U(1), of 2] l by auto
  have b: "block ppn 1 \<subseteq> F" "finite F" using a(2) assms(2) by (auto simp: free_block_def pt_inv_def)
  moreover have "ppn \<in> block ppn 1" by (simp add: block_def)
  ultimately have ppn: "ppn < 2 ^ 26" using assms(7) by blast
  have "card (block ppn 1) = 2" by (simp add: block_def)
  then have c: "10 \<le> card (F - block ppn 1)" using b assms(6) by (simp add: card_Diff_subset finite_subset)
  let ?st1 = "?st\<lparr>pt_pm := pm\<rparr>"
  have i: "pt_inv 2 ?st1 ?root (F - block ppn 1) A"
    using assms(2) a(3,4) U(2,3) by (auto simp: pt_inv_def frames_inv_def)
  have n: "nosplit 2 (pt_mem ?st1) ?root ppn 2" by (rule nosplit_unmapped) (rule empty_table(3), simp add: assms(3))
  obtain st2 where st2: "PageTable_createMapping ?root ppn ppn 2 user_rw ?st1 = Some st2"
    using createMapping_window[OF i c _ _ _ user_rw_ok n, where ppn = ppn] ppn by auto
  have v: "addr2pn (pn2addr ppn) = ppn" using ppn by (simp add: addr2pn_def pn2addr_def)
  show ?thesis using assms(1) a(1) st2 v ppn
    map_loop_contiguous[where m = "\<lparr>mp_vpn = ppn, mp_len = 2, mp_offset = 0, mp_vmo = vh_next (kheap k), mp_perm = user_rw,
            mp_mapping = Msystem, mp_sharing = Privt\<rparr>" and ppn = ppn and readPages = rp]
    by (simp add: newTrapframe_def alloc_pages_def map_contiguous_def with_vmar_def new_vmo_def TrapframePages_def VMAR_map_def)
qed

subsection \<open>Making\<close>

text \<open>A step that only gives process \<open>i\<close> more memory.\<close>

definition grows :: "nat \<Rightarrow> Kernel \<Rightarrow> Kernel \<Rightarrow> bool" where
  "grows i k k' \<longleftrightarrow> (\<exists>va. procs k' = (procs k)(i := map_option (\<lambda>p. p\<lparr>vmar := va\<rparr>) (procs k i)))
     \<and> tasks k' = tasks k \<and> taskIds k' = taskIds k \<and> procIds k' = procIds k \<and> kfs k' = kfs k"

lemma newTrapframe_grows: "newTrapframe rp i k = Some (va, k') \<Longrightarrow> grows i k k'"
  by (auto simp: newTrapframe_def alloc_pages_def map_contiguous_def with_vmar_def set_proc_def grows_def bind_eq_Some_iff Let_def)

lemma newTask_from_effect:
  assumes "newTask_from rp fresh i other ustack k = Some (n, k')" "ustack \<noteq> 0" "tasks k other = Some x"
  shows "n = taskIds k + 1"
    and "\<exists>va. procs k' = (procs k)(i := map_option (\<lambda>p. p\<lparr>vmar := va, p_tasks := List.insert n (p_tasks p)\<rparr>) (procs k i))"
    and "tasks k' = (tasks k)(n \<mapsto> (Task_copy i x fresh)\<lparr>ctx := set_xreg 2 ustack (ctx x)\<rparr>)"
    and "procIds k' = procIds k"
    and "\<exists>prio. map_option sc_prior (objs (fs_sched (kfs k)) other) = Some prio \<and> new_task n prio (fs_sched (kfs k)) = Some (fs_sched (kfs k'))"
proof -
  obtain prio k1 va sc where k1: "map_option sc_prior (objs (fs_sched (kfs k)) other) = Some prio" "newTrapframe rp i k = Some (va, k1)"
    and n: "n = taskIds k1 + 1" and sc: "new_task n prio (fs_sched (kfs k1)) = Some sc"
    and k': "k' = set_sched sc (set_proc i (\<lambda>p. p\<lparr>p_tasks := List.insert n (p_tasks p)\<rparr>)
       (set_task n (\<lambda>y. y\<lparr>ctx := set_xreg 2 ustack (ctx y)\<rparr>) (k1\<lparr>taskIds := n, tasks := (tasks k1)(n \<mapsto> Task_copy i x fresh)\<rparr>)))"
    using assms by (auto simp: newTask_from_def add_taskobj_def add_to_proc_def set_task_def set_proc_def bind_eq_Some_iff Let_def)
  have g: "grows i k k1" by (rule newTrapframe_grows[OF k1(2)])
  show "n = taskIds k + 1" "procIds k' = procIds k" using g n k' by (auto simp: grows_def set_sched_def set_proc_def set_task_def)
  show "\<exists>prio. map_option sc_prior (objs (fs_sched (kfs k)) other) = Some prio \<and> new_task n prio (fs_sched (kfs k)) = Some (fs_sched (kfs k'))"
    using g k1(1) sc k' by (auto simp: grows_def set_sched_def)
  show "tasks k' = (tasks k)(n \<mapsto> (Task_copy i x fresh)\<lparr>ctx := set_xreg 2 ustack (ctx x)\<rparr>)"
    using g k' by (simp add: grows_def set_sched_def set_proc_def set_task_def Task_copy_def)
  show "\<exists>va. procs k' = (procs k)(i := map_option (\<lambda>p. p\<lparr>vmar := va, p_tasks := List.insert n (p_tasks p)\<rparr>) (procs k i))"
    using g k' by (auto simp: grows_def set_sched_def set_proc_def set_task_def option.map_comp comp_def)
qed

lemma newTask_from_total:
  assumes "newTrapframe rp i k = Some (va, k1)" "tasks k other = Some x" "ustack \<noteq> 0"
    and "objs (fs_sched (kfs k)) other = Some y" "sc_prior y < length (ready (fs_sched (kfs k)))"
  shows "\<exists>r. newTask_from rp fresh i other ustack k = Some r"
proof -
  have "kfs k1 = kfs k" using newTrapframe_grows[OF assms(1)] by (simp add: grows_def)
  then show ?thesis using assms
    by (simp add: newTask_from_def add_taskobj_def add_to_proc_def new_task_def sched_add_def set_task_def acc_simps Let_def)
qed

lemmas clone_flags = CLONE_VM_def CLONE_SIGHAND_def CLONE_THREAD_def CLONE_SETTLS_def CLONE_PARENT_SETTID_def
  CLONE_CHILD_CLEARTID_def CLONE_CHILD_SETTID_def

lemma and_or_zero: "a AND (b OR c) = 0 \<longleftrightarrow> a AND b = 0 \<and> a AND c = (0 :: nat)"
  by (simp add: bit_eq_iff bit_simps) blast

lemma defaultTask_single: "\<forall>ts. set (it ts) = set ts \<Longrightarrow> p_tasks q = [n] \<Longrightarrow> defaultTask it q = Some n"
proof -
  assume h: "\<forall>ts. set (it ts) = set ts" and q: "p_tasks q = [n]"
  have "set (it [n]) = {n}" using h by simp
  then show "defaultTask it q = Some n" using q by (cases "it [n]") (auto simp: defaultTask_def)
qed

text \<open>The process a fork makes of \<open>p\<close>, with its memory and its task; the members that are not set come from \<open>fresh\<close>.\<close>

definition forked :: "Process \<Rightarrow> nat \<Rightarrow> Process \<Rightarrow> VMAR \<Rightarrow> nat \<Rightarrow> Process" where
  "forked fresh pid p va n = fresh\<lparr>p_parent := pid, vmar := va, heapTop := heapBottom p, heapBottom := heapBottom p,
     p_tasks := [n], p_files := p_files p, p_exe := [], p_cwd := p_cwd p, p_state := Init,
     sigacts := replicate numSigs None, supgids := []\<rparr>"

lemma proc_clone_effect:
  assumes "proc_clone it rp freshp fresht t k = Some (c, k')" "\<forall>ts. set (it ts) = set ts"
    and "tasks k t = Some x" "procs k (t_proc x) = Some p" "xreg (ctx x) 2 \<noteq> 0"
  shows "c = procIds k + 1"
    and "\<exists>va. procs k' = (procs k)(c \<mapsto> forked freshp (t_proc x) p va (taskIds k + 1))"
    and "tasks k' = (tasks k)(taskIds k + 1 \<mapsto> (Task_copy c x fresht)\<lparr>ctx := set_xreg 10 0 (set_xreg 2 (xreg (ctx x) 2) (ctx x))\<rparr>)"
    and "\<exists>prio. map_option sc_prior (objs (fs_sched (kfs k)) t) = Some prio \<and> new_task (taskIds k + 1) prio (fs_sched (kfs k)) = Some (fs_sched (kfs k'))"
proof -
  let ?p = "\<lambda>v. freshp\<lparr>p_parent := t_proc x, vmar := v, heapTop := heapBottom p, heapBottom := heapBottom p, p_tasks := [],
    p_files := p_files p, p_exe := [], p_cwd := p_cwd p, p_state := Init, sigacts := replicate numSigs None, supgids := []\<rparr>"
  obtain v h k2 n where v: "VMAR_clone rp (vmar p) (kheap k) = Some (v, h)"
    and nt: "newTask_from rp fresht (procIds k + 1) t (xreg (ctx x) 2)
               (k\<lparr>kheap := h, procIds := procIds k + 1, procs := (procs k)(procIds k + 1 \<mapsto> ?p v)\<rparr>) = Some (n, k2)"
    and d: "do { q \<leftarrow> procs k2 (procIds k + 1); d \<leftarrow> defaultTask it q;
               Some (procIds k + 1, set_task d (\<lambda>y. y\<lparr>ctx := set_xreg 10 0 (ctx y)\<rparr>) k2) } = Some (c, k')"
    using assms(1,3,4) by (auto simp: proc_clone_def Process_copy_def add_proc_def bind_eq_Some_iff Let_def)
  note e = newTask_from_effect[OF nt assms(5)]
  obtain va where "procs k2 = (procs k)(procIds k + 1 \<mapsto> (?p v)\<lparr>vmar := va, p_tasks := [n]\<rparr>)"
    using e(2) assms(3) by (auto simp: List.insert_def)
  moreover have "(?p v)\<lparr>vmar := va, p_tasks := [n]\<rparr> = forked freshp (t_proc x) p va n" by (cases freshp) (simp add: forked_def)
  ultimately have pr: "procs k2 = (procs k)(procIds k + 1 \<mapsto> forked freshp (t_proc x) p va n)" by (simp only:)
  have k': "c = procIds k + 1" "k' = set_task n (\<lambda>y. y\<lparr>ctx := set_xreg 10 0 (ctx y)\<rparr>) k2"
    using d defaultTask_single[OF assms(2), of "forked freshp (t_proc x) p va n" n] by (auto simp: pr forked_def)
  have n: "n = taskIds k + 1" using e(1) assms(3) by simp
  show "c = procIds k + 1" by (rule k'(1))
  show "\<exists>va. procs k' = (procs k)(c \<mapsto> forked freshp (t_proc x) p va (taskIds k + 1))"
    using k' pr n by (intro exI[of _ va]) (simp add: set_task_def)
  show "tasks k' = (tasks k)(taskIds k + 1 \<mapsto> (Task_copy c x fresht)\<lparr>ctx := set_xreg 10 0 (set_xreg 2 (xreg (ctx x) 2) (ctx x))\<rparr>)"
    using k' e(3) assms(3) n by (simp add: set_task_def)
  show "\<exists>prio. map_option sc_prior (objs (fs_sched (kfs k)) t) = Some prio \<and> new_task (taskIds k + 1) prio (fs_sched (kfs k)) = Some (fs_sched (kfs k'))"
    using k' e(5) assms(3) n by (simp add: set_task_def)
qed



end
