(* ===== verification/Exec.thy ===== *)
theory Exec
  imports FileCalls
begin

text \<open>
  Memory objects of files, the system call \<open>mmap\<close> (\<open>kernel/syscall/mm.cc\<close>), the program loader
  (\<open>kernel/ld.cc\<close>, \<open>include/ld.hh\<close>) and \<open>execve\<close> (\<open>kernel/syscall/proc.cc\<close>).

  A memory object is alive while a mapping of a process or the list \<open>vmolru\<close> refers to it; the mappings of
  \<open>VMOMapper\<close> end with the call that makes them.  The loader reads a program through the memory object
  of its file, which loads the pages it touches.  An interpreter is loaded by a nested call:
  \<open>depth\<close> is the number of nested calls the stack of the kernel has room for.
\<close>

subsection \<open>The memory object of a file\<close>

text \<open>The number under which a pager reads an inode.\<close>

definition vnode_key :: "INodeRef \<Rightarrow> nat" where
  "vnode_key n = (case n of FNode i \<Rightarrow> 2 * i | RNode i \<Rightarrow> 2 * i + 1)"

definition vmo_live :: "nat \<Rightarrow> Kernel \<Rightarrow> bool" where
  "vmo_live v k \<longleftrightarrow> v \<in> set (vmolru k)
     \<or> list_ex (\<lambda>i. case procs k i of None \<Rightarrow> False | Some p \<Rightarrow> list_ex (\<lambda>m. mp_vmo m = v) (va_mappings (vmar p))) [0..<procIds k + 1]"

definition new_file_vmo :: "INodeRef \<Rightarrow> Kernel \<Rightarrow> (nat \<times> Kernel) option" where
  "new_file_vmo n k =
     do { sz \<leftarrow> v_rFileSize (fs_vfs (kfs k)) n;
          let (pg, h) = new_pager (VnodePager (vnode_key n) Map.empty 0) (kheap k);
          let (v, h) = new_vmo (VMOPaged (replicate (bytes2pages sz) None) pg) h;
          Some (v, k\<lparr>kheap := h, inode_vmo := (inode_vmo k)(n \<mapsto> v),
                     vmolru := (if length (vmolru k) > 10 then tl (vmolru k) else vmolru k) @ [v]\<rparr>) }"

definition File_vmo :: "nat \<Rightarrow> Kernel \<Rightarrow> (nat \<times> Kernel) option" where
  "File_vmo f k =
     do { x \<leftarrow> rd (fs_files (kfs k)) f;
          e \<leftarrow> getEntry x;
          d \<leftarrow> rd (dents (fs_vfs (kfs k))) e;
          case inode_vmo k (nod d) of
            Some v \<Rightarrow> if vmo_live v k then Some (v, k) else new_file_vmo (nod d) k
          | None \<Rightarrow> new_file_vmo (nod d) k }"

definition vmo_pager :: "nat \<Rightarrow> Kernel \<Rightarrow> nat option" where
  "vmo_pager v k = (case vh_vmos (kheap k) v of Some (VMOPaged _ pg) \<Rightarrow> Some pg | _ \<Rightarrow> None)"

subsection \<open>Mapping memory\<close>

text \<open>A new paged object over a swap pager that shows a window of another pager, or zeros.\<close>

definition new_swap_vmo :: "nat option \<Rightarrow> Segment \<Rightarrow> nat \<Rightarrow> vmheap \<Rightarrow> nat \<times> vmheap" where
  "new_swap_vmo backing region pages h =
     (let (pg, h) = new_pager (SwapPager backing Map.empty region) h in new_vmo (VMOPaged (replicate pages None) pg) h)"

text \<open>
  The target of \<open>mmap\<close>: the page of the address, or the top of the heap, which is moved.  The sharing type
  is the byte \<open>flags >> 8\<close>; only its values 0 and 1 have a name, and any other is cloned like 0.  The
  offset is not used.
\<close>

definition mmap_target :: "nat \<Rightarrow> nat \<Rightarrow> Process \<Rightarrow> nat \<times> Process" where
  "mmap_target addr len p =
     (if addr \<noteq> 0 then (addr2pn addr, p)
      else let rt = vm_ceil (heapTop p) in (addr2pn rt, p\<lparr>heapTop := vm_ceil (add64 rt len)\<rparr>))"

definition sys_mmap :: "reader \<Rightarrow> nat \<Rightarrow> nat \<Rightarrow> int \<Rightarrow> int \<Rightarrow> int \<Rightarrow> int \<Rightarrow> Kernel \<Rightarrow> (Kernel \<times> int) option" where
  "sys_mmap rp addr len prot fl fd offset k =
     do { (i, p) \<leftarrow> cur_proc k;
          let (vpn, p1) = mmap_target addr len p;
          let k = set_proc i (\<lambda>_. p1) k;
          let pages = bytes2pages len;
          if pages = 0 then Some (k, - 1)
          else do {
            (pager, k) \<leftarrow> (if fd = - 1 then Some (None, k)
              else do { f \<leftarrow> ofile (p_files p) fd; (v, k) \<leftarrow> File_vmo f k; pg \<leftarrow> vmo_pager v k; Some (Some pg, k) });
            let sharing = fl div 256 mod 256;
            let (vo, h) = (if sharing = 0 \<or> pager = None
              then new_swap_vmo pager \<lparr>seg_l = 0, seg_r = pn2addr pages\<rparr> pages (kheap k)
              else new_vmo (VMOPaged (replicate pages None) (the pager)) (kheap k));
            k \<leftarrow> with_vmar i (VMAR_map rp \<lparr>mp_vpn = vpn, mp_len = pages, mp_offset = 0, mp_vmo = vo,
                   mp_perm = prot2perm (prot_arg prot), mp_mapping = (if fd = - 1 then Mfile else Manon),
                   mp_sharing = (if sharing = 1 then Shared else Privt)\<rparr> False) (k\<lparr>kheap := h\<rparr>);
            Some (k, int (pn2addr vpn)) } }"

text \<open>Advice and locking of memory are ignored.\<close>

definition sys_madvise :: "nat \<Rightarrow> nat \<Rightarrow> int \<Rightarrow> Kernel \<Rightarrow> (Kernel \<times> int) option" where
  "sys_madvise addr len advice k = Some (k, 0)"

definition sys_mlock :: "nat \<Rightarrow> nat \<Rightarrow> Kernel \<Rightarrow> (Kernel \<times> int) option" where
  "sys_mlock addr len k = Some (k, 0)"

definition sys_munlock :: "nat \<Rightarrow> nat \<Rightarrow> Kernel \<Rightarrow> (Kernel \<times> int) option" where
  "sys_munlock addr len k = Some (k, 0)"

subsection \<open>Reading a program\<close>

fun vmo_read :: "reader \<Rightarrow> nat \<Rightarrow> nat \<Rightarrow> nat \<Rightarrow> vmheap \<Rightarrow> (byte list \<times> vmheap) option" where
  "vmo_read rp v at 0 h = Some ([], h)"
| "vmo_read rp v at (Suc n) h =
     do { ((o1, ppn, pages), h) \<leftarrow> VMO_req rp v (at div pageSize) h;
          b \<leftarrow> rd (vh_phys h (ppn + (at div pageSize - o1))) (at mod pageSize);
          (bs, h) \<leftarrow> vmo_read rp v (at + 1) n h;
          Some (b # bs, h) }"

fun le_num :: "byte list \<Rightarrow> nat" where
  "le_num [] = 0"
| "le_num (b # bs) = unat b + 256 * le_num bs"

definition vmo_num :: "reader \<Rightarrow> nat \<Rightarrow> nat \<Rightarrow> nat \<Rightarrow> Kernel \<Rightarrow> (nat \<times> Kernel) option" where
  "vmo_num rp v at n k = do { (bs, h) \<leftarrow> vmo_read rp v at n (kheap k); Some (le_num bs, k\<lparr>kheap := h\<rparr>) }"

text \<open>A string inside the object; the pages of the object bound its length.\<close>

fun vmo_cstr :: "nat \<Rightarrow> reader \<Rightarrow> nat \<Rightarrow> nat \<Rightarrow> Kernel \<Rightarrow> (byte list \<times> Kernel) option" where
  "vmo_cstr 0 rp v at k = None"
| "vmo_cstr (Suc n) rp v at k =
     do { (b, h) \<leftarrow> vmo_read rp v at 1 (kheap k);
          if b = [0] then Some ([], k\<lparr>kheap := h\<rparr>)
          else do { (bs, k) \<leftarrow> vmo_cstr n rp v (at + 1) (k\<lparr>kheap := h\<rparr>); Some (b @ bs, k) } }"

definition vmo_str :: "reader \<Rightarrow> nat \<Rightarrow> nat \<Rightarrow> Kernel \<Rightarrow> (byte list \<times> Kernel) option" where
  "vmo_str rp v at k = do { x \<leftarrow> vh_vmos (kheap k) v; vmo_cstr (VMO_len x * pageSize + 1) rp v at k }"

subsection \<open>The loader\<close>

definition flags2perm :: "nat \<Rightarrow> perm_t" where
  "flags2perm fl = (if bit fl 0 then mask_x else 0) OR (if bit fl 1 then mask_w else 0) OR (if bit fl 2 then mask_r else 0)
     OR mask_v OR mask_u"

record ElfInfo =
  ei_phdr :: nat
  ei_entry :: nat
  ei_phentsize :: nat
  ei_phnum :: nat

definition interpreterBase :: nat where "interpreterBase = 0x70000000"

text \<open>The number of pages of a segment, with the wrap-around of the code.\<close>

definition seg_pages :: "nat \<Rightarrow> nat \<Rightarrow> nat" where
  "seg_pages vaddr memsz = add64 (sub64 (addr2pn (sub64 (add64 vaddr memsz) 1)) (addr2pn vaddr)) 1"

text \<open>
  \<open>!perm&mask::w\<close> groups as \<open>(!perm)&mask::w\<close>: a boolean has no bit in common with the mask, so that
  every segment gets a shadow object.
\<close>

definition load_segment :: "reader \<Rightarrow> nat \<Rightarrow> nat \<Rightarrow> nat \<Rightarrow> nat \<Rightarrow> nat \<Rightarrow> nat \<Rightarrow> nat \<Rightarrow> nat \<Rightarrow> Kernel \<Rightarrow> Kernel option" where
  "load_segment rp i v lbase vaddr memsz fl offset filesz k =
     do { let pages = seg_pages vaddr memsz;
          let perm = flags2perm fl;
          if (if perm = 0 then 1 else 0) AND mask_w \<noteq> 0
          then with_vmar i (VMAR_map rp \<lparr>mp_vpn = addr2pn (add64 lbase vaddr), mp_len = pages, mp_offset = addr2pn offset,
                 mp_vmo = v, mp_perm = perm, mp_mapping = Mfile, mp_sharing = Shared\<rparr> False) k
          else do {
            pg \<leftarrow> vmo_pager v k;
            let (shadow, h) = new_swap_vmo (Some pg) \<lparr>seg_l = offset, seg_r = add64 offset filesz\<rparr> pages (kheap k);
            with_vmar i (VMAR_map rp \<lparr>mp_vpn = addr2pn (add64 lbase vaddr), mp_len = pages, mp_offset = 0,
                 mp_vmo = shadow, mp_perm = perm, mp_mapping = Mfile, mp_sharing = Privt\<rparr> False) (k\<lparr>kheap := h\<rparr>) } }"

text \<open>What the loop over the program headers carries: the end of the program, its entry, the address of the headers.\<close>

record Loading =
  ld_brk :: nat
  ld_entry :: nat
  ld_phdr :: nat

definition PT_LOAD :: nat where "PT_LOAD = 1"
definition PT_INTERP :: nat where "PT_INTERP = 3"
definition PT_PHDR :: nat where "PT_PHDR = 6"

definition phdr_in :: "nat \<Rightarrow> nat \<Rightarrow> nat \<Rightarrow> bool" where
  "phdr_in offset filesz phoff =
     Segment_bool (Segment_and \<lparr>seg_l = offset, seg_r = add64 offset filesz\<rparr> \<lparr>seg_l = phoff, seg_r = phoff\<rparr>)"

definition load_phdr :: "(byte list \<Rightarrow> Kernel \<Rightarrow> (nat \<times> Kernel) option) \<Rightarrow> reader \<Rightarrow> nat \<Rightarrow> nat \<Rightarrow> nat \<Rightarrow> nat \<Rightarrow> nat \<Rightarrow>
    Loading \<times> Kernel \<Rightarrow> (Loading \<times> Kernel) option" where
  "load_phdr interp rp i v lbase phoff j = (\<lambda>(l, k).
     do { let ph = add64 phoff (56 * j);
          (type, k) \<leftarrow> vmo_num rp v ph 4 k;
          if type = PT_INTERP
          then do {
            (offset, k) \<leftarrow> vmo_num rp v (ph + 8) 8 k;
            (nm, k) \<leftarrow> vmo_str rp v offset k;
            (ent, k) \<leftarrow> interp (if nm = str_bytes ''/lib/ld-musl-riscv64-sf.so.1'' then str_bytes ''libc.so'' else nm) k;
            Some (l\<lparr>ld_entry := ent\<rparr>, k) }
          else if type = PT_LOAD
          then do {
            (fl, k) \<leftarrow> vmo_num rp v (ph + 4) 4 k;
            (offset, k) \<leftarrow> vmo_num rp v (ph + 8) 8 k;
            (vaddr, k) \<leftarrow> vmo_num rp v (ph + 16) 8 k;
            (filesz, k) \<leftarrow> vmo_num rp v (ph + 32) 8 k;
            (memsz, k) \<leftarrow> vmo_num rp v (ph + 40) 8 k;
            k \<leftarrow> load_segment rp i v lbase vaddr memsz fl offset filesz k;
            Some (l\<lparr>ld_brk := max (ld_brk l) (add64 vaddr memsz),
                    ld_phdr := (if ld_phdr l = 0 \<and> phdr_in offset filesz phoff
                                then sub64 (add64 vaddr phoff) offset else ld_phdr l)\<rparr>, k) }
          else if type = PT_PHDR
          then do { (vaddr, k) \<leftarrow> vmo_num rp v (ph + 16) 8 k; Some (l\<lparr>ld_phdr := add64 lbase vaddr\<rparr>, k) }
          else Some (l, k) })"

fun load_phdrs :: "(byte list \<Rightarrow> Kernel \<Rightarrow> (nat \<times> Kernel) option) \<Rightarrow> reader \<Rightarrow> nat \<Rightarrow> nat \<Rightarrow> nat \<Rightarrow> nat \<Rightarrow> nat list \<Rightarrow>
    Loading \<times> Kernel \<Rightarrow> (Loading \<times> Kernel) option" where
  "load_phdrs interp rp i v lbase phoff [] lk = Some lk"
| "load_phdrs interp rp i v lbase phoff (j # js) lk =
     do { lk \<leftarrow> load_phdr interp rp i v lbase phoff j lk; load_phdrs interp rp i v lbase phoff js lk }"

text \<open>A file opened for reading; a path that leads nowhere is a null entry, which is dereferenced.\<close>

definition open_exec :: "nat \<Rightarrow> byte list \<Rightarrow> Kernel \<Rightarrow> (nat \<times> Kernel) option" where
  "open_exec junk nm k =
     do { (k, r) \<leftarrow> search_at nm None k;
          e \<leftarrow> r;
          ks \<leftarrow> KStat_entry (fs_vfs (kfs k)) e;
          let (s, f) = add_file (kfs k) (File_ops junk 1 (OEntry ks e 0));
          Some (f, k\<lparr>kfs := s\<rparr>) }"

fun loadElf :: "nat \<Rightarrow> reader \<Rightarrow> nat \<Rightarrow> nat \<Rightarrow> nat \<Rightarrow> nat \<Rightarrow> Kernel \<Rightarrow> ((nat \<times> nat \<times> ElfInfo) \<times> Kernel) option" where
  "loadElf 0 rp junk i f lbase k = None"
| "loadElf (Suc depth) rp junk i f lbase k =
     do { (v, k) \<leftarrow> File_vmo f k;
          (ent, k) \<leftarrow> vmo_num rp v 24 8 k;
          (phoff, k) \<leftarrow> vmo_num rp v 32 8 k;
          (phentsize, k) \<leftarrow> vmo_num rp v 54 2 k;
          (phnum, k) \<leftarrow> vmo_num rp v 56 2 k;
          let interp = (\<lambda>nm k. do { (g, k) \<leftarrow> open_exec junk nm k;
                                    ((e, _, _), k) \<leftarrow> loadElf depth rp junk i g interpreterBase k;
                                    Some (e, k) });
          (l, k) \<leftarrow> load_phdrs interp rp i v lbase phoff [0..<phnum] (\<lparr>ld_brk = 0, ld_entry = ent, ld_phdr = 0\<rparr>, k);
          Some ((add64 lbase (ld_entry l), add64 lbase (ld_brk l),
                 \<lparr>ei_phdr = ld_phdr l, ei_entry = ent, ei_phentsize = phentsize, ei_phnum = phnum\<rparr>), k) }"

definition isElf :: "nat \<Rightarrow> Kernel \<Rightarrow> (bool \<times> Kernel) option" where
  "isElf f k =
     do { (oc, v, r, s) \<leftarrow> File_read (kfs k) f 64 None True;
          Some (r = 64 \<and> take 4 v = [0x7f, 0x45, 0x4c, 0x46], k\<lparr>kfs := s\<rparr>) }"

subsection \<open>Executing a program\<close>

text \<open>
  The stack of a new program, written downwards from its top: a marker, eight zero bytes, the argument and
  environment strings, the auxiliary vector, the two tables of addresses and the number of arguments.
  An array is preceded by a step to a multiple of eight.  The result is the new stack pointer.
\<close>

fun stream_strs :: "reader \<Rightarrow> nat \<Rightarrow> byte list list \<Rightarrow> Writer \<times> Kernel \<Rightarrow> (nat list \<times> Writer \<times> Kernel) option" where
  "stream_strs rp i [] wk = Some ([], wk)"
| "stream_strs rp i (s # ss) wk =
     do { (w, k) \<leftarrow> stream_put rp i s wk;
          (as, wk) \<leftarrow> stream_strs rp i ss (w, k);
          Some (w_vaddr w # as, wk) }"

definition stream_array :: "reader \<Rightarrow> nat \<Rightarrow> byte list \<Rightarrow> Writer \<times> Kernel \<Rightarrow> (Writer \<times> Kernel) option" where
  "stream_array rp i b = (\<lambda>(w, k).
     let part = w_vaddr w mod 8
     in stream_put rp i b (w\<lparr>w_vaddr := (if w_reverse w then sub64 (w_vaddr w) part else add64 (w_vaddr w) part)\<rparr>, k))"

definition auxv_bytes :: "ElfInfo \<Rightarrow> nat \<Rightarrow> byte list" where
  "auxv_bytes info rnd = concat (map (\<lambda>(t, v). enc64 t @ enc64 v)
     ((if ei_phdr info \<noteq> 0 then [(3, ei_phdr info), (4, ei_phentsize info), (5, ei_phnum info)] else [])
      @ [(6, pageSize), (7, interpreterBase), (9, ei_entry info), (25, rnd), (0, 0)]))"

definition exec_stack :: "reader \<Rightarrow> nat \<Rightarrow> byte list list \<Rightarrow> byte list list \<Rightarrow> ElfInfo \<Rightarrow> Kernel \<Rightarrow> (nat \<times> Kernel) option" where
  "exec_stack rp i args envs info k =
     do { wk \<leftarrow> stream_put rp i (enc64 0x114514) (\<lparr>w_vaddr = UserStackDefault, w_reverse = True\<rparr>, k);
          wk \<leftarrow> stream_put rp i (enc64 0) wk;
          let rnd = w_vaddr (fst wk);
          (argv, wk) \<leftarrow> stream_strs rp i args wk;
          (envps, wk) \<leftarrow> stream_strs rp i envs wk;
          wk \<leftarrow> stream_array rp i (auxv_bytes info rnd) wk;
          wk \<leftarrow> stream_put rp i (enc64 0) wk;
          wk \<leftarrow> stream_put rp i (concat (map enc64 envps)) wk;
          wk \<leftarrow> stream_array rp i (concat (map enc64 argv) @ enc64 0) wk;
          (w, k) \<leftarrow> stream_put rp i (enc64 (length args)) wk;
          Some (w_vaddr w, k) }"

definition execve_file :: "nat \<Rightarrow> reader \<Rightarrow> nat \<Rightarrow> nat \<Rightarrow> byte list list \<Rightarrow> byte list list \<Rightarrow> Kernel \<Rightarrow> (Kernel \<times> int) option" where
  "execve_file depth rp junk f args envs k =
     do { (t, x) \<leftarrow> cur_task k;
          let i = t_proc x;
          k \<leftarrow> with_vmar i VMAR_reset k;
          ((ent, pbrk, info), k) \<leftarrow> loadElf depth rp junk i f 0 k;
          let k = set_proc i (\<lambda>p. p\<lparr>heapTop := pbrk, heapBottom := pbrk\<rparr>) k;
          (sp, k) \<leftarrow> exec_stack rp i args envs info k;
          Some (set_task t (\<lambda>x. x\<lparr>ctx := \<lparr>gpr = (replicate 31 0)[1 := sp], pc = ent\<rparr>\<rparr>) k, int sp) }"

text \<open>The strings of a table of addresses that ends with a null address, each in a buffer of \<open>n + 1\<close> bytes.\<close>

partial_function (option) read_strs :: "nat \<Rightarrow> nat \<Rightarrow> nat \<Rightarrow> Kernel \<Rightarrow> byte list list option" where
  "read_strs i n a k =
     do { b \<leftarrow> get_user i a 8 k;
          if dec64 b 0 = 0 then Some []
          else do {
            p \<leftarrow> procs k i;
            s \<leftarrow> copyinstr (dec64 b 0) n (vmar p, kheap k);
            ss \<leftarrow> read_strs i n (add64 a 8) k;
            Some (s # ss) } }"

text \<open>A file that is no program is given to the shell.\<close>

definition sys_execve :: "nat \<Rightarrow> reader \<Rightarrow> nat \<Rightarrow> nat \<Rightarrow> nat \<Rightarrow> nat \<Rightarrow> Kernel \<Rightarrow> (Kernel \<times> int) option" where
  "sys_execve depth rp junk pathuva argv envp k =
     do { (i, _) \<leftarrow> cur_proc k;
          nm \<leftarrow> user_path pathuva FAT32_MAX_PATH k;
          (k, exe) \<leftarrow> with_path nm None (\<lambda>c q w. do { a \<leftarrow> pathAbsolute w q; Some (w, a) }) k;
          (f, k) \<leftarrow> open_exec junk nm (set_proc i (\<lambda>p. p\<lparr>p_exe := exe\<rparr>) k);
          (elf, k) \<leftarrow> isElf f k;
          (f, k) \<leftarrow> (if elf then Some (f, k) else open_exec junk (str_bytes ''/busybox'') k);
          args \<leftarrow> read_strs i 200 argv k;
          envs \<leftarrow> (if envp = 0 then Some [] else read_strs i 100 envp k);
          execve_file depth rp junk f ((if elf then [] else [str_bytes ''sh'' @ [0]]) @ args) envs k }"

end
