(* ===== verification/PagedSpec.thy ===== *)
theory PagedSpec
  imports VmarSpec
begin

text \<open>
  Mapping paged memory objects.  What \<open>map\<close> needs of a pager is the interface \<open>page_source\<close>: loading a
  page gives an allocated frame with a known content, takes a bounded number of free frames and leaves
  the frames in use alone.  The two kinds of swap pagers the kernel makes, over nothing and over
  a window of a file, provide it, so that every page of such a mapping translates to a frame with its content.
\<close>

subsection \<open>The interface of a pager\<close>

definition grown :: "nat \<Rightarrow> nat set \<Rightarrow> nat set \<Rightarrow> vmheap \<Rightarrow> nat set \<Rightarrow> vmheap \<Rightarrow> bool" where
  "grown c F A h F' h' \<longleftrightarrow> F' \<subseteq> F \<and> card F \<le> card F' + c \<and> frames_inv (pt_pm (vh_pt h')) F' (A \<union> (F - F'))
     \<and> (\<forall>f \<in> A. vh_phys h' f = vh_phys h f) \<and> pt_mem (vh_pt h') = pt_mem (vh_pt h) \<and> vh_vmos h' = vh_vmos h"

locale page_source =
  fixes rp :: reader and pg :: nat and good :: "nat set \<Rightarrow> vmheap \<Rightarrow> bool" and content :: "nat \<Rightarrow> byte list" and cost :: nat
  assumes load: "good A h \<Longrightarrow> frames_inv (pt_pm (vh_pt h)) F A \<Longrightarrow> finite F \<Longrightarrow> cost \<le> card F \<Longrightarrow>
      \<exists>p h' F'. pager_load rp pg j h = Some (p, h') \<and> grown cost F A h F' h' \<and> good (A \<union> (F - F')) h'
        \<and> p \<in> A \<union> (F - F') \<and> vh_phys h' p = content j"
    and keep: "good A h \<Longrightarrow> A \<subseteq> A' \<Longrightarrow> vh_pagers h' = vh_pagers h \<Longrightarrow> (\<forall>f \<in> A. vh_phys h' f = vh_phys h f) \<Longrightarrow> good A' h'"
begin

lemma map_pass:
  assumes g: "good A h" and pt: "pt_inv 2 (vh_pt h) (va_root v) F A" "A \<subseteq> {..< 2 ^ 44}" "cost + 10 \<le> card F"
    and m: "vh_vmos h (mp_vmo m) = Some (VMOPaged ps pg)" "mp_offset m = 0" "i < mp_len m" "length ps = mp_len m" "ps ! i = None"
    and rng: "mp_vpn m + mp_len m \<le> 2 ^ 27" "perm_ok (mp_perm m)" "bit (mp_perm m) 0"
    and free: "walk 2 (pt_mem (vh_pt h)) (va_root v) (mp_vpn m + i) = None"
  shows "\<exists>p h' F'. map_loop (Suc n) rp m i (v, h) = map_loop n rp m (i + 1) (v, h')
    \<and> good (A \<union> (F - F')) h' \<and> pt_inv 2 (vh_pt h') (va_root v) F' (A \<union> (F - F')) \<and> F' \<subseteq> F \<and> card F \<le> card F' + (cost + 10)
    \<and> vh_vmos h' (mp_vmo m) = Some (VMOPaged (ps[i := Some p]) pg) \<and> p \<in> A \<union> (F - F') \<and> vh_phys h' p = content i
    \<and> (\<forall>f \<in> A. vh_phys h' f = vh_phys h f)
    \<and> (\<forall>x < 2 ^ 27. walk 2 (pt_mem (vh_pt h')) (va_root v) x =
         (if x = mp_vpn m + i then Some (p, mp_perm m) else walk 2 (pt_mem (vh_pt h)) (va_root v) x))"
proof -
  have fi: "frames_inv (pt_pm (vh_pt h)) F A" "finite F" "F \<subseteq> {..< 2 ^ 44}" using pt(1) by (auto simp: pt_inv_def)
  obtain p h1 F1 where l: "pager_load rp pg i h = Some (p, h1)" "grown cost F A h F1 h1" "good (A \<union> (F - F1)) h1"
      "p \<in> A \<union> (F - F1)" "vh_phys h1 p = content i"
    using load[OF g fi(1,2), of i] pt(3) by auto
  let ?A = "A \<union> (F - F1)" and ?h = "h1\<lparr>vh_vmos := (vh_vmos h1)(mp_vmo m \<mapsto> VMOPaged (ps[i := Some p]) pg)\<rparr>"
  have G: "F1 \<subseteq> F" "card F \<le> card F1 + cost" "frames_inv (pt_pm (vh_pt h1)) F1 ?A" "\<forall>f \<in> A. vh_phys h1 f = vh_phys h f"
      "pt_mem (vh_pt h1) = pt_mem (vh_pt h)" using l(2) by (auto simp: grown_def)
  have p: "p < 2 ^ 44" using l(4) pt(2) fi(3) G(1) by auto
  have pi: "pt_inv 2 (vh_pt ?h) (va_root v) F1 ?A" using pt(1) G fi by (auto simp: pt_inv_def finite_subset)
  have "walk 2 (pt_mem (vh_pt ?h)) (va_root v) (mp_vpn m + i) = None" using free G(5) by simp
  then have ns: "nosplit 2 (pt_mem (vh_pt ?h)) (va_root v) (mp_vpn m + i) 1" by (rule nosplit_unmapped)
  obtain st F2 where c: "PageTable_createMapping (va_root v) (mp_vpn m + i) p 1 (mp_perm m) (vh_pt ?h) = Some st"
      "pt_inv 2 st (va_root v) F2 (?A \<union> (F1 - F2))" "F2 \<subseteq> F1" "card F1 \<le> card F2 + 10"
      "\<forall>x < 2 ^ 27. walk 2 (pt_mem st) (va_root v) x =
         (if mp_vpn m + i \<le> x \<and> x < mp_vpn m + i + 1 then (if bit (mp_perm m) 0 then Some (p + (x - (mp_vpn m + i)), mp_perm m) else None)
          else walk 2 (pt_mem (vh_pt ?h)) (va_root v) x)"
    using createMapping_window_card[OF pi _ _ _ _ rng(2) ns, of p] rng(1) m(3) p pt(3) G(2) by auto
  have lt: "i < 2 ^ 64" "mp_vpn m + i < 2 ^ 64" using rng(1) m(3) by auto
  have "map_loop (Suc n) rp m i (v, h) = map_loop n rp m (i + 1) (v, ?h\<lparr>vh_pt := st\<rparr>)"
    using m l(1) c(1) lt rng(1)
    by (subst map_loop.simps) (simp add: mp_req_def VMO_req_def va_createMapping_def acc_simps add64_in_range sub64_in_range Let_def)
  moreover have "?A \<union> (F1 - F2) = A \<union> (F - F2)" using G(1) c(3) by auto
  moreover have "good (A \<union> (F - F2)) (?h\<lparr>vh_pt := st\<rparr>)" by (rule keep[OF l(3)]) (use c(3) in auto)
  moreover have "p \<in> A \<union> (F - F2)" using l(4) c(3) by auto
  moreover have "card F \<le> card F2 + (cost + 10)" using G(2) c(4) by simp
  ultimately show ?thesis using c(2,3,5) G l(5) rng(3)
    by (intro exI[of _ p] exI[of _ "?h\<lparr>vh_pt := st\<rparr>"] exI[of _ F2]) auto
qed

text \<open>The pages below \<open>i\<close> of a mapping are translated to frames with their content.\<close>

definition backed :: "nat \<Rightarrow> PageMapping \<Rightarrow> nat \<Rightarrow> nat set \<Rightarrow> vmheap \<Rightarrow> bool" where
  "backed root m i A h \<longleftrightarrow> (\<forall>q < i. \<exists>f \<in> A. walk 2 (pt_mem (vh_pt h)) root (mp_vpn m + q) = Some (f, mp_perm m)
     \<and> vh_phys h f = content q)"

lemma backed_step:
  assumes "backed root m i A h" "A \<subseteq> A'" "\<forall>f \<in> A. vh_phys h' f = vh_phys h f" "p \<in> A'" "vh_phys h' p = content i"
    and "mp_vpn m + i < 2 ^ 27"
    and "\<forall>x < 2 ^ 27. walk 2 (pt_mem (vh_pt h')) root x =
         (if x = mp_vpn m + i then Some (p, mp_perm m) else walk 2 (pt_mem (vh_pt h)) root x)"
  shows "backed root m (i + 1) A' h'"
proof -
  have "\<exists>f \<in> A'. walk 2 (pt_mem (vh_pt h')) root (mp_vpn m + q) = Some (f, mp_perm m) \<and> vh_phys h' f = content q" if q: "q < i + 1" for q
  proof (cases "q = i")
    case True
    then show ?thesis using assms(4-7) by auto
  next
    case False
    then have "q < i" "mp_vpn m + q < 2 ^ 27" using q assms(6) by auto
    then show ?thesis using assms(1-3) assms(7) False unfolding backed_def by fastforce
  qed
  then show ?thesis by (simp add: backed_def)
qed

lemma map_loop_paged:
  assumes "good A h" "pt_inv 2 (vh_pt h) (va_root v) F A" "A \<subseteq> {..< 2 ^ 44}" "(cost + 10) * n \<le> card F"
    and "vh_vmos h (mp_vmo m) = Some (VMOPaged ps pg)" "mp_offset m = 0" "i + n = mp_len m" "length ps = mp_len m"
    and "\<forall>q. i \<le> q \<longrightarrow> q < mp_len m \<longrightarrow> ps ! q = None \<and> walk 2 (pt_mem (vh_pt h)) (va_root v) (mp_vpn m + q) = None"
    and "mp_vpn m + mp_len m \<le> 2 ^ 27" "perm_ok (mp_perm m)" "bit (mp_perm m) 0" "backed (va_root v) m i A h"
  shows "\<exists>h' F'. map_loop n rp m i (v, h) = Some (v, h') \<and> pt_inv 2 (vh_pt h') (va_root v) F' (A \<union> (F - F')) \<and> F' \<subseteq> F
    \<and> backed (va_root v) m (mp_len m) (A \<union> (F - F')) h' \<and> (\<forall>f \<in> A. vh_phys h' f = vh_phys h f)
    \<and> (\<forall>x < 2 ^ 27. x < mp_vpn m + i \<or> mp_vpn m + mp_len m \<le> x \<longrightarrow>
         walk 2 (pt_mem (vh_pt h')) (va_root v) x = walk 2 (pt_mem (vh_pt h)) (va_root v) x)"
  using assms
proof (induction n arbitrary: i h F A ps)
  case 0
  then show ?case using map_loop_stop[of i m 0 rp v h] by (intro exI[of _ h] exI[of _ F]) simp
next
  case (Suc n)
  have i: "i < mp_len m" "mp_vpn m + i < 2 ^ 27" using Suc.prems(7,10) by auto
  obtain p h1 F1 where s: "map_loop (Suc n) rp m i (v, h) = map_loop n rp m (i + 1) (v, h1)"
      "good (A \<union> (F - F1)) h1" "pt_inv 2 (vh_pt h1) (va_root v) F1 (A \<union> (F - F1))" "F1 \<subseteq> F" "card F \<le> card F1 + (cost + 10)"
      "vh_vmos h1 (mp_vmo m) = Some (VMOPaged (ps[i := Some p]) pg)" "p \<in> A \<union> (F - F1)" "vh_phys h1 p = content i"
      "\<forall>f \<in> A. vh_phys h1 f = vh_phys h f"
      "\<forall>x < 2 ^ 27. walk 2 (pt_mem (vh_pt h1)) (va_root v) x =
         (if x = mp_vpn m + i then Some (p, mp_perm m) else walk 2 (pt_mem (vh_pt h)) (va_root v) x)"
    using map_pass[OF Suc.prems(1-3) _ Suc.prems(5,6) i(1) Suc.prems(8) _ Suc.prems(10-12), of n] Suc.prems(4,9) i by auto
  let ?A = "A \<union> (F - F1)"
  have "F \<subseteq> {..< 2 ^ 44}" using Suc.prems(2) by (simp add: pt_inv_def)
  then have A: "?A \<subseteq> {..< 2 ^ 44}" using Suc.prems(3) by blast
  have c: "(cost + 10) * n \<le> card F1" using Suc.prems(4) s(5) by simp
  have u: "\<forall>q. i + 1 \<le> q \<longrightarrow> q < mp_len m \<longrightarrow> ps[i := Some p] ! q = None \<and> walk 2 (pt_mem (vh_pt h1)) (va_root v) (mp_vpn m + q) = None"
    using Suc.prems(9,10) s(10) by auto
  have b: "backed (va_root v) m (i + 1) ?A h1" by (rule backed_step[OF Suc.prems(13) _ s(9,7,8) i(2) s(10)]) simp
  obtain h2 F2 where r: "map_loop n rp m (i + 1) (v, h1) = Some (v, h2)" "pt_inv 2 (vh_pt h2) (va_root v) F2 (?A \<union> (F1 - F2))" "F2 \<subseteq> F1"
      "backed (va_root v) m (mp_len m) (?A \<union> (F1 - F2)) h2" "\<forall>f \<in> ?A. vh_phys h2 f = vh_phys h1 f"
      "\<forall>x < 2 ^ 27. x < mp_vpn m + (i + 1) \<or> mp_vpn m + mp_len m \<le> x \<longrightarrow>
         walk 2 (pt_mem (vh_pt h2)) (va_root v) x = walk 2 (pt_mem (vh_pt h1)) (va_root v) x"
    using Suc.IH[OF s(2,3) A c s(6) Suc.prems(6) _ _ u Suc.prems(10-12) b] Suc.prems(7,8) by auto
  have "?A \<union> (F1 - F2) = A \<union> (F - F2)" using s(4) r(3) by auto
  then show ?case using r s(1,4,9,10) i Suc.prems(7) by (intro exI[of _ h2] exI[of _ F2]) auto
qed

lemma map_paged:
  assumes "good A h" "pt_inv 2 (vh_pt h) (va_root v) F A" "A \<subseteq> {..< 2 ^ 44}" "(cost + 10) * mp_len m \<le> card F"
    and "vh_vmos h (mp_vmo m) = Some (VMOPaged (replicate (mp_len m) None) pg)" "mp_offset m = 0"
    and "\<forall>q < mp_len m. walk 2 (pt_mem (vh_pt h)) (va_root v) (mp_vpn m + q) = None"
    and "mp_vpn m + mp_len m \<le> 2 ^ 27" "perm_ok (mp_perm m)" "bit (mp_perm m) 0"
  shows "\<exists>v' h' F'. VMAR_map rp m False (v, h) = Some (v', h') \<and> v' = v\<lparr>va_mappings := set_insert m (va_mappings v)\<rparr>
    \<and> pt_inv 2 (vh_pt h') (va_root v') F' (A \<union> (F - F')) \<and> (\<forall>f \<in> A. vh_phys h' f = vh_phys h f)
    \<and> (\<forall>q < mp_len m. \<exists>f. walk 2 (pt_mem (vh_pt h')) (va_root v') (mp_vpn m + q) = Some (f, mp_perm m) \<and> f < 2 ^ 44 \<and> vh_phys h' f = content q)
    \<and> (\<forall>x < 2 ^ 27. x < mp_vpn m \<or> mp_vpn m + mp_len m \<le> x \<longrightarrow>
         walk 2 (pt_mem (vh_pt h')) (va_root v') x = walk 2 (pt_mem (vh_pt h)) (va_root v) x)"
proof -
  let ?v = "v\<lparr>va_mappings := set_insert m (va_mappings v)\<rparr>"
  have "backed (va_root ?v) m 0 A h" by (simp add: backed_def)
  then obtain h' F' where "map_loop (mp_len m) rp m 0 (?v, h) = Some (?v, h')" "pt_inv 2 (vh_pt h') (va_root ?v) F' (A \<union> (F - F'))"
      "backed (va_root ?v) m (mp_len m) (A \<union> (F - F')) h'" "\<forall>f \<in> A. vh_phys h' f = vh_phys h f"
      "\<forall>x < 2 ^ 27. x < mp_vpn m + 0 \<or> mp_vpn m + mp_len m \<le> x \<longrightarrow>
         walk 2 (pt_mem (vh_pt h')) (va_root ?v) x = walk 2 (pt_mem (vh_pt h)) (va_root ?v) x"
    using map_loop_paged[of A h ?v F "mp_len m" m "replicate (mp_len m) None" 0] assms by auto
  moreover have "A \<union> (F - F') \<subseteq> {..< 2 ^ 44}" using assms(2,3) by (auto simp: pt_inv_def)
  ultimately show ?thesis by (intro exI[of _ ?v] exI[of _ h'] exI[of _ F']) (fastforce simp: VMAR_map_def backed_def)
qed

end

subsection \<open>Swap pagers over nothing\<close>

definition anon_ok :: "nat \<Rightarrow> nat set \<Rightarrow> vmheap \<Rightarrow> bool" where
  "anon_ok pg A h \<longleftrightarrow> (\<exists>pages region. vh_pagers h pg = Some (SwapPager None pages region)
     \<and> (\<forall>j p. pages j = Some p \<longrightarrow> p \<in> A \<and> vh_phys h p = replicate 4096 0))"

lemma anon_load:
  assumes "anon_ok pg A h" "frames_inv (pt_pm (vh_pt h)) F A" "finite F" "1 \<le> card F"
  shows "\<exists>p h' F'. pager_load rp pg j h = Some (p, h') \<and> grown 1 F A h F' h' \<and> anon_ok pg (A \<union> (F - F')) h'
    \<and> p \<in> A \<union> (F - F') \<and> vh_phys h' p = replicate 4096 0"
proof -
  obtain pages region where g: "vh_pagers h pg = Some (SwapPager None pages region)"
      "\<And>j p. pages j = Some p \<Longrightarrow> p \<in> A \<and> vh_phys h p = replicate 4096 0"
    using assms(1) by (auto simp: anon_ok_def)
  show ?thesis
  proof (cases "pages j")
    case (Some p)
    then show ?thesis using g assms
      by (intro exI[of _ p] exI[of _ h] exI[of _ F]) (auto simp: pager_load_def swap_load_def grown_def)
  next
    case None
    have "F \<noteq> {}" using assms(4) by auto
    then obtain p pm where p: "new_PageBuf h = Some (p, h\<lparr>vh_pt := (vh_pt h)\<lparr>pt_pm := pm\<rparr>\<rparr>)" "p \<in> F" "p \<notin> A"
        "frames_inv pm (F - {p}) (insert p A)"
      using new_PageBuf_Ex[OF assms(2)] by metis
    let ?h = "(fillzero p (h\<lparr>vh_pt := (vh_pt h)\<lparr>pt_pm := pm\<rparr>\<rparr>))\<lparr>vh_pagers := (vh_pagers h)(pg \<mapsto> SwapPager None (pages(j \<mapsto> p)) region)\<rparr>"
    have "pager_load rp pg j h = Some (p, ?h)"
      using g(1) None p(1) by (simp add: pager_load_def swap_load_def pager_loadTo_def fillzero_def Let_def)
    moreover have "grown 1 F A h (F - {p}) ?h" using p assms(3) by (auto simp: grown_def fillzero_def double_diff)
    moreover have "anon_ok pg (A \<union> (F - (F - {p}))) ?h" using g p by (auto simp: anon_ok_def fillzero_def pageSize_def)
    moreover have "p \<in> A \<union> (F - (F - {p}))" "vh_phys ?h p = replicate 4096 0" using p(2) by (simp_all add: fillzero_def pageSize_def)
    ultimately show ?thesis by blast
  qed
qed

interpretation anon: page_source rp pg "anon_ok pg" "\<lambda>_. replicate 4096 0" 1 for rp pg
  by unfold_locales (rule anon_load, assumption+, fastforce simp: anon_ok_def)

subsection \<open>Swap pagers over a window of a file\<close>

lemma vnode_loadTo_ok:
  assumes "vnode_ok rp b ino A h" "frames_inv (pt_pm (vh_pt h)) F (insert q A)" "finite F" "F \<noteq> {}" "q \<notin> A" "q \<notin> F"
  shows "\<exists>h' F'. vnode_loadTo rp b j q h = Some h' \<and> F' \<subseteq> F \<and> card F \<le> card F' + 1
    \<and> frames_inv (pt_pm (vh_pt h')) F' (insert q A \<union> (F - F')) \<and> vnode_ok rp b ino (A \<union> (F - F')) h'
    \<and> vh_phys h' q = rp ino j \<and> (\<forall>f \<in> A. vh_phys h' f = vh_phys h f) \<and> pt_mem (vh_pt h') = pt_mem (vh_pt h)
    \<and> vh_vmos h' = vh_vmos h \<and> (\<forall>x. x \<noteq> b \<longrightarrow> vh_pagers h' x = vh_pagers h x)"
proof -
  obtain fp rc where v: "vh_pagers h b = Some (VnodePager ino fp rc)"
      "\<And>j p. fp j = Some p \<Longrightarrow> p \<in> A \<and> vh_phys h p = rp ino j"
    using assms(1) by (auto simp: vnode_ok_def)
  show ?thesis
  proof (cases "fp j")
    case (Some src)
    let ?h = "fillwith q src (h\<lparr>vh_pagers := (vh_pagers h)(b \<mapsto> VnodePager ino fp (rc + 1))\<rparr>)"
    have "vnode_loadTo rp b j q h = Some ?h" using v(1) Some by (simp add: vnode_loadTo_def vnode_load_def)
    moreover have "vnode_ok rp b ino A ?h" using v(2) assms(5) by (auto simp: vnode_ok_def fillwith_def)
    ultimately show ?thesis using v(2)[OF Some] assms(2,5) by (intro exI[of _ ?h] exI[of _ F]) (auto simp: fillwith_def)
  next
    case None
    obtain p pm where p: "new_PageBuf h = Some (p, h\<lparr>vh_pt := (vh_pt h)\<lparr>pt_pm := pm\<rparr>\<rparr>)" "p \<in> F" "p \<notin> insert q A"
        "frames_inv pm (F - {p}) (insert p (insert q A))"
      using new_PageBuf_Ex[OF assms(2,4)] by metis
    let ?h = "fillwith q p (h\<lparr>vh_pt := (vh_pt h)\<lparr>pt_pm := pm\<rparr>, vh_phys := (vh_phys h)(p := rp ino j),
      vh_pagers := (vh_pagers h)(b \<mapsto> VnodePager ino (fp(j \<mapsto> p)) (rc + 1))\<rparr>)"
    have "alloc 1 (pt_pm (vh_pt h)) = Some (p, pm)" using p(1)
      by (auto simp: new_PageBuf_def bind_eq_Some_iff dest: arg_cong[where f = "\<lambda>h. pt_pm (vh_pt h)"])
    then have "vnode_loadTo rp b j q h = Some ?h" using v(1) None by (simp add: vnode_loadTo_def vnode_load_def new_PageBuf_def)
    moreover have "vnode_ok rp b ino (insert p A) ?h" using v(2) p(3) assms(5) by (auto simp: vnode_ok_def fillwith_def)
    moreover have "F - (F - {p}) = {p}" using p(2) by auto
    ultimately show ?thesis using p assms(3,5)
      by (intro exI[of _ ?h] exI[of _ "F - {p}"]) (auto simp: fillwith_def insert_commute)
  qed
qed

lemma window_zeroed:
  assumes q: "l div 4096 + j \<le> r div 4096" and rng: "l < 2 ^ 63" "r < 2 ^ 63" and fl: "\<And>j. length (rp ino j) = 4096"
    and h: "vh_phys h p = rp ino (l div 4096 + j)"
  shows "vh_phys (let a = pn2addr (l div 4096 + j); h2 = (if j = 0 then zero_part p 0 (sub64 l a) h else h)
      in if l div 4096 + j = r div 4096 then zero_part p (sub64 r a) (pageSize - sub64 r a) h2 else h2) p
    = window_page (rp ino) l r j"
proof -
  let ?q = "l div 4096 + j"
  have qs: "?q < 2 ^ 52" using q rng(2) by (simp add: div_le_mono order.strict_trans1)
  have s0: "j = 0 \<Longrightarrow> sub64 l (pn2addr ?q) = l mod 4096"
    using pn2addr_small[OF qs] rng(1) by (simp add: sub64_in_range minus_div_mult_eq_mod)
  have s1: "?q = r div 4096 \<Longrightarrow> sub64 r (pn2addr ?q) = r mod 4096"
    using pn2addr_small[OF qs] rng(2) by (simp add: sub64_in_range minus_div_mult_eq_mod)
  let ?x = "if j = 0 then replicate (l mod 4096) 0 @ drop (l mod 4096) (rp ino ?q) else rp ino ?q"
  let ?y = "if ?q = r div 4096 then take (r mod 4096) ?x @ replicate (4096 - r mod 4096) 0 else ?x"
  have lx: "length ?x = 4096" using fl by (simp add: less_imp_le)
  let ?h2 = "if j = 0 then zero_part p 0 (sub64 l (pn2addr ?q)) h else h"
  have x: "vh_phys ?h2 p = ?x" using s0 h by (simp add: zero_part_def)
  have "vh_phys (if ?q = r div 4096 then zero_part p (sub64 r (pn2addr ?q)) (pageSize - sub64 r (pn2addr ?q)) ?h2 else ?h2) p = ?y"
  proof (cases "?q = r div 4096")
    case True
    then have "vh_phys (zero_part p (sub64 r (pn2addr ?q)) (pageSize - sub64 r (pn2addr ?q)) ?h2) p
      = take (r mod 4096) (vh_phys ?h2 p) @ replicate (4096 - r mod 4096) 0"
      using s1 x lx by (simp add: zero_part_def pageSize_def)
    then show ?thesis using True x by simp
  next
    case False
    then show ?thesis using x by simp
  qed
  also have "?y = window_page (rp ino) l r j" by (rule window_inside[OF refl q fl refl refl])
  finally show ?thesis unfolding Let_def .
qed

definition window_ok :: "reader \<Rightarrow> nat \<Rightarrow> nat \<Rightarrow> nat \<Rightarrow> nat \<Rightarrow> nat \<Rightarrow> nat set \<Rightarrow> vmheap \<Rightarrow> bool" where
  "window_ok rp pg b ino l r A h \<longleftrightarrow> b < pg \<and> l < 2 ^ 63 \<and> r < 2 ^ 63 \<and> (\<forall>j. length (rp ino j) = 4096) \<and> vnode_ok rp b ino A h
     \<and> (\<exists>pages. vh_pagers h pg = Some (SwapPager (Some b) pages \<lparr>seg_l = l, seg_r = r\<rparr>)
          \<and> (\<forall>j p. pages j = Some p \<longrightarrow> p \<in> A \<and> vh_phys h p = window_page (rp ino) l r j))"

text \<open>A page that is not loaded yet is filled in a new frame.\<close>

lemma window_fill:
  assumes w: "window_ok rp pg b ino l r A h" and sw: "vh_pagers h pg = Some (SwapPager (Some b) pages \<lparr>seg_l = l, seg_r = r\<rparr>)"
    and fr: "pages j = None" "frames_inv (pt_pm (vh_pt h)) F (insert q A)" "finite F" "F \<noteq> {}" "q \<notin> A" "q \<notin> F"
  shows "\<exists>h' F'. pager_loadTo rp pg j q h = Some h' \<and> F' \<subseteq> F \<and> card F \<le> card F' + 1
    \<and> frames_inv (pt_pm (vh_pt h')) F' (insert q A \<union> (F - F')) \<and> vnode_ok rp b ino (A \<union> (F - F')) h'
    \<and> vh_phys h' q = window_page (rp ino) l r j \<and> (\<forall>f \<in> A. vh_phys h' f = vh_phys h f) \<and> pt_mem (vh_pt h') = pt_mem (vh_pt h)
    \<and> vh_vmos h' = vh_vmos h \<and> (\<forall>x. x \<noteq> b \<longrightarrow> vh_pagers h' x = vh_pagers h x)"
proof -
  let ?q = "l div 4096 + j"
  have vn: "vnode_ok rp b ino A h" "b < pg" "l < 2 ^ 63" "r < 2 ^ 63" "\<And>j. length (rp ino j) = 4096"
    using w by (auto simp: window_ok_def)
  show ?thesis
  proof (cases "?q \<le> r div 4096")
    case False
    then have "pager_loadTo rp pg j q h = Some (fillzero q h)" using sw fr(1) by (simp add: pager_loadTo_def addr2pn_def Let_def)
    moreover have "vnode_ok rp b ino A (fillzero q h)" using vn(1) fr(5) by (auto simp: vnode_ok_def fillzero_def)
    ultimately show ?thesis using window_outside[of r l j "rp ino"] False fr(2,5)
      by (intro exI[of _ "fillzero q h"] exI[of _ F]) (auto simp: fillzero_def pageSize_def)
  next
    case True
    obtain h1 F1 where h1: "vnode_loadTo rp b ?q q h = Some h1" "F1 \<subseteq> F" "card F \<le> card F1 + 1"
        "frames_inv (pt_pm (vh_pt h1)) F1 (insert q A \<union> (F - F1))" "vnode_ok rp b ino (A \<union> (F - F1)) h1"
        "vh_phys h1 q = rp ino ?q" "\<forall>f \<in> A. vh_phys h1 f = vh_phys h f" "pt_mem (vh_pt h1) = pt_mem (vh_pt h)"
        "vh_vmos h1 = vh_vmos h" "\<forall>x. x \<noteq> b \<longrightarrow> vh_pagers h1 x = vh_pagers h x"
      using vnode_loadTo_ok[OF vn(1) fr(2-6), of ?q] by blast
    obtain fp rc where fp: "vh_pagers h b = Some (VnodePager ino fp rc)" using vn(1) by (auto simp: vnode_ok_def)
    obtain k where k: "pg = Suc k" using vn(2) by (cases pg) auto
    let ?h2 = "if j = 0 then zero_part q 0 (sub64 l (pn2addr ?q)) h1 else h1"
    let ?h3 = "if ?q = r div 4096 then zero_part q (sub64 r (pn2addr ?q)) (pageSize - sub64 r (pn2addr ?q)) ?h2 else ?h2"
    have ld: "pager_loadTo rp pg j q h = Some ?h3"
      using sw fr(1) fp h1(1) True unfolding pager_loadTo_def k by (simp add: addr2pn_def Let_def)
    obtain h3 where h3: "pager_loadTo rp pg j q h = Some h3" "vh_phys h3 q = window_page (rp ino) l r j"
        "\<And>f. f \<noteq> q \<Longrightarrow> vh_phys h3 f = vh_phys h1 f" "vh_pt h3 = vh_pt h1" "vh_vmos h3 = vh_vmos h1" "vh_pagers h3 = vh_pagers h1"
    proof (rule that[of ?h3])
      show "vh_phys ?h3 q = window_page (rp ino) l r j" using window_zeroed[of l j r rp ino h1 q, OF True vn(3-5) h1(6)] by (simp add: Let_def)
    qed (use ld in \<open>simp_all add: zero_part_def\<close>)
    have "vnode_ok rp b ino (A \<union> (F - F1)) h3" using h1(5) fr(5,6) h3(3,6) unfolding vnode_ok_def by fastforce
    moreover have "\<forall>f \<in> A. vh_phys h3 f = vh_phys h f" using h1(7) h3(3) fr(5) by metis
    ultimately show ?thesis using h1 h3 by (intro exI[of _ h3] exI[of _ F1]) simp
  qed
qed

lemma window_load:
  assumes w: "window_ok rp pg b ino l r A h" and fr: "frames_inv (pt_pm (vh_pt h)) F A" "finite F" "2 \<le> card F"
  shows "\<exists>p h' F'. pager_load rp pg j h = Some (p, h') \<and> grown 2 F A h F' h' \<and> window_ok rp pg b ino l r (A \<union> (F - F')) h'
    \<and> p \<in> A \<union> (F - F') \<and> vh_phys h' p = window_page (rp ino) l r j"
proof -
  obtain pages where g: "vh_pagers h pg = Some (SwapPager (Some b) pages \<lparr>seg_l = l, seg_r = r\<rparr>)"
      "\<And>j p. pages j = Some p \<Longrightarrow> p \<in> A \<and> vh_phys h p = window_page (rp ino) l r j"
    using w by (auto simp: window_ok_def)
  show ?thesis
  proof (cases "pages j")
    case (Some p)
    then show ?thesis using g w fr
      by (intro exI[of _ p] exI[of _ h] exI[of _ F]) (auto simp: pager_load_def swap_load_def grown_def)
  next
    case None
    have "F \<noteq> {}" using fr(3) by auto
    then obtain p pm where p: "new_PageBuf h = Some (p, h\<lparr>vh_pt := (vh_pt h)\<lparr>pt_pm := pm\<rparr>\<rparr>)" "p \<in> F" "p \<notin> A"
        "frames_inv pm (F - {p}) (insert p A)"
      using new_PageBuf_Ex[OF fr(1)] by metis
    let ?h = "h\<lparr>vh_pt := (vh_pt h)\<lparr>pt_pm := pm\<rparr>\<rparr>"
    have c: "card (F - {p}) = card F - 1" using p(2) fr(2) by simp
    then have ne: "F - {p} \<noteq> {}" using fr(3) by (metis card.empty diff_is_0_eq not_less_eq_eq numeral_2_eq_2 One_nat_def)
    have w1: "window_ok rp pg b ino l r A ?h" using w by (auto simp: window_ok_def vnode_ok_def)
    obtain h1 F1 where h1: "pager_loadTo rp pg j p ?h = Some h1" "F1 \<subseteq> F - {p}" "card (F - {p}) \<le> card F1 + 1"
        "frames_inv (pt_pm (vh_pt h1)) F1 (insert p A \<union> (F - {p} - F1))" "vnode_ok rp b ino (A \<union> (F - {p} - F1)) h1"
        "vh_phys h1 p = window_page (rp ino) l r j" "\<forall>f \<in> A. vh_phys h1 f = vh_phys ?h f" "pt_mem (vh_pt h1) = pt_mem (vh_pt ?h)"
        "vh_vmos h1 = vh_vmos ?h" "\<forall>x. x \<noteq> b \<longrightarrow> vh_pagers h1 x = vh_pagers ?h x"
      using window_fill[OF w1, of pages j "F - {p}" p] None ne p(3,4) g(1) fr(2) by auto
    let ?h1 = "h1\<lparr>vh_pagers := (vh_pagers h1)(pg \<mapsto> SwapPager (Some b) (pages(j \<mapsto> p)) \<lparr>seg_l = l, seg_r = r\<rparr>)\<rparr>"
    have A: "insert p A \<union> (F - {p} - F1) = A \<union> (F - F1)" using p(2) h1(2) by auto
    have "pager_load rp pg j h = Some (p, ?h1)" using g(1) None p(1) h1(1) by (simp add: pager_load_def swap_load_def)
    moreover have "grown 2 F A h F1 ?h1" using h1 A c p(2) fr(3) by (auto simp: grown_def)
    moreover have "window_ok rp pg b ino l r (A \<union> (F - F1)) ?h1"
    proof -
      have "b \<noteq> pg" using w by (auto simp: window_ok_def)
      then have "vnode_ok rp b ino (A \<union> (F - F1)) ?h1" using h1(5) A unfolding vnode_ok_def by fastforce
      then show ?thesis using w g(2) h1(2,6,7) p(2) by (auto simp: window_ok_def)
    qed
    ultimately show ?thesis using p(2) h1(2,6) by (intro exI[of _ p] exI[of _ ?h1] exI[of _ F1]) auto
  qed
qed

interpretation win: page_source rp pg "window_ok rp pg b ino l r" "window_page (rp ino) l r" 2 for rp pg b ino l r
  by unfold_locales (rule window_load, assumption+, fastforce simp: window_ok_def vnode_ok_def)

subsection \<open>What a process reads\<close>

lemma copyin_byte:
  assumes "pt_inv 2 (vh_pt h) (va_root v) F A" "walk 2 (pt_mem (vh_pt h)) (va_root v) (a div 4096) = Some (f, perm)" "f < 2 ^ 44"
    and "length (vh_phys h f) = 4096"
  shows "copyin a 1 (v, h) = Some [vh_phys h f ! (a mod 4096)]"
proof -
  have "PageTable_trans (pt_mem (vh_pt h)) (va_root v) (a div 4096) = Some f"
    using trans_window assms(1,2) by (simp add: pt_inv_def)
  moreover have "pn2addr f = f * 4096" using assms(3) by (intro pn2addr_small) simp
  moreover have "f * 4096 + a mod 4096 < 2 ^ 64"
  proof -
    have "f + 1 \<le> 2 ^ 44" "a mod 4096 < 4096" using assms(3) by simp_all
    then have "f * 4096 + a mod 4096 < (2 ^ 44 :: nat) * 4096" by linarith
    then show ?thesis by simp
  qed
  ultimately have "VMAR_transaddr a (v, h) = Some (f * 4096 + a mod 4096)"
    by (simp add: VMAR_transaddr_def transaddr_def addr2pn_def addr2offset_def pageSize_def add64_in_range)
  then show ?thesis using assms(4)
    by (simp add: copyin_def phys_byte_def addr2pn_def addr2offset_def pageSize_def acc_simps)
qed

end
