(* ===== verification/ExecSpec.thy ===== *)
theory ExecSpec
  imports Exec PagedSpec
begin

text \<open>
  What a process finds in its memory: zeros in a new anonymous mapping, the file and zeros in a loaded
  segment of a program, and its arguments on the stack.
\<close>

subsection \<open>Arithmetic of pages\<close>

lemma pages_bounds: "a \<le> bytes2pages a * 4096" "bytes2pages a * 4096 < a + 4096"
proof -
  define q r where "q = a div 4096" and "r = a mod 4096"
  then have "a = q * 4096 + r" "r < 4096" "bytes2pages a = q + (if r > 0 then 1 else 0)" by (simp_all add: bytes2pages_def pageSize_def)
  then show "a \<le> bytes2pages a * 4096" "bytes2pages a * 4096 < a + 4096" by (simp_all split: if_splits)
qed

lemma ceil_eq: "a + 4096 \<le> 2 ^ 64 \<Longrightarrow> vm_ceil a = bytes2pages a * 4096"
  using pages_bounds[of a] by (simp add: vm_ceil_def pageSize_def)

lemma set_proc_sel [simp]:
  "procs (set_proc i f k) = (procs k)(i := map_option f (procs k i))" "kheap (set_proc i f k) = kheap k"
  by (simp_all add: set_proc_def)

lemma prot_perm:
  assumes "prot \<in> {1..7}"
  shows "perm_ok (prot2perm (prot_arg prot))" "bit (prot2perm (prot_arg prot)) 0"
proof -
  have "prot \<in> {1, 2, 3, 4, 5, 6, 7}" using assms by auto
  then have "perm_ok (prot2perm (prot_arg prot)) \<and> bit (prot2perm (prot_arg prot)) 0"
    by (auto simp: perm_ok_def prot2perm_def prot_arg_def mask_v_def mask_u_def bit_simps)
  then show "perm_ok (prot2perm (prot_arg prot))" "bit (prot2perm (prot_arg prot)) 0" by blast+
qed

subsection \<open>Anonymous memory\<close>

lemma new_swap_sel:
  assumes "new_swap_vmo b region n h = (vo, h')"
  shows "vh_pagers h' = (vh_pagers h)(vh_next h \<mapsto> SwapPager b Map.empty region)"
    "vh_vmos h' = (vh_vmos h)(vo \<mapsto> VMOPaged (replicate n None) (vh_next h))" "vh_pt h' = vh_pt h" "vh_phys h' = vh_phys h"
  using assms by (auto simp: new_swap_vmo_def new_pager_def new_vmo_def)

text \<open>C18: An anonymous \<open>mmap\<close> without an address, with enough free frames and the pages above the heap unmapped,
  returns the top of the heap rounded up to a page and moves the top behind the new memory.  The
  process reads zeros everywhere in it, and no other page is translated differently.\<close>

theorem mmap_anonymous:
  assumes p: "cur_proc k = Some (i, p)" "0 < len" "heapTop p + len + 8192 \<le> 2 ^ 39" "prot \<in> {1..7}"
    and mem: "pt_inv 2 (vh_pt (kheap k)) (va_root (vmar p)) F A" "A \<subseteq> {..< 2 ^ 44}" "11 * bytes2pages len \<le> card F"
    and free: "\<forall>q < bytes2pages len. walk 2 (pt_mem (vh_pt (kheap k))) (va_root (vmar p)) (vm_ceil (heapTop p) div 4096 + q) = None"
  shows "\<exists>k' p'. sys_mmap rp 0 len prot fl (- 1) offset k = Some (k', int (vm_ceil (heapTop p))) \<and> procs k' i = Some p'
    \<and> heapTop p \<le> vm_ceil (heapTop p) \<and> vm_ceil (heapTop p) + len \<le> heapTop p'
    \<and> (\<forall>a. vm_ceil (heapTop p) \<le> a \<longrightarrow> a < vm_ceil (heapTop p) + len \<longrightarrow> copyin a 1 (vmar p', kheap k') = Some [0])
    \<and> (\<forall>x < 2 ^ 27. x < vm_ceil (heapTop p) div 4096 \<or> vm_ceil (heapTop p) div 4096 + bytes2pages len \<le> x \<longrightarrow>
         walk 2 (pt_mem (vh_pt (kheap k'))) (va_root (vmar p')) x = walk 2 (pt_mem (vh_pt (kheap k))) (va_root (vmar p)) x)"
proof -
  let ?n = "bytes2pages len" and ?rt = "vm_ceil (heapTop p)"
  have rt: "?rt = bytes2pages (heapTop p) * 4096" "vm_ceil (?rt + len) = bytes2pages (?rt + len) * 4096"
    using ceil_eq[of "heapTop p"] ceil_eq[of "?rt + len"] pages_bounds[of "heapTop p"] p(3) by auto
  have ar: "?rt + ?n * 4096 \<le> 2 ^ 39" "0 < ?n" "?rt + len < 2 ^ 64" "len \<le> ?n * 4096" "?rt div 4096 * 4096 = ?rt" "heapTop p \<le> ?rt"
    using pages_bounds[of "heapTop p"] pages_bounds[of len] p(2,3) rt(1) by auto
  obtain vo h where sv: "new_swap_vmo None \<lparr>seg_l = 0, seg_r = pn2addr ?n\<rparr> ?n (kheap k) = (vo, h)" by force
  note n = new_swap_sel[OF sv]
  let ?m = "\<lparr>mp_vpn = ?rt div 4096, mp_len = ?n, mp_offset = 0, mp_vmo = vo, mp_perm = prot2perm (prot_arg prot),
    mp_mapping = Mfile, mp_sharing = (if fl div 256 mod 256 = 1 then Shared else Privt)\<rparr>"
  have ok: "anon_ok (vh_next (kheap k)) A h" by (simp add: anon_ok_def n(1))
  obtain v' h' F' where r: "VMAR_map rp ?m False (vmar p, h) = Some (v', h')" "pt_inv 2 (vh_pt h') (va_root v') F' (A \<union> (F - F'))"
      "\<forall>q < ?n. \<exists>f. walk 2 (pt_mem (vh_pt h')) (va_root v') (?rt div 4096 + q) = Some (f, mp_perm ?m) \<and> f < 2 ^ 44
         \<and> vh_phys h' f = replicate 4096 0"
      "\<forall>x < 2 ^ 27. x < ?rt div 4096 \<or> ?rt div 4096 + ?n \<le> x \<longrightarrow>
         walk 2 (pt_mem (vh_pt h')) (va_root v') x = walk 2 (pt_mem (vh_pt h)) (va_root (vmar p)) x"
    using anon.map_paged[OF ok, of "vmar p" F ?m rp] mem free prot_perm[OF p(4)] n ar(1,5) by auto
  have pr: "procs k i = Some p" using p(1) by (auto simp: cur_proc_def bind_eq_Some_iff)
  let ?p = "p\<lparr>heapTop := vm_ceil (?rt + len), vmar := v'\<rparr>"
  let ?k = "(set_proc i (\<lambda>p. p\<lparr>vmar := v'\<rparr>) ((set_proc i (\<lambda>_. p\<lparr>heapTop := vm_ceil (?rt + len)\<rparr>) k)\<lparr>kheap := h\<rparr>))\<lparr>kheap := h'\<rparr>"
  have "pn2addr (?rt div 4096) = ?rt" using ar(1,5) by (simp add: pn2addr_def)
  then have "sys_mmap rp 0 len prot fl (- 1) offset k = Some (?k, int ?rt)"
    using p(1) ar(2,3) sv r(1) pr
    by (simp add: sys_mmap_def mmap_target_def Let_def with_vmar_def addr2pn_def add64_in_range set_proc_def)
  moreover have "procs ?k i = Some ?p" using pr by simp
  moreover have "copyin a 1 (vmar ?p, kheap ?k) = Some [0]" if a: "?rt \<le> a" "a < ?rt + len" for a
  proof -
    have "?rt div 4096 \<le> a div 4096" using a(1) by (simp add: div_le_mono)
    moreover have "a div 4096 < ?rt div 4096 + ?n" using a(2) ar(4,5) by (simp add: div_less_iff_less_mult algebra_simps)
    ultimately obtain q where q: "a div 4096 = ?rt div 4096 + q" "q < ?n" using less_eqE by (metis add_less_cancel_left)
    then obtain f where "walk 2 (pt_mem (vh_pt h')) (va_root v') (a div 4096) = Some (f, mp_perm ?m)" "f < 2 ^ 44"
        "vh_phys h' f = replicate 4096 0" using r(3) by metis
    then show ?thesis using copyin_byte[OF r(2)] by simp
  qed
  moreover have "?rt + len \<le> vm_ceil (?rt + len)" using pages_bounds[of "?rt + len"] rt(2) by simp
  ultimately show ?thesis using ar(6) r(4) n(3) by (intro exI[of _ ?k] exI[of _ ?p]) auto
qed

theorem mmap_anonymous_witness:
  "\<exists>k k' p'. sys_mmap (\<lambda>_ _. []) 0 10 3 34 (- 1) 0 k = Some (k', 4096) \<and> procs k' 1 = Some p'
     \<and> copyin 4099 1 (vmar p', kheap k') = Some [0]"
proof -
  obtain st root F A where e: "pt_inv 2 st root F A" "30 \<le> card F" "pt_mem st root = (\<lambda>_. 0)" "A \<subseteq> {..< 2 ^ 44}"
    using pt_example30[of 2] by blast
  let ?p = "undefined\<lparr>vmar := \<lparr>va_mappings = [], va_root = root\<rparr>, heapTop := 100\<rparr> :: Process"
  let ?k = "undefined\<lparr>procs := [1 \<mapsto> ?p], tasks := [4 \<mapsto> undefined\<lparr>t_proc := 1\<rparr>], kheap := undefined\<lparr>vh_pt := st\<rparr>,
    kfs := undefined\<lparr>fs_sched := undefined\<lparr>curtask := Some 4\<rparr>\<rparr>\<rparr> :: Kernel"
  have c: "cur_proc ?k = Some (1, ?p)" by (simp add: cur_proc_def cur_task_def)
  have v: "vm_ceil 100 = 4096" "bytes2pages 10 = 1" by (simp_all add: vm_ceil_def bytes2pages_def pageSize_def)
  have "walk 2 (pt_mem st) root x = None" for x by (rule empty_table(3)) (rule e(3))
  then obtain k' p' where "sys_mmap (\<lambda>_ _. []) 0 10 3 34 (- 1) 0 ?k = Some (k', int (vm_ceil (heapTop ?p)))" "procs k' 1 = Some p'"
      "\<forall>a. vm_ceil (heapTop ?p) \<le> a \<longrightarrow> a < vm_ceil (heapTop ?p) + 10 \<longrightarrow> copyin a 1 (vmar p', kheap k') = Some [0]"
    using mmap_anonymous[OF c, of 10 3 F A "\<lambda>_ _. []" 34 0] e v by auto
  then show ?thesis using v(1) by (intro exI[of _ ?k] exI[of _ k'] exI[of _ p']) simp
qed

subsection \<open>Segments of a program\<close>

lemma flags_perm:
  assumes "bit fl 0 \<or> bit fl 1 \<or> bit fl 2"
  shows "perm_ok (flags2perm fl)" "bit (flags2perm fl) 0" "flags2perm fl \<noteq> 0"
proof -
  show b: "bit (flags2perm fl) 0" by (simp add: flags2perm_def mask_v_def bit_simps)
  then show "flags2perm fl \<noteq> 0" by auto
  show "perm_ok (flags2perm fl)" using assms
    by (auto simp: perm_ok_def flags2perm_def mask_v_def mask_u_def mask_r_def mask_w_def mask_x_def bit_simps)
qed

text \<open>Byte \<open>c\<close> of a segment: its page in the mapping, and its place in the file.\<close>

lemma segment_place:
  fixes offset vaddr lbase c memsz :: nat
  assumes "offset mod 4096 = vaddr mod 4096" "lbase mod 4096 = 0" "c < memsz"
  obtains q where "(lbase + vaddr + c) div 4096 = (lbase + vaddr) div 4096 + q" "q < (vaddr + memsz - 1) div 4096 - vaddr div 4096 + 1"
    "(offset div 4096 + q) * 4096 + (lbase + vaddr + c) mod 4096 = offset + c"
proof -
  define r V W B where "r = vaddr mod 4096" and "V = vaddr div 4096" and "W = offset div 4096" and "B = lbase div 4096"
  then have e: "vaddr = V * 4096 + r" "offset = W * 4096 + r" "lbase = B * 4096" "r < 4096"
    using assms(1,2) div_mult_mod_eq[of offset 4096] by auto
  have s: "lbase + vaddr + c = (B + V) * 4096 + (r + c)" "lbase + vaddr = (B + V) * 4096 + r" using e(1,3) by (simp_all add: algebra_simps)
  have "(lbase + vaddr + c) div 4096 = B + V + (r + c) div 4096" "(lbase + vaddr) div 4096 = B + V"
    "(lbase + vaddr + c) mod 4096 = (r + c) mod 4096"
    unfolding s using e(4) mod_mult_self3[of "B + V" 4096 "r + c"] by (simp_all add: add.assoc)
  moreover have "(r + c) div 4096 \<le> (r + memsz - 1) div 4096" using assms(3) by (intro div_le_mono) simp
  moreover have "(vaddr + memsz - 1) div 4096 = V + (r + memsz - 1) div 4096"
    using e assms(3) by (cases memsz) (simp_all add: div_add1_eq[of "V * 4096"] algebra_simps)
  moreover have "(W + (r + c) div 4096) * 4096 + (r + c) mod 4096 = offset + c" using e(2) by (simp add: algebra_simps)
  ultimately show thesis using that[of "(r + c) div 4096"] W_def V_def by simp
qed

lemma segment_end:
  fixes vaddr lbase memsz :: nat
  assumes "lbase mod 4096 = 0" "0 < memsz" "lbase + vaddr + memsz \<le> 2 ^ 39"
  shows "(lbase + vaddr) div 4096 + ((vaddr + memsz - 1) div 4096 - vaddr div 4096 + 1) \<le> 2 ^ 27"
proof -
  define B where "B = lbase div 4096"
  then have B: "lbase = B * 4096" using assms(1) by auto
  have "(lbase + vaddr) div 4096 = B + vaddr div 4096" unfolding B by simp
  moreover have "(B * 4096 + (vaddr + memsz - 1)) div 4096 = B + (vaddr + memsz - 1) div 4096" by simp
  moreover have "(B * 4096 + (vaddr + memsz - 1)) div 4096 < 2 ^ 27" using assms(2,3) B by (simp add: div_less_iff_less_mult)
  moreover have "vaddr div 4096 \<le> (vaddr + memsz - 1) div 4096" using assms(2) by (intro div_le_mono) simp
  ultimately show ?thesis by linarith
qed

text \<open>C19: Loading a segment of a program whose place in the file and in memory agree modulo the page size, with
  enough free frames and its pages unmapped, succeeds.  The process then reads the bytes of the file in the first
  \<open>filesz\<close> bytes of the segment and zeros in the rest of its \<open>memsz\<close> bytes, and no other page is translated
  differently.\<close>

theorem load_segment_reads:
  assumes p: "procs k i = Some p" "vmo_pager v k = Some b" "b < vh_next (kheap k)"
    and vn: "vnode_ok rp b ino A (kheap k)" "\<forall>j. length (rp ino j) = 4096"
    and seg: "0 < memsz" "offset + filesz < 2 ^ 63" "offset mod 4096 = vaddr mod 4096" "lbase mod 4096 = 0"
      "lbase + vaddr + memsz \<le> 2 ^ 39" "bit fl 0 \<or> bit fl 1 \<or> bit fl 2"
    and mem: "pt_inv 2 (vh_pt (kheap k)) (va_root (vmar p)) F A" "A \<subseteq> {..< 2 ^ 44}" "12 * seg_pages vaddr memsz \<le> card F"
    and free: "\<forall>q < seg_pages vaddr memsz. walk 2 (pt_mem (vh_pt (kheap k))) (va_root (vmar p)) ((lbase + vaddr) div 4096 + q) = None"
  shows "\<exists>k' p'. load_segment rp i v lbase vaddr memsz fl offset filesz k = Some k' \<and> procs k' i = Some p'
    \<and> (\<forall>c < memsz. copyin (lbase + vaddr + c) 1 (vmar p', kheap k') =
         Some [if c < filesz then rp ino ((offset + c) div 4096) ! ((offset + c) mod 4096) else 0])
    \<and> (\<forall>x < 2 ^ 27. x < (lbase + vaddr) div 4096 \<or> (lbase + vaddr) div 4096 + seg_pages vaddr memsz \<le> x \<longrightarrow>
         walk 2 (pt_mem (vh_pt (kheap k'))) (va_root (vmar p')) x = walk 2 (pt_mem (vh_pt (kheap k))) (va_root (vmar p)) x)"
proof -
  let ?n = "seg_pages vaddr memsz" and ?vpn = "(lbase + vaddr) div 4096" and ?r = "offset + filesz"
  have mono: "vaddr div 4096 \<le> (vaddr + memsz - 1) div 4096" using seg(1) by (intro div_le_mono) simp
  have n: "?n = (vaddr + memsz - 1) div 4096 - vaddr div 4096 + 1"
    using mono seg(1,5) by (simp add: seg_pages_def add64_in_range sub64_in_range addr2pn_def div_less_iff_less_mult)
  obtain vo h where sv: "new_swap_vmo (Some b) \<lparr>seg_l = offset, seg_r = ?r\<rparr> ?n (kheap k) = (vo, h)" by force
  note h = new_swap_sel[OF sv]
  have "vnode_ok rp b ino A h" using vn(1) p(3) by (simp add: vnode_ok_def h)
  then have ok: "window_ok rp (vh_next (kheap k)) b ino offset ?r A h" using seg(2) vn(2) p(3) by (simp add: window_ok_def h)
  let ?m = "\<lparr>mp_vpn = ?vpn, mp_len = ?n, mp_offset = 0, mp_vmo = vo, mp_perm = flags2perm fl, mp_mapping = Mfile, mp_sharing = Privt\<rparr>"
  have "?vpn + ?n \<le> 2 ^ 27" unfolding n by (rule segment_end[OF seg(4,1,5)])
  then obtain v' h' F' where r: "VMAR_map rp ?m False (vmar p, h) = Some (v', h')" "pt_inv 2 (vh_pt h') (va_root v') F' (A \<union> (F - F'))"
      "\<forall>q < ?n. \<exists>f. walk 2 (pt_mem (vh_pt h')) (va_root v') (?vpn + q) = Some (f, mp_perm ?m) \<and> f < 2 ^ 44
         \<and> vh_phys h' f = window_page (rp ino) offset ?r q"
      "\<forall>x < 2 ^ 27. x < ?vpn \<or> ?vpn + ?n \<le> x \<longrightarrow>
         walk 2 (pt_mem (vh_pt h')) (va_root v') x = walk 2 (pt_mem (vh_pt h)) (va_root (vmar p)) x"
    using win.map_paged[OF ok, of "vmar p" F ?m] mem free flags_perm[OF seg(6)] h by auto
  let ?k = "(set_proc i (\<lambda>p. p\<lparr>vmar := v'\<rparr>) (k\<lparr>kheap := h\<rparr>))\<lparr>kheap := h'\<rparr>"
  have "load_segment rp i v lbase vaddr memsz fl offset filesz k = Some ?k"
    using p sv r(1) seg(2,5) flags_perm(3)[OF seg(6)]
    by (simp add: load_segment_def with_vmar_def add64_in_range addr2pn_def Let_def)
  moreover have "copyin (lbase + vaddr + c) 1 (v', h') =
      Some [if c < filesz then rp ino ((offset + c) div 4096) ! ((offset + c) mod 4096) else 0]" if c: "c < memsz" for c
  proof -
    obtain q where q: "(lbase + vaddr + c) div 4096 = ?vpn + q" "q < ?n" "(offset div 4096 + q) * 4096 + (lbase + vaddr + c) mod 4096 = offset + c"
      using segment_place[OF seg(3,4) c] n by metis
    obtain f where f: "walk 2 (pt_mem (vh_pt h')) (va_root v') ((lbase + vaddr + c) div 4096) = Some (f, mp_perm ?m)" "f < 2 ^ 44"
        "vh_phys h' f = window_page (rp ino) offset ?r q" using r(3) q(1,2) by metis
    have "vh_phys h' f ! ((lbase + vaddr + c) mod 4096) = window_byte (rp ino) offset ?r (offset + c)"
      using q(3) by (simp add: f(3) window_page_def)
    then show ?thesis using copyin_byte[OF r(2) f(1,2)] f(3) by (simp add: window_page_def window_byte_def)
  qed
  ultimately show ?thesis using p(1) r(4) h(3) by (intro exI[of _ ?k] exI[of _ "p\<lparr>vmar := v'\<rparr>"]) simp
qed

theorem load_segment_reads_witness:
  "\<exists>k k' p'. load_segment (\<lambda>_ _. replicate 4096 7) 1 0 0 8292 300 6 100 200 k = Some k' \<and> procs k' 1 = Some p'
     \<and> copyin 8491 1 (vmar p', kheap k') = Some [7] \<and> copyin 8492 1 (vmar p', kheap k') = Some [0]"
proof -
  obtain st root F A where e: "pt_inv 2 st root F A" "30 \<le> card F" "pt_mem st root = (\<lambda>_. 0)" "A \<subseteq> {..< 2 ^ 44}"
    using pt_example30[of 2] by blast
  let ?p = "undefined\<lparr>vmar := \<lparr>va_mappings = [], va_root = root\<rparr>\<rparr> :: Process"
  let ?h = "\<lparr>vh_pt = st, vh_phys = (\<lambda>_. []), vh_pagers = [1 \<mapsto> VnodePager 5 Map.empty 0], vh_vmos = [0 \<mapsto> VMOPaged [None] 1], vh_next = 2\<rparr>"
  let ?k = "undefined\<lparr>procs := [1 \<mapsto> ?p], kheap := ?h\<rparr> :: Kernel"
  have n: "seg_pages 8292 300 = 1" by (simp add: seg_pages_def add64_def sub64_def addr2pn_def)
  have w: "walk 2 (pt_mem st) root x = None" for x by (rule empty_table(3)) (rule e(3))
  have b: "bit (6 :: nat) 1" by (simp add: bit_iff_odd)
  obtain k' p' where k': "load_segment (\<lambda>_ _. replicate 4096 7) 1 0 0 8292 300 6 100 200 ?k = Some k'" "procs k' 1 = Some p'"
      "\<forall>c < 300. copyin (0 + 8292 + c) 1 (vmar p', kheap k') =
         Some [if c < 200 then replicate 4096 7 ! ((100 + c) mod 4096) else 0]"
    using load_segment_reads[of ?k 1 ?p 0 1 "\<lambda>_ _. replicate 4096 7" 5 A 300 100 200 8292 0 6 F] e w n b by (auto simp: vmo_pager_def vnode_ok_def)
  then have "copyin 8491 1 (vmar p', kheap k') = Some [7]" "copyin 8492 1 (vmar p', kheap k') = Some [0]"
    using k'(3)[rule_format, of 199] k'(3)[rule_format, of 200] by simp_all
  with k'(1,2) show ?thesis by blast
qed

end
