(* ===== verification/StackSpec.thy ===== *)
theory StackSpec
  imports Exec VmarSpec
begin

text \<open>
  The stack \<open>execve\<close> builds.  The stack of a process is a contiguous object; pushing blocks downwards makes its
  top end hold the blocks one after the other, so that the memory above the final stack pointer is the
  layout that the start code of a program expects.
\<close>

subsection \<open>A stack and what its top end stack_has\<close>

definition stack_ok :: "VMAR \<Rightarrow> vmheap \<Rightarrow> PageMapping \<Rightarrow> nat \<Rightarrow> nat \<Rightarrow> bool" where
  "stack_ok v h m ppn n \<longleftrightarrow> mp_offset m = 0 \<and> (mp_vpn m + n) * 4096 < 2 ^ 63 \<and> ppn + n \<le> 2 ^ 44
     \<and> (\<forall>a. mp_vpn m * 4096 \<le> a \<longrightarrow> a < (mp_vpn m + n) * 4096 \<longrightarrow> VMAR_find v a = Some (Some m))
     \<and> (\<forall>q < n. PageTable_trans (pt_mem (vh_pt h)) (va_root v) (mp_vpn m + q) = Some (ppn + q))
     \<and> vh_vmos h (mp_vmo m) = Some (VMOContiguous ppn n)
     \<and> (\<forall>f. ppn \<le> f \<longrightarrow> f < ppn + n \<longrightarrow> length (vh_phys h f) = 4096)"

definition stack_has :: "Kernel \<Rightarrow> nat \<Rightarrow> PageMapping \<Rightarrow> nat \<Rightarrow> nat \<Rightarrow> nat \<Rightarrow> byte list \<Rightarrow> bool" where
  "stack_has k i m ppn n a bs \<longleftrightarrow> (\<exists>p. procs k i = Some p \<and> stack_ok (vmar p) (kheap k) m ppn n)
     \<and> mp_vpn m * 4096 \<le> a \<and> a + length bs = (mp_vpn m + n) * 4096
     \<and> (\<forall>j < length bs. obj_byte (kheap k) ppn (a - mp_vpn m * 4096 + j) = bs ! j)"

abbreviation down :: "nat \<Rightarrow> Writer" where
  "down a \<equiv> \<lparr>w_vaddr = a, w_reverse = True\<rparr>"

lemma put_push:
  assumes "stack_has k i m ppn n a bs" "mp_vpn m * 4096 + length b \<le> a"
  shows "\<exists>k'. stream_put rp i b (down a, k) = Some (down (a - length b), k') \<and> stack_has k' i m ppn n (a - length b) (b @ bs)"
proof -
  obtain p where p: "procs k i = Some p" "stack_ok (vmar p) (kheap k) m ppn n" "a + length bs = (mp_vpn m + n) * 4096"
      "\<forall>j < length bs. obj_byte (kheap k) ppn (a - mp_vpn m * 4096 + j) = bs ! j"
    using assms(1) by (auto simp: stack_has_def)
  have lt: "a < 2 ^ 64" using p(2,3) by (simp add: stack_ok_def)
  then have s: "sub64 a (length b) = a - length b" using assms(2) by (simp add: sub64_in_range)
  show ?thesis
  proof (cases "b = []")
    case True
    then have c: "copyout rp a [] (vmar p, kheap k) = Some (vmar p, kheap k)" by (subst copyout.simps) simp
    let ?k = "(set_proc i (\<lambda>q. q\<lparr>vmar := vmar p\<rparr>) k)\<lparr>kheap := kheap k\<rparr>"
    have "stream_put rp i b (down a, k) = Some (down a, ?k)" using True p(1) c s by (simp add: stream_put_def Writer_put_def)
    moreover have "stack_has ?k i m ppn n a bs" using p assms(2) True by (simp add: stack_has_def set_proc_def)
    ultimately show ?thesis using True by auto
  next
    case False
    have "mp_vpn m * 4096 \<le> a - length b" "a - length b < (mp_vpn m + n) * 4096"
      using p(3) assms(2) False by (cases b; auto)+
    then have f: "VMAR_find (vmar p) (a - length b) = Some (Some m)" "mp_offset m = 0" "mp_vpn m < 2 ^ 52" "a - length b + length b \<le> (mp_vpn m + n) * 4096"
      using p(2,3) assms(2) False by (auto simp: stack_ok_def)
    obtain h where h: "copyout rp (a - length b) b (vmar p, kheap k) = Some (vmar p, h)" "vh_pt h = vh_pt (kheap k)"
        "vh_vmos h = vh_vmos (kheap k)" "\<forall>f. ppn \<le> f \<longrightarrow> f < ppn + n \<longrightarrow> length (vh_phys h f) = 4096"
        "\<forall>x < n * 4096. obj_byte h ppn x = (if a - length b - mp_vpn m * 4096 \<le> x \<and> x < a - length b - mp_vpn m * 4096 + length b
           then b ! (x - (a - length b - mp_vpn m * 4096)) else obj_byte (kheap k) ppn x)"
      using copyout_contiguous[OF f(1-3) _ _ f(4) False, of "kheap k" ppn rp] p(2) by (auto simp: stack_ok_def)
    let ?k = "(set_proc i (\<lambda>q. q\<lparr>vmar := vmar p\<rparr>) k)\<lparr>kheap := h\<rparr>"
    have "stream_put rp i b (down a, k) = Some (down (a - length b), ?k)" using p(1) h(1) s by (simp add: stream_put_def Writer_put_def)
    moreover have "obj_byte h ppn (a - length b - mp_vpn m * 4096 + j) = (b @ bs) ! j" if j: "j < length b + length bs" for j
    proof -
      have "a - length b - mp_vpn m * 4096 + j < n * 4096" using j p(3) assms(2) by (simp add: algebra_simps)
      moreover have "a - length b - mp_vpn m * 4096 + j = a - mp_vpn m * 4096 + (j - length b)" if "length b \<le> j" using that assms(2) by simp
      moreover have "j - length b < length bs" if "length b \<le> j" using j that by simp
      then have "obj_byte (kheap k) ppn (a - mp_vpn m * 4096 + (j - length b)) = bs ! (j - length b)" if "length b \<le> j"
        using p(4) that by blast
      ultimately show ?thesis using h(5) by (cases "j < length b") (simp_all add: nth_append)
    qed
    moreover have "stack_ok (vmar p) h m ppn n" using p(2) h(2-4) by (simp add: stack_ok_def)
    ultimately show ?thesis using p(1,3) assms(2) by (intro exI[of _ ?k]) (simp add: stack_has_def set_proc_def)
  qed
qed

lemma skip_down:
  assumes "stack_has k i m ppn n a bs" "mp_vpn m * 4096 + x \<le> a"
  shows "\<exists>gap. length gap = x \<and> stack_has k i m ppn n (a - x) (gap @ bs)"
proof -
  let ?f = "map (\<lambda>j. obj_byte (kheap k) ppn (a - x - mp_vpn m * 4096 + j)) [0..<x]"
  have "obj_byte (kheap k) ppn (a - x - mp_vpn m * 4096 + j) = bs ! (j - x)" if j: "x \<le> j" "j < x + length bs" for j
  proof -
    have "a - x - mp_vpn m * 4096 + j = a - mp_vpn m * 4096 + (j - x)" using j assms(2) by simp
    moreover have "j - x < length bs" using j by simp
    ultimately show ?thesis using assms(1) unfolding stack_has_def by metis
  qed
  then have "stack_has k i m ppn n (a - x) (?f @ bs)" using assms by (simp add: stack_has_def nth_append)
  then show ?thesis by (intro exI[of _ ?f]) simp
qed

text \<open>The addresses of strings pushed one after the other.\<close>

fun str_addrs :: "nat \<Rightarrow> byte list list \<Rightarrow> nat list" where
  "str_addrs a [] = []"
| "str_addrs a (s # ss) = (a - length s) # str_addrs (a - length s) ss"

lemma strs_push:
  assumes "stack_has k i m ppn n a bs" "mp_vpn m * 4096 + length (concat ss) \<le> a"
  shows "\<exists>k'. stream_strs rp i ss (down a, k) = Some (str_addrs a ss, down (a - length (concat ss)), k')
    \<and> stack_has k' i m ppn n (a - length (concat ss)) (concat (rev ss) @ bs)"
  using assms
proof (induction ss arbitrary: k a bs)
  case (Cons s ss)
  obtain k1 where k1: "stream_put rp i s (down a, k) = Some (down (a - length s), k1)" "stack_has k1 i m ppn n (a - length s) (s @ bs)"
    using put_push[OF Cons.prems(1), of s rp] Cons.prems(2) by auto
  moreover have "mp_vpn m * 4096 + length (concat ss) \<le> a - length s" using Cons.prems(2) by simp
  ultimately show ?case using Cons.IH[OF k1(2)] by (auto simp: diff_diff_left)
qed simp

lemma array_push:
  assumes "stack_has k i m ppn n a bs" "mp_vpn m * 4096 + a mod 8 + length b \<le> a"
  shows "\<exists>k' gap. stream_array rp i b (down a, k) = Some (down (a - a mod 8 - length b), k') \<and> length gap = a mod 8
    \<and> stack_has k' i m ppn n (a - a mod 8 - length b) (b @ gap @ bs)"
proof -
  obtain gap where gap: "length gap = a mod 8" "stack_has k i m ppn n (a - a mod 8) (gap @ bs)"
    using skip_down[OF assms(1), of "a mod 8"] assms(2) by auto
  have "a < 2 ^ 64" using assms(1) by (auto simp: stack_has_def stack_ok_def)
  then have "sub64 a (a mod 8) = a - a mod 8" by (simp add: sub64_in_range)
  moreover have "mp_vpn m * 4096 + length b \<le> a - a mod 8" using assms(2) by simp
  ultimately show ?thesis using put_push[OF gap(2), of b rp] gap(1) by (auto simp: stream_array_def Let_def)
qed

subsection \<open>The stack of a new program\<close>

definition stack_image :: "byte list list \<Rightarrow> byte list list \<Rightarrow> ElfInfo \<Rightarrow> byte list \<Rightarrow> byte list" where
  "stack_image args envs info gap =
     (let rnd = UserStackDefault - 16; argv = str_addrs rnd args; envps = str_addrs (rnd - length (concat args)) envs in
      enc64 (length args) @ concat (map enc64 argv) @ enc64 0 @ concat (map enc64 envps) @ enc64 0 @ auxv_bytes info rnd
      @ gap @ concat (rev envs) @ concat (rev args) @ enc64 0 @ enc64 0x114514)"

lemma enc64_length [simp]: "length (enc64 v) = 8"
  by (simp add: enc64_def enc32_def enc16_def)

lemma words_length [simp]: "length (concat (map enc64 xs)) = 8 * length xs"
  by (induction xs) simp_all

lemma str_addrs_length [simp]: "length (str_addrs a ss) = length ss"
  by (induction ss arbitrary: a) simp_all

lemma auxv_length: "length (auxv_bytes info rnd) mod 8 = 0" "length (auxv_bytes info rnd) \<le> 128"
  by (simp_all add: auxv_bytes_def)

lemma tables_push:
  assumes h: "stack_has k i m ppn n a bs" "mp_vpn m * 4096 + 8 * (length argv + length envps) + 175 \<le> a"
    and x: "length x mod 8 = 0" "length x \<le> 128"
  shows "\<exists>k' gap sp. length gap < 8 \<and> sp mod 8 = 0 \<and>
    do { wk \<leftarrow> stream_array rp i x (down a, k); wk \<leftarrow> stream_put rp i (enc64 0) wk;
         wk \<leftarrow> stream_put rp i (concat (map enc64 envps)) wk; wk \<leftarrow> stream_array rp i (concat (map enc64 argv) @ enc64 0) wk;
         (w, k) \<leftarrow> stream_put rp i (enc64 c) wk; Some (w_vaddr w, k) } = Some (sp, k')
    \<and> stack_has k' i m ppn n sp (enc64 c @ concat (map enc64 argv) @ enc64 0 @ concat (map enc64 envps) @ enc64 0 @ x @ gap @ bs)"
proof -
  let ?V = "mp_vpn m * 4096"
  define b where "b = a - a mod 8 - length x"
  have r: "?V + 8 * (length argv + length envps) + 24 \<le> b" "b mod 8 = 0" "?V + a mod 8 + length x \<le> a"
  proof -
    have "a mod 8 < 8" by simp
    then show "?V + 8 * (length argv + length envps) + 24 \<le> b" "?V + a mod 8 + length x \<le> a" using h(2) x(2) unfolding b_def by linarith+
    show "b mod 8 = 0" using x(1) by (simp add: b_def mod_eq_0_iff_dvd dvd_diff_nat minus_mod_eq_mult_div)
  qed
  obtain k1 gap where k1: "stream_array rp i x (down a, k) = Some (down b, k1)" "length gap = a mod 8" "stack_has k1 i m ppn n b (x @ gap @ bs)"
    using array_push[OF h(1) r(3), of rp] unfolding b_def by auto
  have p: "?V + 8 \<le> b" "?V + 8 * length envps \<le> b - 8" "?V + (b - 8 - 8 * length envps) mod 8 + (8 * length argv + 8) \<le> b - 8 - 8 * length envps"
      "?V + 8 \<le> b - 8 - 8 * length envps - (8 * length argv + 8)" "(b - 8 - 8 * length envps) mod 8 = 0"
    using r(1,2) by (simp_all add: mod_eq_0_iff_dvd dvd_diff_nat)
  obtain k2 where k2: "stream_put rp i (enc64 0) (down b, k1) = Some (down (b - 8), k2)" "stack_has k2 i m ppn n (b - 8) (enc64 0 @ x @ gap @ bs)"
    using put_push[OF k1(3), of "enc64 0" rp] p(1) by auto
  obtain k3 where k3: "stream_put rp i (concat (map enc64 envps)) (down (b - 8), k2) = Some (down (b - 8 - 8 * length envps), k3)"
      "stack_has k3 i m ppn n (b - 8 - 8 * length envps) (concat (map enc64 envps) @ enc64 0 @ x @ gap @ bs)"
    using put_push[OF k2(2), of "concat (map enc64 envps)" rp] p(2) by auto
  define e where "e = b - 8 - 8 * length envps - (8 * length argv + 8)"
  obtain k4 where k4: "stream_array rp i (concat (map enc64 argv) @ enc64 0) (down (b - 8 - 8 * length envps), k3) = Some (down e, k4)"
      "stack_has k4 i m ppn n e ((concat (map enc64 argv) @ enc64 0) @ concat (map enc64 envps) @ enc64 0 @ x @ gap @ bs)"
    using array_push[OF k3(2), of "concat (map enc64 argv) @ enc64 0" rp] p(3,5) unfolding e_def by auto
  obtain k5 where k5: "stream_put rp i (enc64 c) (down e, k4) = Some (down (e - 8), k5)"
      "stack_has k5 i m ppn n (e - 8) (enc64 c @ (concat (map enc64 argv) @ enc64 0) @ concat (map enc64 envps) @ enc64 0 @ x @ gap @ bs)"
    using put_push[OF k4(2), of "enc64 c" rp] p(4) unfolding e_def by auto
  have "length gap < 8" using k1(2) by simp
  moreover have "(e - 8) mod 8 = 0" using r(1,2) by (simp add: e_def mod_eq_0_iff_dvd dvd_diff_nat)
  ultimately show ?thesis using k1(1) k2(1) k3(1) k4(1) k5 by (intro exI[of _ k5] exI[of _ gap] exI[of _ "e - 8"]) simp
qed

lemma exec_stack_image:
  assumes "stack_has k i m ppn n UserStackDefault []"
    and room: "mp_vpn m * 4096 + length (concat args) + length (concat envs) + 8 * (length args + length envs) + 200 \<le> UserStackDefault"
  shows "\<exists>k' gap sp. length gap < 8 \<and> sp mod 8 = 0 \<and> exec_stack rp i args envs info k = Some (sp, k')
    \<and> stack_has k' i m ppn n sp (stack_image args envs info gap)"
proof -
  let ?t = UserStackDefault and ?la = "length (concat args)" and ?le = "length (concat envs)"
  let ?argv = "str_addrs (?t - 16) args" and ?envps = "str_addrs (?t - 16 - ?la) envs"
  have pre: "mp_vpn m * 4096 + 8 \<le> ?t" "mp_vpn m * 4096 + 8 \<le> ?t - 8" "mp_vpn m * 4096 + ?la \<le> ?t - 16" "mp_vpn m * 4096 + ?le \<le> ?t - 16 - ?la"
      "mp_vpn m * 4096 + 8 * (length ?argv + length ?envps) + 175 \<le> ?t - 16 - ?la - ?le"
    using room unfolding str_addrs_length by arith+
  obtain k1 where k1: "stream_put rp i (enc64 0x114514) (down ?t, k) = Some (down (?t - 8), k1)" "stack_has k1 i m ppn n (?t - 8) (enc64 0x114514)"
    using put_push[OF assms(1), of "enc64 0x114514" rp] pre(1) by auto
  obtain k2 where k2: "stream_put rp i (enc64 0) (down (?t - 8), k1) = Some (down (?t - 16), k2)"
      "stack_has k2 i m ppn n (?t - 16) (enc64 0 @ enc64 0x114514)"
    using put_push[OF k1(2), of "enc64 0" rp] pre(2) by auto
  obtain k3 where k3: "stream_strs rp i args (down (?t - 16), k2) = Some (?argv, down (?t - 16 - ?la), k3)"
      "stack_has k3 i m ppn n (?t - 16 - ?la) (concat (rev args) @ enc64 0 @ enc64 0x114514)"
    using strs_push[OF k2(2) pre(3), of rp] by auto
  obtain k4 where k4: "stream_strs rp i envs (down (?t - 16 - ?la), k3) = Some (?envps, down (?t - 16 - ?la - ?le), k4)"
      "stack_has k4 i m ppn n (?t - 16 - ?la - ?le) (concat (rev envs) @ concat (rev args) @ enc64 0 @ enc64 0x114514)"
    using strs_push[OF k3(2) pre(4), of rp] by blast
  note t = tables_push[OF k4(2) pre(5) auxv_length[of info "?t - 16"], of rp "length args"]
  then show ?thesis unfolding exec_stack_def stack_image_def Let_def
    by (simp add: k1(1) k2(1) k3(1) k4(1) del: diff_diff_left)
qed

lemma stack_read:
  assumes "stack_has k i m ppn n a (u @ b @ w)" "b \<noteq> []" "procs k i = Some p"
  shows "copyin ((mp_vpn m + n) * 4096 - length (b @ w)) (length b) (vmar p, kheap k) = Some b"
proof -
  have s: "stack_ok (vmar p) (kheap k) m ppn n" "mp_vpn m * 4096 \<le> a" "a + length (u @ b @ w) = (mp_vpn m + n) * 4096"
      "\<And>j. j < length (u @ b @ w) \<Longrightarrow> obj_byte (kheap k) ppn (a - mp_vpn m * 4096 + j) = (u @ b @ w) ! j"
    using assms(1,3) by (auto simp: stack_has_def)
  let ?x = "a + length u"
  have x: "(mp_vpn m + n) * 4096 - length (b @ w) = ?x" using s(3) by simp
  have le: "mp_vpn m * 4096 \<le> ?x" "?x + length b \<le> (mp_vpn m + n) * 4096" "?x < (mp_vpn m + n) * 4096" using s(2,3) assms(2) by (cases b; auto)+
  define q where "q = addr2pn ?x - mp_vpn m"
  have "mp_vpn m \<le> addr2pn ?x" "addr2pn ?x < mp_vpn m + n" using le(1,3)
    by (simp_all add: addr2pn_def less_eq_div_iff_mult_less_eq div_less_iff_less_mult)
  then have q: "addr2pn ?x = mp_vpn m + q" "q < n" by (auto simp: q_def)
  have "obj_byte (kheap k) ppn (?x - mp_vpn m * 4096 + j) = b ! j" if j: "j < length b" for j
  proof -
    have "?x - mp_vpn m * 4096 + j = a - mp_vpn m * 4096 + (length u + j)" using s(2) by simp
    then show ?thesis using s(4)[of "length u + j"] j by (simp add: nth_append add.assoc)
  qed
  then show ?thesis unfolding x using copyin_contiguous[OF le(1,2) assms(2)] s(1) q unfolding stack_ok_def by auto
qed

lemma str_addrs_nth: "j < length ss \<Longrightarrow> str_addrs a ss ! j = a - length (concat (take (Suc j) ss))"
proof (induction ss arbitrary: a j)
  case (Cons s ss)
  then show ?case by (cases j) simp_all
qed simp

text \<open>C20: The stack of a new program has the layout its start code expects.  If the arguments and the environment
  fit, the stack pointer is a multiple of eight and the memory above it holds the number of
  arguments, their addresses and a zero, the addresses of the environment strings and a zero, the auxiliary
  vector, at most seven bytes of filling and the strings.  At the address given for an
  argument the process finds that argument.\<close>

theorem exec_stack_layout:
  assumes "procs k i = Some p" "stack_ok (vmar p) (kheap k) m ppn n" "(mp_vpn m + n) * 4096 = UserStackDefault"
    and room: "mp_vpn m * 4096 + length (concat args) + length (concat envs) + 8 * (length args + length envs) + 200 \<le> UserStackDefault"
  shows "\<exists>k' p' gap sp. exec_stack rp i args envs info k = Some (sp, k') \<and> procs k' i = Some p' \<and> sp mod 8 = 0 \<and> length gap < 8
    \<and> copyin sp (UserStackDefault - sp) (vmar p', kheap k') = Some (stack_image args envs info gap)
    \<and> (\<forall>j < length args. args ! j \<noteq> [] \<longrightarrow>
         copyin (str_addrs (UserStackDefault - 16) args ! j) (length (args ! j)) (vmar p', kheap k') = Some (args ! j))"
proof -
  have "stack_has k i m ppn n UserStackDefault []" using assms by (simp add: stack_has_def)
  from exec_stack_image[OF this room, of rp info] obtain k' gap sp where
    e: "length gap < 8" "sp mod 8 = 0" "exec_stack rp i args envs info k = Some (sp, k')"
      "stack_has k' i m ppn n sp (stack_image args envs info gap)" by metis
  then obtain p' where p': "procs k' i = Some p'" by (auto simp: stack_has_def)
  let ?img = "stack_image args envs info gap"
  have ne: "?img \<noteq> []" by (simp add: stack_image_def Let_def enc64_def enc32_def enc16_def)
  have len: "sp + length ?img = UserStackDefault" using e(4) assms(3) by (simp add: stack_has_def)
  then have "UserStackDefault - length ?img = sp" "length ?img = UserStackDefault - sp" by linarith+
  then have "copyin sp (UserStackDefault - sp) (vmar p', kheap k') = Some ?img"
    using stack_read[of k' i m ppn n sp "[]" ?img "[]" p'] e(4) ne p' assms(3) by simp
  moreover have "copyin (str_addrs (UserStackDefault - 16) args ! j) (length (args ! j)) (vmar p', kheap k') = Some (args ! j)"
    if j: "j < length args" "args ! j \<noteq> []" for j
  proof -
    let ?w = "concat (rev (take j args)) @ enc64 0 @ enc64 0x114514"
    have "args = take j args @ args ! j # drop (Suc j) args" using j(1) by (rule id_take_nth_drop)
    then have "concat (rev args) = concat (rev (drop (Suc j) args)) @ args ! j @ concat (rev (take j args))"
      by (metis append.assoc concat.simps concat_append rev.simps(2) rev_append append_Nil2)
    then obtain u where u: "?img = u @ args ! j @ ?w" by (simp add: stack_image_def Let_def)
    have "length (concat (rev xs)) = length (concat xs)" for xs :: "byte list list" by (induction xs) simp_all
    then have "length (args ! j @ ?w) = 16 + length (concat (take (Suc j) args))" using j(1) by (simp add: take_Suc_conv_app_nth)
    then have "str_addrs (UserStackDefault - 16) args ! j = (mp_vpn m + n) * 4096 - length (args ! j @ ?w)"
      using str_addrs_nth[OF j(1)] assms(3) by simp
    then show ?thesis using stack_read[of k' i m ppn n sp u "args ! j" ?w p'] e(4) u j(2) p' by simp
  qed
  ultimately show ?thesis using e(1-3) p' by (intro exI[of _ k'] exI[of _ p'] exI[of _ gap] exI[of _ sp]) simp
qed

theorem exec_stack_layout_witness:
  "\<exists>k k' p' sp. exec_stack (\<lambda>_ _. []) 1 [[104, 105, 0]] [] undefined k = Some (sp, k') \<and> procs k' 1 = Some p'
     \<and> sp mod 8 = 0 \<and> copyin (UserStackDefault - 19) 3 (vmar p', kheap k') = Some [104, 105, 0]"
proof -
  let ?m = "\<lparr>mp_vpn = 32767, mp_len = 1, mp_offset = 0, mp_vmo = 0, mp_perm = 7, mp_mapping = Msystem, mp_sharing = Privt\<rparr>"
  let ?p = "undefined\<lparr>vmar := \<lparr>va_mappings = [?m], va_root = 0\<rparr>\<rparr> :: Process"
  let ?h = "undefined\<lparr>vh_pt := undefined\<lparr>pt_mem := (\<lambda>_ _. 3)\<rparr>, vh_phys := (\<lambda>_. replicate 4096 0), vh_vmos := [0 \<mapsto> VMOContiguous 32767 1]\<rparr> :: vmheap"
  let ?k = "undefined\<lparr>procs := [1 \<mapsto> ?p], kheap := ?h\<rparr> :: Kernel"
  have t: "PageTable_trans (\<lambda>_ _. 3) 0 32767 = Some 32767"
    by (simp add: PageTable_trans_def trans.simps isValid_def isLeaf_def pte_ppn_def Let_def)
  have f: "VMAR_find \<lparr>va_mappings = [?m], va_root = 0\<rparr> a = Some (Some ?m)" if "32767 * 4096 \<le> a" "a < 32768 * 4096" for a
  proof -
    have "addr2pn a = 32767" using that by (simp add: addr2pn_def div_nat_eqI)
    then show ?thesis by (simp add: VMAR_find_def mp_contains_def vend_def add64_def sub64_def)
  qed
  have ok: "stack_ok (vmar ?p) (kheap ?k) ?m 32767 1" using t f by (simp add: stack_ok_def)
  obtain k' p' gap sp where r: "exec_stack (\<lambda>_ _. []) 1 [[104, 105, 0]] [] undefined ?k = Some (sp, k')" "procs k' 1 = Some p'" "sp mod 8 = 0"
      "\<forall>j < length [[104, 105, 0 :: byte]]. [[104, 105, 0 :: byte]] ! j \<noteq> [] \<longrightarrow>
         copyin (str_addrs (UserStackDefault - 16) [[104, 105, 0]] ! j) (length ([[104, 105, 0 :: byte]] ! j)) (vmar p', kheap k') = Some ([[104, 105, 0]] ! j)"
    using exec_stack_layout[OF _ ok, of 1 "[[104, 105, 0]]" "[]" "\<lambda>_ _. []" undefined] by (auto simp: UserStackDefault_def)
  have "copyin (UserStackDefault - 19) 3 (vmar p', kheap k') = Some [104, 105, 0]" using r(4)[rule_format, of 0] by (simp add: numeral_3_eq_3)
  with r(1-3) show ?thesis by (intro exI[of _ ?k] exI[of _ k'] exI[of _ p'] exI[of _ sp]) simp
qed

end
