(* ===== verification/Uio.thy ===== *)
theory Uio
  imports Exec
begin

text \<open>
  The vectored calls, \<open>pselect\<close> and \<open>ppoll\<close> (\<open>kernel/syscall/uio.cc\<close>), with the scattered transfers of
  \<open>include/scatterio.hh\<close> and \<open>readv\<close> and \<open>writev\<close> of an open file (\<open>kernel/fs/fs.cc\<close>).

  A buffer of user memory is reached through the memory object behind it, which the kernel maps at
  \<open>mapper_start\<close>.  A slice is a closed interval of kernel addresses in that mapping.
\<close>

subsection \<open>Scattered user memory (\<open>UMemScatteredIO\<close>)\<close>

definition mapper_start :: nat where "mapper_start = pn2addr 0x84202"

record UMem =
  um_vec :: "Segment list"
  um_it :: nat
  um_off :: nat
  um_vmo :: "nat option"
  um_bias :: nat

text \<open>
  The next buffer that lies in a mapping; the others are skipped.  Behind the last buffer the code looks up
  an address it reads behind the end of the vector, and drops the result.
\<close>

function nextRegion :: "VMAR \<Rightarrow> UMem \<Rightarrow> (bool \<times> UMem) option" where
  "nextRegion v u =
     (if um_it u < length (um_vec u)
      then do {
        f \<leftarrow> VMAR_find v (seg_l (um_vec u ! um_it u));
        case f of
          None \<Rightarrow> nextRegion v (u\<lparr>um_it := um_it u + 1\<rparr>)
        | Some m \<Rightarrow> Some (True, u\<lparr>um_vmo := Some (mp_vmo m),
            um_bias := add64 (sub64 (seg_l (um_vec u ! um_it u)) (pn2addr (mp_vpn m))) (pn2addr (mp_offset m))\<rparr>) }
      else do { _ \<leftarrow> VMAR_find v 0; Some (False, u) })"
  by pat_completeness auto
termination
  by (relation "measure (\<lambda>(_, u). length (um_vec u) - um_it u)") auto

definition UMem_new :: "VMAR \<Rightarrow> Segment list \<Rightarrow> UMem option" where
  "UMem_new v vec =
     map_option snd (nextRegion v \<lparr>um_vec = vec, um_it = 0, um_off = 0, um_vmo = None, um_bias = 0\<rparr>)"

definition um_avail :: "UMem \<Rightarrow> bool" where
  "um_avail u \<longleftrightarrow> um_it u < length (um_vec u)"

definition um_slice :: "UMem \<Rightarrow> (Segment \<times> UMem) option" where
  "um_slice u =
     do { _ \<leftarrow> um_vmo u;
          s \<leftarrow> rd (um_vec u) (um_it u);
          let a = add64 mapper_start (um_bias u);
          Some (\<lparr>seg_l = add64 a (um_off u), seg_r = sub64 (add64 a (Segment_length s)) 1\<rparr>, u) }"

definition um_next :: "VMAR \<Rightarrow> nat \<Rightarrow> UMem \<Rightarrow> (Segment \<times> UMem) option" where
  "um_next v bytes u =
     do { s \<leftarrow> rd (um_vec u) (um_it u);
          let o1 = add64 (um_off u) bytes;
          if o1 = Segment_length s
          then do {
            (ok, u) \<leftarrow> nextRegion v (u\<lparr>um_off := 0, um_it := um_it u + 1\<rparr>);
            if ok then um_slice u else Some (\<lparr>seg_l = 1, seg_r = 0\<rparr>, u) }
          else um_slice (u\<lparr>um_off := o1\<rparr>) }"

subsection \<open>Copying (\<open>scatteredCopy\<close>)\<close>

text \<open>
  \<open>avail\<close> and \<open>consume\<close> are the methods of the other side; \<open>consume\<close> gets the memory object the slice
  belongs to.  A transfer that blocks ends the run.
\<close>

partial_function (option) scatter_loop ::
  "('s \<Rightarrow> bool) \<Rightarrow> (nat \<Rightarrow> Segment \<Rightarrow> 's \<Rightarrow> (outcome \<times> nat \<times> 's) option) \<Rightarrow> VMAR \<Rightarrow> UMem \<Rightarrow> Segment \<Rightarrow> nat \<Rightarrow> 's
    \<Rightarrow> (outcome \<times> nat \<times> 's) option" where
  "scatter_loop avail consume v u davail tot x =
     (if avail x \<and> Segment_bool davail
      then do {
        vo \<leftarrow> um_vmo u;
        (oc, cnt, x) \<leftarrow> consume vo davail x;
        if oc = Blocked then Some (Blocked, tot, x)
        else do {
          (davail, u) \<leftarrow> um_next v cnt u;
          scatter_loop avail consume v u davail (add64 tot cnt) x } }
      else Some (Done, tot, x))"

definition scatteredCopy ::
  "('s \<Rightarrow> bool) \<Rightarrow> (nat \<Rightarrow> Segment \<Rightarrow> 's \<Rightarrow> (outcome \<times> nat \<times> 's) option) \<Rightarrow> VMAR \<Rightarrow> UMem \<Rightarrow> 's
    \<Rightarrow> (outcome \<times> nat \<times> 's) option" where
  "scatteredCopy avail consume v u x =
     (if um_avail u
      then do { (davail, u) \<leftarrow> um_next v 0 u; scatter_loop avail consume v u davail 0 x }
      else Some (Done, 0, x))"

text \<open>A slice of kernel addresses as an offset into the mapped object.\<close>

definition slice_at :: "Segment \<Rightarrow> nat option" where
  "slice_at s = do { ensure (mapper_start \<le> seg_l s); Some (seg_l s - mapper_start) }"

text \<open>One interval of a file, closed like every interval, and how much of it is done.\<close>

record FileIO =
  fi_seg :: Segment
  fi_end :: bool
  fi_off :: nat

definition fi_avail :: "FileIO \<times> Kernel \<Rightarrow> bool" where
  "fi_avail x = (\<not> fi_end (fst x))"

definition fi_bytes :: "FileIO \<Rightarrow> Segment \<Rightarrow> nat" where
  "fi_bytes io sl = min (sub64 (Segment_length (fi_seg io)) (fi_off io)) (Segment_length sl)"

definition fi_step :: "FileIO \<Rightarrow> nat \<Rightarrow> nat \<Rightarrow> FileIO" where
  "fi_step io availbytes rdbytes =
     (let o1 = add64 (fi_off io) rdbytes
      in if o1 = Segment_length (fi_seg io) then io\<lparr>fi_end := True, fi_off := 0\<rparr>
         else io\<lparr>fi_end := (availbytes \<noteq> 0 \<and> rdbytes = 0), fi_off := o1\<rparr>)"

definition reader_consume :: "reader \<Rightarrow> INodeRef \<Rightarrow> nat \<Rightarrow> Segment \<Rightarrow> FileIO \<times> Kernel \<Rightarrow> (outcome \<times> nat \<times> FileIO \<times> Kernel) option" where
  "reader_consume rp n vo sl = (\<lambda>(io, k).
     do { let availbytes = fi_bytes io sl;
          (w, v, r) \<leftarrow> v_nodRead (fs_env (kfs k)) (fs_vfs (kfs k)) n (u32 (add64 (seg_l (fi_seg io)) (fi_off io))) (u32 availbytes);
          at \<leftarrow> slice_at sl;
          h \<leftarrow> vmo_store rp vo at v (kheap k);
          let rdbytes = nat (r mod 2 ^ 64);
          Some (Done, rdbytes, fi_step io availbytes rdbytes, k\<lparr>kheap := h, kfs := (kfs k)\<lparr>fs_vfs := w\<rparr>\<rparr>) })"

definition writer_consume :: "reader \<Rightarrow> INodeRef \<Rightarrow> nat \<Rightarrow> Segment \<Rightarrow> FileIO \<times> Kernel \<Rightarrow> (outcome \<times> nat \<times> FileIO \<times> Kernel) option" where
  "writer_consume rp n vo sl = (\<lambda>(io, k).
     do { let availbytes = fi_bytes io sl;
          at \<leftarrow> slice_at sl;
          (v, h) \<leftarrow> vmo_read rp vo at (u32 availbytes) (kheap k);
          (w, r) \<leftarrow> v_nodWrite (fs_vfs (kfs k)) n (u32 (add64 (seg_l (fi_seg io)) (fi_off io))) v;
          ensure (0 < r);
          Some (Done, nat r, fi_step io availbytes (nat r), k\<lparr>kheap := h, kfs := (kfs k)\<lparr>fs_vfs := w\<rparr>\<rparr>) })"

definition print_consume :: "reader \<Rightarrow> nat \<Rightarrow> Segment \<Rightarrow> Kernel \<Rightarrow> (outcome \<times> nat \<times> Kernel) option" where
  "print_consume rp vo sl k =
     do { let availbytes = Segment_length sl;
          ensure (availbytes < 2 ^ 31);
          at \<leftarrow> slice_at sl;
          (v, h) \<leftarrow> vmo_read rp vo at availbytes (kheap k);
          let con = fold (\<lambda>c con. snd (putchar c con)) v (fs_con (kfs k));
          Some (Done, availbytes, k\<lparr>kheap := h, kfs := (kfs k)\<lparr>fs_con := con\<rparr>\<rparr>) }"

definition pipe_avail :: "nat \<Rightarrow> Kernel \<Rightarrow> bool" where
  "pipe_avail p k = (case rd (fs_pipes (kfs k)) p of None \<Rightarrow> False | Some x \<Rightarrow> writable x)"

definition pipe_consume :: "reader \<Rightarrow> nat \<Rightarrow> nat \<Rightarrow> Segment \<Rightarrow> Kernel \<Rightarrow> (outcome \<times> nat \<times> Kernel) option" where
  "pipe_consume rp p vo sl k =
     do { at \<leftarrow> slice_at sl;
          (v, h) \<leftarrow> vmo_read rp vo at (Segment_length sl) (kheap k);
          let s = kfs k;
          x \<leftarrow> rd (fs_pipes s) p;
          (oc, n, y, sc) \<leftarrow> Pipe_write v 0 (x, fs_sched s);
          Some (oc, n, k\<lparr>kheap := h, kfs := s\<lparr>fs_pipes := (fs_pipes s)[p := y], fs_sched := sc\<rparr>\<rparr>) }"

subsection \<open>Vectored reads and writes of a file\<close>

definition to_s64 :: "int \<Rightarrow> int" where
  "to_s64 x = sint (word_of_int x :: 64 word)"

text \<open>The interval of the file reaches from the offset to the size, both included; the access mode is not looked at.\<close>

definition file_interval :: "nat \<Rightarrow> nat \<Rightarrow> FileIO" where
  "file_interval o1 sz = \<lparr>fi_seg = \<lparr>seg_l = o1, seg_r = sz\<rparr>, fi_end = False, fi_off = 0\<rparr>"

definition file_transfer :: "(INodeRef \<Rightarrow> nat \<Rightarrow> Segment \<Rightarrow> FileIO \<times> Kernel \<Rightarrow> (outcome \<times> nat \<times> FileIO \<times> Kernel) option) \<Rightarrow>
    nat \<Rightarrow> VMAR \<Rightarrow> UMem \<Rightarrow> Kernel \<Rightarrow> KStat \<Rightarrow> nat \<Rightarrow> int \<Rightarrow> (outcome \<times> Kernel \<times> int) option" where
  "file_transfer consume f v u k ks e o1 =
     do { d \<leftarrow> rd (dents (fs_vfs (kfs k))) e;
          sz \<leftarrow> v_rFileSize (fs_vfs (kfs k)) (nod d);
          (oc, n, io, k) \<leftarrow> scatteredCopy fi_avail (consume (nod d)) v u (file_interval (nat (o1 mod 2 ^ 64)) sz, k);
          x \<leftarrow> rd (fs_files (kfs k)) f;
          Some (oc, k\<lparr>kfs := (kfs k)\<lparr>fs_files := (fs_files (kfs k))[f := x\<lparr>obj := OEntry ks e (to_s64 (o1 + int n))\<rparr>]\<rparr>\<rparr>,
                to_s64 (int n)) }"

definition File_readv :: "reader \<Rightarrow> nat \<Rightarrow> VMAR \<Rightarrow> UMem \<Rightarrow> Kernel \<Rightarrow> (outcome \<times> Kernel \<times> int) option" where
  "File_readv rp f v u k =
     do { x \<leftarrow> rd (fs_files (kfs k)) f;
          case obj x of
            OEntry ks e o1 \<Rightarrow> file_transfer (reader_consume rp) f v u k ks e o1
          | _ \<Rightarrow> Some (Done, k, - 1) }"

definition File_writev :: "reader \<Rightarrow> nat \<Rightarrow> VMAR \<Rightarrow> UMem \<Rightarrow> Kernel \<Rightarrow> (outcome \<times> Kernel \<times> int) option" where
  "File_writev rp f v u k =
     do { x \<leftarrow> rd (fs_files (kfs k)) f;
          case obj x of
            OEntry ks e o1 \<Rightarrow> file_transfer (writer_consume rp) f v u k ks e o1
          | OPipe ks p \<Rightarrow> do {
              (oc, n, k) \<leftarrow> scatteredCopy (pipe_avail p) (pipe_consume rp p) v u k;
              Some (oc, k, to_s64 (int n)) }
          | ODev t ks \<Rightarrow>
              (if t = FT_stdout \<or> t = FT_stderr
               then do {
                 (oc, n, k) \<leftarrow> scatteredCopy (\<lambda>_. True) (print_consume rp) v u k;
                 Some (oc, k, to_s64 (int n)) }
               else Some (Done, k, - 1)) }"

subsection \<open>The system calls\<close>

primrec read_iovecs :: "nat \<Rightarrow> nat \<Rightarrow> nat \<Rightarrow> Kernel \<Rightarrow> Segment list option" where
  "read_iovecs 0 i a k = Some []"
| "read_iovecs (Suc n) i a k =
     do { b \<leftarrow> get_user i a 16 k;
          vs \<leftarrow> read_iovecs n i (add64 a 16) k;
          Some (\<lparr>seg_l = dec64 b 0, seg_r = sub64 (add64 (dec64 b 0) (dec64 b 8)) 1\<rparr> # vs) }"

text \<open>A negative number of buffers is counted down past the smallest integer.\<close>

definition sys_vectored :: "(nat \<Rightarrow> VMAR \<Rightarrow> UMem \<Rightarrow> Kernel \<Rightarrow> (outcome \<times> Kernel \<times> int) option) \<Rightarrow> int \<Rightarrow> nat \<Rightarrow> int \<Rightarrow> Kernel
    \<Rightarrow> (outcome \<times> Kernel \<times> int) option" where
  "sys_vectored transfer fd iov iovcnt k =
     do { (i, p) \<leftarrow> cur_proc k;
          case ofile (p_files p) fd of None \<Rightarrow> Some (Done, k, - EBADF)
          | Some f \<Rightarrow> do {
              ensure (0 \<le> iovcnt);
              vec \<leftarrow> read_iovecs (nat iovcnt) i iov k;
              u \<leftarrow> UMem_new (vmar p) vec;
              transfer f (vmar p) u k } }"

definition sys_readv :: "reader \<Rightarrow> int \<Rightarrow> nat \<Rightarrow> int \<Rightarrow> Kernel \<Rightarrow> (outcome \<times> Kernel \<times> int) option" where
  "sys_readv rp = sys_vectored (File_readv rp)"

definition sys_writev :: "reader \<Rightarrow> int \<Rightarrow> nat \<Rightarrow> int \<Rightarrow> Kernel \<Rightarrow> (outcome \<times> Kernel \<times> int) option" where
  "sys_writev rp = sys_vectored (File_writev rp)"

subsection \<open>\<open>pselect\<close> and \<open>ppoll\<close>\<close>

text \<open>A set of descriptors is 128 bytes; a descriptor beyond them is outside the array.\<close>

definition FD_ISSET :: "int \<Rightarrow> byte list \<Rightarrow> bool option" where
  "FD_ISSET i s = do { ensure (0 \<le> i); b \<leftarrow> rd s (nat i div 8); Some (bit b (nat i mod 8)) }"

definition FD_CLR :: "int \<Rightarrow> byte list \<Rightarrow> byte list" where
  "FD_CLR i s = s[nat i div 8 := unset_bit (nat i mod 8) (s ! (nat i div 8))]"

definition select_one :: "(fsys \<Rightarrow> nat \<Rightarrow> bool option) \<Rightarrow> Process \<Rightarrow> Kernel \<Rightarrow> int \<Rightarrow> int \<times> byte list option \<Rightarrow> (int \<times> byte list option) option" where
  "select_one isready p k i = (\<lambda>(rt, fds).
     case fds of None \<Rightarrow> Some (rt, None)
     | Some s \<Rightarrow> do {
         on \<leftarrow> FD_ISSET i s;
         if on then do {
           f \<leftarrow> ofile (p_files p) i;
           y \<leftarrow> isready (kfs k) f;
           Some (if y then (rt + 1, Some s) else (rt, Some (FD_CLR i s))) }
         else Some (rt, Some s) })"

fun select_pass :: "Process \<Rightarrow> Kernel \<Rightarrow> int list \<Rightarrow> int \<times> byte list option \<times> byte list option \<Rightarrow>
    (int \<times> byte list option \<times> byte list option) option" where
  "select_pass p k [] x = Some x"
| "select_pass p k (i # is) (rt, r, w) =
     do { (rt, r) \<leftarrow> select_one isRReady p k i (rt, r);
          (rt, w) \<leftarrow> select_one isWReady p k i (rt, w);
          select_pass p k is (rt, r, w) }"

definition opt_fds :: "nat \<Rightarrow> nat \<Rightarrow> Kernel \<Rightarrow> byte list option option" where
  "opt_fds i a k = (if a = 0 then Some None else map_option Some (get_user i a 128 k))"

definition put_fds :: "reader \<Rightarrow> nat \<Rightarrow> nat \<Rightarrow> byte list option \<Rightarrow> Kernel \<Rightarrow> Kernel option" where
  "put_fds rp i a s k = (case s of None \<Rightarrow> Some k | Some b \<Rightarrow> put_user rp i a b k)"

text \<open>
  The passes of \<open>pselect\<close>.  Between two passes the task gives up the processor: \<open>ks\<close> are the states of the
  kernel it finds at its later passes, each with the time read after the \<open>yield\<close> that leads to it.  When they
  are used up the call is still waiting.
\<close>

fun select_loop :: "nat \<Rightarrow> int \<Rightarrow> int option \<Rightarrow> (Kernel \<times> int) list \<Rightarrow> byte list option \<Rightarrow> byte list option \<Rightarrow> Kernel \<Rightarrow>
    (outcome \<times> int \<times> byte list option \<times> byte list option \<times> Kernel) option" where
  "select_loop i nfds expired ks r w k =
     do { p \<leftarrow> procs k i;
          (rt, r, w) \<leftarrow> select_pass p k [0..nfds - 1] (0, r, w);
          if rt \<noteq> 0 then Some (Done, rt, r, w, k)
          else (case ks of [] \<Rightarrow> Some (Blocked, rt, r, w, k)
            | (k', now) # ks \<Rightarrow>
                if (case expired of None \<Rightarrow> True | Some x \<Rightarrow> now < x)
                then select_loop i nfds expired ks r w k'
                else Some (Done, rt, r, w, k')) }"

definition timespec_at :: "nat \<Rightarrow> nat \<Rightarrow> Kernel \<Rightarrow> int option" where
  "timespec_at i a k = do { b \<leftarrow> get_user i a 16 k; Some (to_s64 (int (dec64 b 0)) * 1000000000 + to_s64 (int (dec64 b 8))) }"

definition sys_pselect :: "reader \<Rightarrow> (Kernel \<times> int) list \<Rightarrow> int \<Rightarrow> int \<Rightarrow> nat \<Rightarrow> nat \<Rightarrow> nat \<Rightarrow> nat \<Rightarrow> nat \<Rightarrow> Kernel \<Rightarrow>
    (outcome \<times> Kernel \<times> int) option" where
  "sys_pselect rp ks now nfds readfds writefds exceptfds timeout sigm k =
     do { (i, _) \<leftarrow> cur_proc k;
          r \<leftarrow> opt_fds i readfds k;
          w \<leftarrow> opt_fds i writefds k;
          e \<leftarrow> opt_fds i exceptfds k;
          expired \<leftarrow> (if timeout = 0 then Some None else map_option (\<lambda>t. Some (now + t)) (timespec_at i timeout k));
          (oc, rt, r, w, k) \<leftarrow> select_loop i nfds expired ks r w k;
          if oc = Blocked then Some (Blocked, k, rt)
          else do {
            k \<leftarrow> put_fds rp i readfds r k;
            k \<leftarrow> put_fds rp i writefds w k;
            k \<leftarrow> put_fds rp i exceptfds e k;
            Some (Done, k, rt) } }"

text \<open>
  \<open>ppoll\<close> takes every descriptor for ready.  An entry is the descriptor (four bytes), the events asked for
  and the events found (two bytes each); \<open>POLLIN\<close> is 1 and \<open>POLLOUT\<close> is 4.  \<open>szset\<close> is the size of the
  header's \<open>sigset_t\<close>.
\<close>

definition poll_one :: "byte list \<Rightarrow> int \<times> byte list" where
  "poll_one b =
     (if bit (b ! 3) 7 then (0, take 6 b @ [0, 0])
      else (1, take 6 b @ [b ! 4 AND 5, 0]))"

fun poll_all :: "nat \<Rightarrow> byte list \<Rightarrow> int \<times> byte list" where
  "poll_all 0 b = (0, [])"
| "poll_all (Suc n) b =
     (let (r, e) = poll_one (take 8 b); (r', es) = poll_all n (drop 8 b) in (r + r', e @ es))"

definition sys_pPoll :: "nat \<Rightarrow> reader \<Rightarrow> nat \<Rightarrow> int \<Rightarrow> nat \<Rightarrow> nat \<Rightarrow> nat \<Rightarrow> Kernel \<Rightarrow> (Kernel \<times> int) option" where
  "sys_pPoll szset rp fds nfds tmo sigm sigsetsize k =
     (if fds = 0 \<or> nfds < 0 \<or> sigsetsize \<noteq> szset then Some (k, - EINVAL)
      else do {
        (i, _) \<leftarrow> cur_proc k;
        b \<leftarrow> get_user i fds (nat nfds * 8) k;
        let (r, b') = poll_all (nat nfds) b;
        k \<leftarrow> put_user rp i fds b' k;
        Some (k, r) })"

declare nextRegion.simps [simp del] select_loop.simps [simp del]

end
