(* ===== verification/UioSpec.thy ===== *)
theory UioSpec
  imports Uio FileCallsSpec VmarSpec
begin

text \<open>
  What the vectored calls and \<open>pselect\<close> do.
\<close>

subsection \<open>\<open>pselect\<close>\<close>

definition clear :: "int \<Rightarrow> byte list option \<Rightarrow> bool" where
  "clear i s = (case s of None \<Rightarrow> True | Some b \<Rightarrow> FD_ISSET i b = Some False)"

lemma FD_CLR_clear:
  "FD_ISSET i b = Some x \<Longrightarrow> FD_ISSET i (FD_CLR i b) = Some False"
  by (auto simp: FD_ISSET_def FD_CLR_def rd_def ensure_def bit_simps split: bind_splits if_splits)

lemma FD_CLR_keeps:
  "FD_ISSET j b = Some False \<Longrightarrow> FD_ISSET i b = Some x \<Longrightarrow> FD_ISSET j (FD_CLR i b) = Some False"
  by (auto simp: FD_ISSET_def FD_CLR_def rd_def ensure_def bit_simps nth_list_update split: bind_splits if_splits)

lemma select_one_facts:
  assumes "select_one isready p k i (rt, s) = Some (rt', s')"
  shows "rt \<le> rt'" "rt' = rt \<Longrightarrow> clear i s'" "clear j s \<Longrightarrow> clear j s'"
  using assms FD_CLR_clear FD_CLR_keeps
  by (auto simp: select_one_def clear_def split: option.splits bind_splits if_splits)

lemma select_pass_facts:
  assumes "select_pass p k is (rt, r, w) = Some (rt', r', w')"
  shows "rt \<le> rt' \<and> (rt' = rt \<longrightarrow> (\<forall>i \<in> set is. clear i r' \<and> clear i w'))
     \<and> (\<forall>j. clear j r \<longrightarrow> clear j r') \<and> (\<forall>j. clear j w \<longrightarrow> clear j w')"
  using assms
proof (induction "is" arbitrary: rt r w)
  case (Cons i "is")
  then obtain rt1 r1 rt2 w1 where r1: "select_one isRReady p k i (rt, r) = Some (rt1, r1)"
    and w1: "select_one isWReady p k i (rt1, w) = Some (rt2, w1)"
    and rest: "select_pass p k is (rt2, r1, w1) = Some (rt', r', w')"
    by (auto split: bind_splits)
  note a = select_one_facts[OF r1] and b = select_one_facts[OF w1] and c = Cons.IH[OF rest]
  show ?case using a(1) b(1) a(2) b(2) a(3) b(3) c by auto
qed simp

lemma select_one_clear: "clear i s \<Longrightarrow> select_one isready p k i (rt, s) = Some (rt, s)"
  by (auto simp: select_one_def clear_def split: option.splits)

lemma select_pass_clear:
  "\<forall>i \<in> set is. clear i r \<and> clear i w \<Longrightarrow> select_pass p k is (rt, r, w) = Some (rt, r, w)"
  by (induction "is") (simp_all add: select_one_clear)

lemma select_loop_stuck:
  assumes "\<forall>j \<in> set [0..nfds - 1]. clear j r \<and> clear j w" "procs k i \<noteq> None" "\<forall>x \<in> set ks. procs (fst x) i \<noteq> None"
  shows "\<exists>k'. select_loop i nfds None ks r w k = Some (Blocked, 0, r, w, k')"
  using assms(2,3)
proof (induction ks arbitrary: k)
  case Nil
  then show ?case using assms(1) by (subst select_loop.simps) (auto simp: select_pass_clear)
next
  case (Cons x ks)
  obtain k1 now where x: "x = (k1, now)" by force
  from Cons.prems obtain p where p: "procs k i = Some p" by auto
  have "procs k1 i \<noteq> None" "\<forall>x \<in> set ks. procs (fst x) i \<noteq> None" using Cons.prems(2) x by auto
  from Cons.IH[OF this] show ?case using assms(1) p x by (subst select_loop.simps) (simp add: select_pass_clear)
qed

text \<open>C25: A \<open>pselect\<close> without timeout whose first pass finds no descriptor ready never returns: the pass takes
  every descriptor that is not ready out of the sets, and the later passes, which look at what is left, find
  nothing whatever the other tasks have done in between.
\<close>

theorem pselect_never_wakes:
  assumes cur: "cur_proc k = Some (i, p)"
    and "opt_fds i readfds k = Some r" "opt_fds i writefds k = Some w" "opt_fds i exceptfds k = Some e"
    and first: "select_pass p k [0..nfds - 1] (0, r, w) = Some (0, r', w')"
    and alive: "\<forall>x \<in> set ks. procs (fst x) i \<noteq> None"
  shows "\<exists>k'. sys_pselect rp ks now nfds readfds writefds exceptfds 0 sigm k = Some (Blocked, k', 0)"
proof -
  have p: "procs k i = Some p" using cur by (auto simp: cur_proc_def bind_eq_Some_iff)
  have c: "\<forall>j \<in> set [0..nfds - 1]. clear j r' \<and> clear j w'" using select_pass_facts[OF first] by blast
  have "\<exists>k'. select_loop i nfds None ks r w k = Some (Blocked, 0, r', w', k')"
  proof (cases ks)
    case Nil
    then show ?thesis using p first by (subst select_loop.simps) simp
  next
    case (Cons x xs)
    obtain k1 t where x: "x = (k1, t)" by force
    have "procs k1 i \<noteq> None" "\<forall>x \<in> set xs. procs (fst x) i \<noteq> None" using alive Cons x by auto
    from select_loop_stuck[OF c this] show ?thesis using p first Cons x by (subst select_loop.simps) simp
  qed
  then show ?thesis using assms(1-4) by (auto simp: sys_pselect_def)
qed

lemma ex_user_bytes: "get_user 1 4096 n (ex_kernel fs ps tbl) = Some (replicate n 7)"
proof -
  have "phys_read ex_heap a n = Some (replicate n 7)" for a
    by (induction n arbitrary: a) (simp_all add: ex_heap_def phys_byte_def rd_def pageSize_def addr2offset_def)
  then show ?thesis
    by (simp add: ex_kernel_def get_user_def copyin_def VMAR_transaddr_def transaddr_def PageTable_trans_def trans.simps ex_vmar_def
      isValid_def isLeaf_def pte_ppn_def addr2pn_def pn2addr_def) (simp add: ex_heap_def)
qed

theorem pselect_never_wakes_witness:
  "\<exists>k k'. sys_pselect (\<lambda>_ _. []) [(k, 5)] 0 3 4096 0 0 0 0 k = Some (Blocked, k', 0)"
proof -
  let ?tbl = "[Some 0, Some 0, Some 0] @ replicate 98 None"
  let ?k = "ex_kernel [ex_file True True (ODev FT_stdin undefined)] [] ?tbl"
  note c = ex_kernel_cur[of "[ex_file True True (ODev FT_stdin undefined)]" "[]" ?tbl]
  have i: "[0..2] = [0, 1, 2 :: int]" by (simp add: upto.simps)
  have o: "ofile ?tbl 0 = Some 0" "ofile ?tbl 1 = Some 0" "ofile ?tbl 2 = Some 0"
    by (simp_all add: ofile_def AT_FDCWD_def fdOutRange_def mOFiles_def)
  have r: "opt_fds 1 4096 ?k = Some (Some (replicate 128 7))" using ex_user_bytes[of 128] by (simp add: opt_fds_def)
  have w: "replicate 128 (7 :: byte) = 7 # replicate 127 7" using replicate_Suc[of 127 "7 :: byte"] by simp
  have u: "unset_bit 0 (7 :: byte) = 6" "unset_bit 1 (6 :: byte) = 4" "unset_bit 2 (4 :: byte) = 0" by code_simp+
  have b: "bit (7 :: byte) 0" "bit (6 :: byte) 1" "bit (4 :: byte) 2" by code_simp+
  have z: "isRReady (kfs ?k) 0 = Some False" by (simp add: isRReady_def ex_defs)
  have one: "select_one isRReady (undefined\<lparr>p_files := ?tbl, p_cwd := Some 0, vmar := ex_vmar\<rparr>) ?k j (0, Some (x # xs))
      = Some (0, Some (unset_bit (nat j) x # xs))" if "0 \<le> j" "j < 3" "bit x (nat j)" "ofile ?tbl j = Some 0" for j x xs
    using that z by (simp add: select_one_def FD_ISSET_def FD_CLR_def rd_def)
  have "select_pass (undefined\<lparr>p_files := ?tbl, p_cwd := Some 0, vmar := ex_vmar\<rparr>) ?k [0..3 - 1] (0, Some (replicate 128 7), None)
      = Some (0, Some (0 # replicate 127 7), None)"
    using one[of 0 7] one[of 1 6] one[of 2 4] o u b by (simp add: i w select_one_clear clear_def)
  note run = pselect_never_wakes[OF c r _ _ this]
  have "procs ?k 1 \<noteq> None" by (simp add: ex_kernel_def)
  then have "\<exists>k'. sys_pselect (\<lambda>_ _. []) [(?k, 5)] 0 3 4096 0 0 0 0 ?k = Some (Blocked, k', 0)"
    using run[of 0 0 None "[(?k, 5)]"] by (simp add: opt_fds_def)
  then show ?thesis by blast
qed

subsection \<open>Vectored transfers\<close>

text \<open>Where a buffer of user memory lies in its memory object, and how long it is.\<close>

definition piece_at :: "VMAR \<Rightarrow> Segment \<Rightarrow> nat \<times> nat \<times> nat \<Rightarrow> bool" where
  "piece_at v s = (\<lambda>(vo, at, len). \<exists>m. VMAR_find v (seg_l s) = Some (Some m) \<and> mp_vmo m = vo
     \<and> pn2addr (mp_vpn m) \<le> seg_l s \<and> seg_l s < 2 ^ 64 \<and> at = seg_l s - pn2addr (mp_vpn m) + pn2addr (mp_offset m)
     \<and> len = Segment_length s \<and> 0 < len \<and> mapper_start + at + len < 2 ^ 64)"

definition um_on :: "UMem \<Rightarrow> Segment list \<Rightarrow> nat \<Rightarrow> nat \<Rightarrow> nat \<times> nat \<times> nat \<Rightarrow> bool" where
  "um_on u vec j q = (\<lambda>(vo, at, len). um_vec u = vec \<and> um_it u = j \<and> j < length vec \<and> um_off u = q \<and> um_vmo u = Some vo
     \<and> um_bias u = at \<and> Segment_length (vec ! j) = len \<and> mapper_start + at + len < 2 ^ 64)"

definition slice_of :: "nat \<times> nat \<times> nat \<Rightarrow> nat \<Rightarrow> Segment" where
  "slice_of = (\<lambda>(vo, at, len) q. \<lparr>seg_l = mapper_start + at + q, seg_r = mapper_start + at + len - 1\<rparr>)"

lemma mapper_start_pos: "0 < mapper_start"
  by (simp add: mapper_start_def pn2addr_def pageSize_def)

lemma nextRegion_found:
  assumes "um_vec u = vec" "um_it u = j" "j < length vec" "um_off u = 0" "piece_at v (vec ! j) c"
  shows "\<exists>u'. nextRegion v u = Some (True, u') \<and> um_on u' vec j 0 c"
proof -
  obtain vo at len where c: "c = (vo, at, len)" by (cases c)
  from assms(5) obtain m where m: "VMAR_find v (seg_l (vec ! j)) = Some (Some m)" "mp_vmo m = vo"
    "pn2addr (mp_vpn m) \<le> seg_l (vec ! j)" "seg_l (vec ! j) < 2 ^ 64"
    "at = seg_l (vec ! j) - pn2addr (mp_vpn m) + pn2addr (mp_offset m)" "len = Segment_length (vec ! j)"
    "mapper_start + at + len < 2 ^ 64"
    by (auto simp: piece_at_def c)
  have "add64 (sub64 (seg_l (vec ! j)) (pn2addr (mp_vpn m))) (pn2addr (mp_offset m)) = at"
    using m(3-5,7) by (simp add: sub64_in_range add64_in_range)
  then show ?thesis using assms(1-4) m by (subst nextRegion.simps) (simp add: um_on_def c)
qed

lemma um_slice_on:
  assumes "um_on u vec j q (vo, at, len)" "q < len"
  shows "um_slice u = Some (slice_of (vo, at, len) q, u)"
  using assms mapper_start_pos
  by (auto simp: um_on_def um_slice_def slice_of_def rd_def add64_in_range sub64_in_range Let_def)

lemma slice_of_facts:
  assumes "q < len" "mapper_start + at + len < 2 ^ 64"
  shows "Segment_bool (slice_of (vo, at, len) q)" "Segment_length (slice_of (vo, at, len) q) = len - q"
    "slice_at (slice_of (vo, at, len) q) = Some (at + q)"
  using assms mapper_start_pos
  by (auto simp: slice_of_def Segment_bool_def Segment_length_def slice_at_def add64_in_range sub64_in_range)

lemma um_next_within:
  assumes "um_on u vec j q (vo, at, len)" "q + n < len"
  shows "\<exists>u'. um_next v n u = Some (slice_of (vo, at, len) (q + n), u') \<and> um_on u' vec j (q + n) (vo, at, len)"
proof -
  have a: "add64 q n = q + n" using assms by (simp add: um_on_def add64_in_range)
  have on: "um_on (u\<lparr>um_off := q + n\<rparr>) vec j (q + n) (vo, at, len)" using assms(1) by (simp add: um_on_def)
  show ?thesis using assms a um_slice_on[OF on assms(2)] on by (simp add: um_next_def um_on_def rd_def Let_def)
qed

lemma um_next_filled:
  assumes "um_on u vec j q (vo, at, len)" "q + n = len" "Suc j < length vec" "piece_at v (vec ! Suc j) c"
  shows "\<exists>u'. um_next v n u = Some (slice_of c 0, u') \<and> um_on u' vec (Suc j) 0 c"
proof -
  have a: "add64 q n = len" using assms by (simp add: um_on_def add64_in_range)
  obtain u' where u: "nextRegion v (u\<lparr>um_off := 0, um_it := um_it u + 1\<rparr>) = Some (True, u')" "um_on u' vec (Suc j) 0 c"
    using nextRegion_found[of "u\<lparr>um_off := 0, um_it := um_it u + 1\<rparr>" vec "Suc j" v c] assms by (auto simp: um_on_def)
  obtain vo' at' len' where c: "c = (vo', at', len')" by (cases c)
  have "0 < len'" using assms(4) by (auto simp: piece_at_def c)
  then show ?thesis using assms(1,3) a u um_slice_on[OF u(2)[unfolded c]] by (auto simp: um_next_def um_on_def rd_def c)
qed

lemma um_next_last:
  assumes "um_on u vec j q (vo, at, len)" "q + n = len" "Suc j = length vec" "VMAR_find v 0 \<noteq> None"
  shows "\<exists>u'. um_next v n u = Some (\<lparr>seg_l = 1, seg_r = 0\<rparr>, u')"
proof -
  have a: "add64 q n = len" using assms by (simp add: um_on_def add64_in_range)
  have "nextRegion v (u\<lparr>um_off := 0, um_it := um_it u + 1\<rparr>) = Some (False, u\<lparr>um_off := 0, um_it := um_it u + 1\<rparr>)"
    using assms by (subst nextRegion.simps) (auto simp: um_on_def)
  then show ?thesis using assms(1) a by (auto simp: um_next_def um_on_def rd_def)
qed

text \<open>The bytes of a transfer put into the buffers one after the other.\<close>

fun spread :: "reader \<Rightarrow> (nat \<times> nat \<times> nat) list \<Rightarrow> byte list \<Rightarrow> vmheap \<Rightarrow> vmheap option" where
  "spread rp [] bs h = Some h"
| "spread rp ((vo, at, len) # cs) bs h = do { h \<leftarrow> vmo_store rp vo at (take len bs) h; spread rp cs (drop len bs) h }"

lemma spread_nothing [simp]: "spread rp cs [] h = Some h"
  by (induction cs) auto

definition plain_node :: "Kernel \<Rightarrow> nat \<Rightarrow> byte list \<Rightarrow> bool" where
  "plain_node k n B \<longleftrightarrow> (\<exists>nd. rd (rnodes (vram (fs_vfs (kfs k)))) n = Some nd \<and> ri_kind nd = Plain \<and> \<not> isDir nd \<and> ri_bytes nd = B)"

lemma plain_nodRead:
  assumes "plain_node k n B" "a \<le> length B" "length B < 2 ^ 64"
  shows "v_nodRead env (fs_vfs (kfs k)) (RNode n) a m = Some (fs_vfs (kfs k), take m (drop a B), int (min m (length B - a)))"
proof -
  have "a + min m (length B - a) \<le> length B" using assms(2) by simp
  moreover have "take (min m (length B - a)) (drop a B) = take m (drop a B)" by (simp add: min_def)
  ultimately show ?thesis
    using assms by (auto simp: plain_node_def v_nodRead_def ram_nodRead_def Let_def sub64_in_range simp del: min_def)
qed

definition reading :: "nat \<Rightarrow> nat \<Rightarrow> nat \<Rightarrow> bool \<Rightarrow> FileIO" where
  "reading o' sz q e = \<lparr>fi_seg = \<lparr>seg_l = o', seg_r = sz\<rparr>, fi_end = e, fi_off = q\<rparr>"

lemma reader_consume_plain:
  assumes B: "plain_node k n B" "length B < 2 ^ 32 - 1" and q: "o' + q \<le> length B"
    and sl: "Segment_length sl = L" "0 < L" "slice_at sl = Some a"
  shows "reader_consume rp (RNode n) vo sl (reading o' (length B) q False, k)
    = map_option (\<lambda>h. (Done, min L (length B - (o' + q)),
        reading o' (length B) (q + min L (length B - (o' + q))) (min L (length B - (o' + q)) = 0), k\<lparr>kheap := h\<rparr>))
      (vmo_store rp vo a (take L (drop (o' + q) B)) (kheap k))"
proof -
  let ?io = "reading o' (length B) q False"
  define R where "R = length B - (o' + q)"
  have len: "Segment_length (fi_seg ?io) = length B - o' + 1" using B(2) q by (simp add: reading_def Segment_length_def sub64_in_range add64_in_range)
  have av: "fi_bytes ?io sl = min (R + 1) L"
  proof -
    have "sub64 (length B - o' + 1) q = R + 1" using q B(2) by (simp add: sub64_in_range R_def)
    then show ?thesis unfolding fi_bytes_def len sl(1) by (simp add: reading_def)
  qed
  have av32: "u32 (min (R + 1) L) = min (R + 1) L" using B(2) by (simp add: u32_small R_def)
  have at32: "u32 (add64 o' q) = o' + q" using B(2) q by (simp add: add64_in_range u32_small)
  have rd: "v_nodRead (fs_env (kfs k)) (fs_vfs (kfs k)) (RNode n) (o' + q) (min (R + 1) L)
      = Some (fs_vfs (kfs k), take L (drop (o' + q) B), int (min L R))"
    using plain_nodRead[OF B(1) q, of "fs_env (kfs k)" "min (R + 1) L"] B(2) by (auto simp: R_def min_def)
  have m: "nat (int (min L R) mod 2 ^ 64) = min L R" using B(2) by (simp add: R_def)
  have st: "fi_step ?io (min (R + 1) L) (min L R) = reading o' (length B) (q + min L R) (min L R = 0)"
    using q B(2) sl(2) len by (auto simp: fi_step_def Let_def reading_def add64_in_range R_def)
  have k: "k\<lparr>kheap := h, kfs := (kfs k)\<lparr>fs_vfs := fs_vfs (kfs k)\<rparr>\<rparr> = k\<lparr>kheap := h\<rparr>" for h by simp
  show ?thesis
    using av av32 at32 rd m st sl(3) k unfolding R_def[symmetric]
    by (simp add: reader_consume_def map_option_case reading_def Let_def split: option.split)
qed

lemma scatter_read_exhausted:
  assumes B: "plain_node k n B" "length B < 2 ^ 32 - 1" and q: "o' + q = length B"
    and u: "um_on u vec j p (vo, at, len)" "p < len"
  shows "\<exists>io. scatter_loop fi_avail (reader_consume rp (RNode n)) v u (slice_of (vo, at, len) p) tot (reading o' (length B) q False, k)
    = Some (Done, tot mod 2 ^ 64, io, k)"
proof -
  have sl: "mapper_start + at + len < 2 ^ 64" "um_vmo u = Some vo" using u(1) by (auto simp: um_on_def)
  note f = slice_of_facts[OF u(2) sl(1), of vo]
  have c: "reader_consume rp (RNode n) vo (slice_of (vo, at, len) p) (reading o' (length B) q False, k)
      = Some (Done, 0, reading o' (length B) q True, k)"
    using reader_consume_plain[OF B, of o' q "slice_of (vo, at, len) p" "len - p" "at + p" rp vo] q f u(2) by simp
  obtain u' where "um_next v 0 u = Some (slice_of (vo, at, len) p, u')" using um_next_within[OF u(1), of 0 v] u(2) by auto
  then have "scatter_loop fi_avail (reader_consume rp (RNode n)) v u (slice_of (vo, at, len) p) tot (reading o' (length B) q False, k)
      = Some (Done, tot mod 2 ^ 64, reading o' (length B) q True, k)"
    using c f(1) sl(2)
    by (subst scatter_loop.simps) (simp add: fi_avail_def reading_def, subst scatter_loop.simps, simp add: fi_avail_def add64_def)
  then show ?thesis by blast
qed

lemma scatter_loop_empty: "scatter_loop avail consume v u \<lparr>seg_l = 1, seg_r = 0\<rparr> tot x = Some (Done, tot, x)"
  by (subst scatter_loop.simps) (simp add: Segment_bool_def)

lemma plain_node_heap [simp]: "plain_node (k\<lparr>kheap := h\<rparr>) n B = plain_node k n B"
  by (simp add: plain_node_def)

lemma scatter_read_unfold:
  fixes rp n v u tot k o' q B len
  defines "loop \<equiv> scatter_loop fi_avail (reader_consume rp (RNode n)) v" and "m \<equiv> min len (length B - (o' + q))"
  assumes B: "plain_node k n B" "length B < 2 ^ 32 - 1" and q: "o' + q \<le> length B"
    and u: "um_on u vec j 0 (vo, at, len)" "0 < len"
  shows "loop u (slice_of (vo, at, len) 0) tot (reading o' (length B) q False, k)
      = do { h \<leftarrow> vmo_store rp vo at (take len (drop (o' + q) B)) (kheap k);
             (s, u) \<leftarrow> um_next v m u;
             loop u s (add64 tot m) (reading o' (length B) (q + m) (m = 0), k\<lparr>kheap := h\<rparr>) }"
proof -
  have sl: "mapper_start + at + len < 2 ^ 64" "um_vmo u = Some vo" using u(1) by (auto simp: um_on_def)
  note f = slice_of_facts[OF u(2) sl(1), of vo]
  note c = reader_consume_plain[OF B q f(2) _ f(3), of rp vo, folded m_def]
  have "loop u (slice_of (vo, at, len) 0) tot (reading o' (length B) q False, k)
      = do { (oc, cnt, x) \<leftarrow> reader_consume rp (RNode n) vo (slice_of (vo, at, len) 0) (reading o' (length B) q False, k);
             if oc = Blocked then Some (Blocked, tot, x)
             else do { (s, u) \<leftarrow> um_next v cnt u; loop u s (add64 tot cnt) x } }"
    unfolding loop_def using f(1) sl(2) by (subst scatter_loop.simps) (simp add: fi_avail_def reading_def)
  then show ?thesis using c u(2) m_def by (cases "vmo_store rp vo at (take len (drop (o' + q) B)) (kheap k)") simp_all
qed

lemma scatter_read_short:
  fixes rp n v u tot k o' q B
  defines "R \<equiv> length B - (o' + q)"
  assumes B: "plain_node k n B" "length B < 2 ^ 32 - 1" and q: "o' + q \<le> length B"
    and u: "um_on u vec j 0 (vo, at, len)" "0 < len" "R < len" and t: "tot + R < 2 ^ 64"
    and st: "vmo_store rp vo at (take len (drop (o' + q) B)) (kheap k) = Some h"
  shows "\<exists>io. scatter_loop fi_avail (reader_consume rp (RNode n)) v u (slice_of (vo, at, len) 0) tot (reading o' (length B) q False, k)
      = Some (Done, tot + R, io, k\<lparr>kheap := h\<rparr>)"
proof -
  let ?loop = "scatter_loop fi_avail (reader_consume rp (RNode n)) v"
  obtain u' where u': "um_next v R u = Some (slice_of (vo, at, len) R, u')" "um_on u' vec j R (vo, at, len)"
    using um_next_within[OF u(1), of R v] u(3) by auto
  have run: "?loop u (slice_of (vo, at, len) 0) tot (reading o' (length B) q False, k)
      = ?loop u' (slice_of (vo, at, len) R) (tot + R) (reading o' (length B) (q + R) (R = 0), k\<lparr>kheap := h\<rparr>)"
    using scatter_read_unfold[OF B q u(1,2), of rp v tot] st u'(1) u(3) t by (simp add: R_def[symmetric] add64_in_range)
  show ?thesis
  proof (cases "R = 0")
    case True
    then show ?thesis using run by (subst (asm) (2) scatter_loop.simps) (simp add: fi_avail_def reading_def)
  next
    case False
    have "o' + (q + R) = length B" using q by (simp add: R_def)
    from scatter_read_exhausted[OF _ B(2) this u'(2) u(3), of "k\<lparr>kheap := h\<rparr>" n rp v "tot + R"]
    show ?thesis using False run t B(1) by simp
  qed
qed

text \<open>What a run of the copy is to be: the bytes go into the buffers, and their number is added to the total.\<close>

definition spreads :: "reader \<Rightarrow> (nat \<times> nat \<times> nat) list \<Rightarrow> byte list \<Rightarrow> nat \<Rightarrow> Kernel \<Rightarrow> (outcome \<times> nat \<times> FileIO \<times> Kernel) option \<Rightarrow> bool" where
  "spreads rp cs bs tot k r = (case spread rp cs bs (kheap k) of None \<Rightarrow> r = None
     | Some h \<Rightarrow> \<exists>io. r = Some (Done, tot + min (sum_list (map (snd \<circ> snd) cs)) (length bs), io, k\<lparr>kheap := h\<rparr>))"

lemma spreads_step:
  fixes rp n v u tot k o' q B
  defines "loop \<equiv> scatter_loop fi_avail (reader_consume rp (RNode n)) v" and "R \<equiv> length B - (o' + q)"
  assumes B: "plain_node k n B" "length B < 2 ^ 32 - 1" and q: "o' + q \<le> length B"
    and u: "um_on u vec j 0 (vo, at, len)" "0 < len" and t: "tot + R < 2 ^ 64"
    and more: "\<And>h. len \<le> R \<Longrightarrow> \<exists>s u'. um_next v len u = Some (s, u')
        \<and> spreads rp cs (drop (o' + (q + len)) B) (tot + len) (k\<lparr>kheap := h\<rparr>)
            (loop u' s (tot + len) (reading o' (length B) (q + len) False, k\<lparr>kheap := h\<rparr>))"
  shows "spreads rp ((vo, at, len) # cs) (drop (o' + q) B) tot k
      (loop u (slice_of (vo, at, len) 0) tot (reading o' (length B) q False, k))"
proof -
  note un = scatter_read_unfold[OF B q u, of rp v tot, folded loop_def R_def]
  show ?thesis
  proof (cases "vmo_store rp vo at (take len (drop (o' + q) B)) (kheap k)")
    case None
    then show ?thesis using un by (simp add: spreads_def)
  next
    case (Some h)
    show ?thesis
    proof (cases "R < len")
      case True
      then show ?thesis using scatter_read_short[OF B q u _ _ Some, of tot v] t Some
        by (simp add: spreads_def loop_def R_def min_def)
    next
      case False
      have m: "min len R = len" "add64 tot len = tot + len" using False t by (simp_all add: add64_in_range)
      obtain s u' where su: "um_next v len u = Some (s, u')" "spreads rp cs (drop (o' + (q + len)) B) (tot + len) (k\<lparr>kheap := h\<rparr>)
          (loop u' s (tot + len) (reading o' (length B) (q + len) False, k\<lparr>kheap := h\<rparr>))"
        using more[of h] False by auto
      have "drop len (drop (o' + q) B) = drop (o' + (q + len)) B" by (simp add: add.commute add.left_commute)
      moreover have "len + min x (length B - (o' + (q + len))) = min (len + x) (length B - (o' + q))" for x
        using False q by (simp add: R_def)
      ultimately show ?thesis using un Some m su u(2) by (auto simp: spreads_def add.assoc split: option.splits)
    qed
  qed
qed

lemma pieces_Cons:
  "list_all2 P (drop j xs) (c # cs) \<longleftrightarrow> j < length xs \<and> P (xs ! j) c \<and> list_all2 P (drop (Suc j) xs) cs"
  by (cases "j < length xs") (simp_all add: Cons_nth_drop_Suc[symmetric])

lemma piece_at_pos: "piece_at v s (vo, at, len) \<Longrightarrow> 0 < len"
  by (auto simp: piece_at_def)

lemma scatter_read:
  assumes B: "length B < 2 ^ 32 - 1" and v: "VMAR_find v 0 \<noteq> None"
    and "plain_node k n B" "o' + q \<le> length B" "um_on u vec j 0 c" "list_all2 (piece_at v) (drop j vec) (c # cs)"
    and "tot + (length B - (o' + q)) < 2 ^ 64"
  shows "spreads rp (c # cs) (drop (o' + q) B) tot k
      (scatter_loop fi_avail (reader_consume rp (RNode n)) v u (slice_of c 0) tot (reading o' (length B) q False, k))"
  using assms(3-)
proof (induction cs arbitrary: c u j q k tot)
  case (Nil c u j q k tot)
  obtain vo at len where c: "c = (vo, at, len)" by (cases c)
  have j: "0 < len" "Suc j = length vec" using Nil.prems(4) piece_at_pos unfolding pieces_Cons c by auto
  note on = Nil.prems(3)[unfolded c]
  show ?case unfolding c
  proof (rule spreads_step[OF Nil.prems(1) B Nil.prems(2) on j(1) Nil.prems(5)])
    fix h
    obtain u' where "um_next v len u = Some (\<lparr>seg_l = 1, seg_r = 0\<rparr>, u')" using um_next_last[OF on _ j(2) v, of len] by auto
    then show "\<exists>s u'. um_next v len u = Some (s, u') \<and> spreads rp [] (drop (o' + (q + len)) B) (tot + len) (k\<lparr>kheap := h\<rparr>)
        (scatter_loop fi_avail (reader_consume rp (RNode n)) v u' s (tot + len) (reading o' (length B) (q + len) False, k\<lparr>kheap := h\<rparr>))"
      by (auto simp: spreads_def scatter_loop_empty[simplified])
  qed
next
  case (Cons c' cs c u j q k tot)
  obtain vo at len where c: "c = (vo, at, len)" by (cases c)
  have d: "list_all2 (piece_at v) (drop (Suc j) vec) (c' # cs)" "0 < len"
    using Cons.prems(4) piece_at_pos unfolding pieces_Cons[of _ j] c by auto
  then have j: "Suc j < length vec" "piece_at v (vec ! Suc j) c'" unfolding pieces_Cons by auto
  note on = Cons.prems(3)[unfolded c]
  show ?case unfolding c
  proof (rule spreads_step[OF Cons.prems(1) B Cons.prems(2) on d(2) Cons.prems(5)])
    fix h assume le: "len \<le> length B - (o' + q)"
    obtain u' where u': "um_next v len u = Some (slice_of c' 0, u')" "um_on u' vec (Suc j) 0 c'"
      using um_next_filled[OF on _ j, of len] by auto
    have "spreads rp (c' # cs) (drop (o' + (q + len)) B) (tot + len) (k\<lparr>kheap := h\<rparr>)
        (scatter_loop fi_avail (reader_consume rp (RNode n)) v u' (slice_of c' 0) (tot + len) (reading o' (length B) (q + len) False, k\<lparr>kheap := h\<rparr>))"
      by (rule Cons.IH[OF _ _ u'(2) d(1)]) (use Cons.prems(1,2,5) le in \<open>simp_all\<close>)
    with u'(1) show "\<exists>s u'. um_next v len u = Some (s, u') \<and> spreads rp (c' # cs) (drop (o' + (q + len)) B) (tot + len) (k\<lparr>kheap := h\<rparr>)
        (scatter_loop fi_avail (reader_consume rp (RNode n)) v u' s (tot + len) (reading o' (length B) (q + len) False, k\<lparr>kheap := h\<rparr>))"
      by blast
  qed
qed

lemma UMem_new_on:
  assumes "vec \<noteq> []" "piece_at v (hd vec) c"
  shows "\<exists>u. UMem_new v vec = Some u \<and> um_on u vec 0 0 c"
  using nextRegion_found[of "\<lparr>um_vec = vec, um_it = 0, um_off = 0, um_vmo = None, um_bias = 0\<rparr>" vec 0 v c] assms
  by (auto simp: UMem_new_def hd_conv_nth)

lemma piece_at_find: "piece_at v s c \<Longrightarrow> VMAR_find v a \<noteq> None"
  by (cases "va_mappings v") (auto simp: piece_at_def VMAR_find_def Let_def)

lemma scatteredCopy_start:
  assumes "um_on u vec j 0 (vo, at, len)" "0 < len"
  shows "\<exists>u'. scatteredCopy avail consume v u x = scatter_loop avail consume v u' (slice_of (vo, at, len) 0) 0 x
    \<and> um_on u' vec j 0 (vo, at, len)"
proof -
  obtain u' where "um_next v 0 u = Some (slice_of (vo, at, len) 0, u')" "um_on u' vec j 0 (vo, at, len)"
    using um_next_within[OF assms(1), of 0 v] assms(2) by auto
  moreover have "um_avail u" using assms(1) by (simp add: um_avail_def um_on_def)
  ultimately show ?thesis by (auto simp: scatteredCopy_def)
qed

lemma read_iovecs_length: "read_iovecs n i a k = Some vec \<Longrightarrow> length vec = n"
  by (induction n arbitrary: a vec) (auto simp: bind_eq_Some_iff)

lemma to_s64_small: "x < 2 ^ 63 \<Longrightarrow> to_s64 (int x) = int x"
  unfolding to_s64_def by (subst signed_of_int) (simp add: signed_take_bit_int_eq_self)


lemma phys_read_page:
  assumes "length (vh_phys h p) = 4096" "at + n \<le> 4096"
  shows "phys_read h (p * 4096 + at) n = Some (take n (drop at (vh_phys h p)))"
proof -
  have "phys_byte h (p * 4096 + at + j) = Some (vh_phys h p ! (at + j))" if "j < n" for j
  proof -
    have "(p * 4096 + at + j) div 4096 = p" "(p * 4096 + at + j) mod 4096 = at + j"
      using that assms(2) by (simp_all add: add.assoc)
    then show ?thesis using that assms by (simp add: phys_byte_def addr2pn_def addr2offset_def pageSize_def rd_def)
  qed
  then show ?thesis using phys_read_eq[of "take n (drop at (vh_phys h p))" h "p * 4096 + at"] assms by (simp add: add.assoc)
qed

text \<open>The example state with two buffers described in memory: one byte at 8192 and five bytes at 12288.\<close>

definition ex_iovs :: "byte list" where
  "ex_iovs = [0, 32, 0, 0, 0, 0, 0, 0, 1, 0, 0, 0, 0, 0, 0, 0] @ [0, 48, 0, 0, 0, 0, 0, 0, 5, 0, 0, 0, 0, 0, 0, 0]"

definition ex_vec_kernel :: "File \<Rightarrow> Kernel" where
  "ex_vec_kernel x = (ex_kernel [x] [] ex_table)\<lparr>kheap := ex_heap\<lparr>vh_phys := (\<lambda>_. replicate 4096 7)(1 := ex_iovs @ replicate 4064 0)\<rparr>\<rparr>"

lemma ex_vec_cur: "cur_proc (ex_vec_kernel x) = Some (1, undefined\<lparr>p_files := ex_table, p_cwd := Some 0, vmar := ex_vmar\<rparr>)"
  by (simp add: ex_vec_kernel_def ex_kernel_def cur_proc_def cur_task_def)

lemma ex_vec_user:
  assumes "at + n \<le> 4096" "at < 4096"
  shows "get_user 1 (4096 + at) n (ex_vec_kernel x) = Some (take n (drop at (ex_iovs @ replicate 4064 0)))"
proof -
  have "VMAR_transaddr (4096 + at) (ex_vmar, kheap (ex_vec_kernel x)) = Some (4096 + at)"
  proof -
    have "(4096 + at) div 4096 = 1" "(4096 + at) mod 4096 = at" using assms(2) by auto
    then show ?thesis using assms(2)
      by (simp add: VMAR_transaddr_def transaddr_def PageTable_trans_def trans.simps ex_vec_kernel_def ex_heap_def ex_vmar_def isValid_def isLeaf_def
        pte_ppn_def addr2pn_def pn2addr_def addr2offset_def pageSize_def add64_def)
  qed
  then show ?thesis
    using phys_read_page[of "kheap (ex_vec_kernel x)" 1 at n] assms
    by (simp add: get_user_def copyin_def ex_vec_kernel_def ex_kernel_def ex_iovs_def)
qed

lemma ex_vec_read: "read_iovecs 2 1 4096 (ex_vec_kernel x) = Some [\<lparr>seg_l = 8192, seg_r = 8192\<rparr>, \<lparr>seg_l = 12288, seg_r = 12292\<rparr>]"
  using ex_vec_user[of 0 16 x] ex_vec_user[of 16 16 x]
  by (subst numeral_2_eq_2) (simp add: add64_def sub64_def ex_iovs_def dec64_def le32_def le16_def)

lemma ex_piece:
  assumes "4096 \<le> a" "a + n \<le> 65536" "0 < n"
  shows "piece_at ex_vmar \<lparr>seg_l = a, seg_r = a + n - 1\<rparr> (0, a, n)"
proof -
  have "a div 4096 \<le> 15" "Segment_length \<lparr>seg_l = a, seg_r = a + n - 1\<rparr> = n"
    using assms by (simp_all add: Segment_length_def add64_in_range sub64_in_range)
  then show ?thesis using assms
    by (simp add: piece_at_def VMAR_find_def ex_vmar_def mp_contains_def vend_def addr2pn_def pn2addr_def pageSize_def add64_def sub64_def mapper_start_def)
qed


lemma nextRegion_total:
  "va_mappings v \<noteq> [] \<Longrightarrow> \<exists>ok u'. nextRegion v u = Some (ok, u') \<and> (ok \<longrightarrow> um_vmo u' \<noteq> None \<and> um_it u' < length (um_vec u'))"
proof (induction v u rule: nextRegion.induct)
  case (1 v u)
  have f: "\<exists>f. VMAR_find v a = Some f" for a using 1(2) by (cases "va_mappings v") (auto simp: VMAR_find_def Let_def)
  show ?case
  proof (cases "um_it u < length (um_vec u)")
    case True
    obtain x where x: "VMAR_find v (seg_l (um_vec u ! um_it u)) = Some x" using f by blast
    then show ?thesis using True 1(1)[OF True x] 1(2) by (subst nextRegion.simps) (cases x; auto)
  next
    case False
    then show ?thesis using f[of 0] by (subst nextRegion.simps) auto
  qed
qed

lemma um_next_total:
  assumes "um_on u vec j q c" "va_mappings v \<noteq> []"
  shows "\<exists>s u'. um_next v n u = Some (s, u')"
proof -
  obtain ok u' where "nextRegion v (u\<lparr>um_off := 0, um_it := um_it u + 1\<rparr>) = Some (ok, u')"
    "ok \<longrightarrow> um_vmo u' \<noteq> None \<and> um_it u' < length (um_vec u')"
    using nextRegion_total[OF assms(2)] by blast
  then show ?thesis using assms(1) by (cases c) (auto simp: um_on_def um_next_def um_slice_def rd_def Let_def)
qed

lemma writer_consume_at_end:
  assumes io: "io = reading sz sz 0 False" and sz: "sz < 2 ^ 32"
    and sl: "Segment_length sl = L" "0 < L" "slice_at sl = Some at"
    and byte: "vmo_read rp vo at 1 (kheap k) = Some ([b], h)" "v_nodWrite (fs_vfs (kfs k)) n sz [b] = Some (w, 1)"
  shows "writer_consume rp n vo sl (io, k) = Some (Done, 1, reading sz sz 0 True, k\<lparr>kheap := h, kfs := (kfs k)\<lparr>fs_vfs := w\<rparr>\<rparr>)"
proof -
  have one: "Segment_length \<lparr>seg_l = sz, seg_r = sz\<rparr> = 1" using sz by (simp add: Segment_length_def add64_def sub64_def)
  then have "fi_bytes io sl = 1" using sl(1,2) by (simp add: io fi_bytes_def reading_def sub64_def)
  moreover have "u32 (add64 sz 0) = sz" "u32 1 = 1" using sz by (simp_all add: add64_in_range u32_def)
  ultimately show ?thesis using byte sl(3) one
    by (simp add: writer_consume_def io reading_def fi_step_def add64_def del: vmo_read.simps)
qed

text \<open>C26: A \<open>writev\<close> at the end of a file writes one byte, whatever it is given: the interval of the file ends at its
  size, both ends included, so there is room for one byte, and the call returns 1 although the buffers hold more.
  This holds for a file of any file system that takes the one byte.
\<close>

theorem writev_appends_one_byte:
  assumes cur: "cur_proc k = Some (i, p)" "ofile (p_files p) fd = Some f"
    and x: "rd (fs_files (kfs k)) f = Some x" "obj x = OEntry ks e (int sz)" "rd (dents (fs_vfs (kfs k))) e = Some dn"
      "v_rFileSize (fs_vfs (kfs k)) (nod dn) = Some sz" "sz < 2 ^ 32"
    and iov: "0 < cnt" "read_iovecs (nat cnt) i iov k = Some vec" "piece_at (vmar p) (hd vec) (vo, at, len)"
    and byte: "vmo_read rp vo at 1 (kheap k) = Some ([b], h)" "v_nodWrite (fs_vfs (kfs k)) (nod dn) sz [b] = Some (w, 1)"
  shows "sys_writev rp fd iov cnt k =
    Some (Done, k\<lparr>kheap := h, kfs := (kfs k)\<lparr>fs_vfs := w, fs_files := (fs_files (kfs k))[f := x\<lparr>obj := OEntry ks e (int (sz + 1))\<rparr>]\<rparr>\<rparr>, 1)"
proof -
  let ?v = "vmar p" and ?wc = "writer_consume rp (nod dn)"
  have ne: "vec \<noteq> []" using read_iovecs_length[OF iov(2)] iov(1) by auto
  have maps: "va_mappings ?v \<noteq> []" using iov(3) by (auto simp: piece_at_def VMAR_find_def)
  obtain u where u: "UMem_new ?v vec = Some u" "um_on u vec 0 0 (vo, at, len)" using UMem_new_on[OF ne iov(3)] by auto
  have len: "0 < len" "mapper_start + at + len < 2 ^ 64" using iov(3) by (auto simp: piece_at_def)
  obtain u' where u': "scatteredCopy fi_avail ?wc ?v u (reading sz sz 0 False, k)
      = scatter_loop fi_avail ?wc ?v u' (slice_of (vo, at, len) 0) 0 (reading sz sz 0 False, k)" "um_on u' vec 0 0 (vo, at, len)"
    using scatteredCopy_start[OF u(2) len(1)] by metis
  note f = slice_of_facts[OF len, of vo]
  note c = writer_consume_at_end[where io = "reading sz sz 0 False", OF refl x(5) f(2)[simplified] len(1) f(3)[simplified] byte]
  have vo: "um_vmo u' = Some vo" using u'(2) by (simp add: um_on_def)
  obtain s u'' where n: "um_next ?v 1 u' = Some (s, u'')" using um_next_total[OF u'(2) maps] by blast
  have run: "scatteredCopy fi_avail ?wc ?v u (reading sz sz 0 False, k)
      = Some (Done, 1, reading sz sz 0 True, k\<lparr>kheap := h, kfs := (kfs k)\<lparr>fs_vfs := w\<rparr>\<rparr>)"
    unfolding u'(1) using c f(1) vo n
    by (subst scatter_loop.simps) (simp add: fi_avail_def reading_def, subst scatter_loop.simps, simp add: fi_avail_def add64_def)
  have o: "file_interval sz sz = reading sz sz 0 False" by (simp add: file_interval_def reading_def)
  show ?thesis using cur x iov(1,2) u(1) run to_s64_small[of "sz + 1"] to_s64_small[of 1]
    by (simp add: sys_writev_def sys_vectored_def File_writev_def file_transfer_def o add.commute)
qed

lemma ex_vec_read_second: "read_iovecs 1 1 4112 (ex_vec_kernel x) = Some [\<lparr>seg_l = 12288, seg_r = 12292\<rparr>]"
  using ex_vec_user[of 16 16 x] by (simp add: add64_def sub64_def ex_iovs_def dec64_def le32_def le16_def)

theorem writev_appends_one_byte_witness:
  "\<exists>k k'. read_iovecs 1 1 4112 k = Some [\<lparr>seg_l = 12288, seg_r = 12292\<rparr>] \<and> sys_writev (\<lambda>_ _. []) 4 4112 1 k = Some (Done, k', 1)"
proof -
  let ?rp = "\<lambda>_ _. []" and ?x = "ex_file True True (OEntry undefined 1 3)"
  let ?k = "ex_vec_kernel ?x"
  let ?nd = "\<lparr>ri_super = 0, ri_ino = 2, isDir = False, ri_bytes = [1, 2, 3], ri_subs = [], ri_kind = Plain\<rparr>"
  let ?de = "\<lparr>de_parent = Some 0, nod = RNode 1, de_name = [], subs = [], isMount = False, alive = True\<rparr>"
  have e: "rd (fs_files (kfs ?k)) 0 = Some ?x" "obj ?x = OEntry undefined 1 (int 3)" "rd (dents (fs_vfs (kfs ?k))) 1 = Some ?de"
    "v_rFileSize (fs_vfs (kfs ?k)) (nod ?de) = Some 3"
    by (simp_all add: ex_vec_kernel_def ex_defs v_rFileSize_def)
  have r: "vmo_read ?rp 0 12288 1 (kheap ?k) = Some ([7], kheap ?k)"
    by (simp add: ex_vec_kernel_def ex_heap_def VMO_req_def VMO_len_def pageSize_def rd_def)
  obtain m where "ram_nodWrite (vram (fs_vfs (kfs ?k))) 1 3 [7] = Some (m, 1)"
    using ram_write_plain[of "vram (fs_vfs (kfs ?k))" 1 ?nd 3 "[7]"] by (auto simp: ex_vec_kernel_def ex_defs)
  then have w: "v_nodWrite (fs_vfs (kfs ?k)) (nod ?de) 3 [7] = Some ((fs_vfs (kfs ?k))\<lparr>vram := m\<rparr>, 1)" by (simp add: v_nodWrite_def)
  have "\<exists>k'. sys_writev ?rp 4 4112 1 ?k = Some (Done, k', 1)"
    using writev_appends_one_byte[OF ex_vec_cur _ e _ _ _ _ r w, of 4 1 4112 "[\<lparr>seg_l = 12288, seg_r = 12292\<rparr>]" 5] ex_table_nth(2)
      ex_vec_read_second[of ?x] ex_piece[of 12288 5] by simp
  then show ?thesis using ex_vec_read_second by blast
qed

end
