(* ===== verification/Spec2Isabelle.thy ===== *)
theory Spec2Isabelle
  imports KlibcSpec LockSpec PipeSpec VmarSpec BioSpec FatSpec PathSpec ProcSpec SignalSpec FileCallsSpec ProcCallsSpec ExecSpec StackSpec UioSpec
begin

text \<open>
  A verification development of LuoOS, a RISC-V kernel in C++.  The paths below are under \<open>src/\<close>.

  \<^bold>\<open>Conventions.\<close>  A C++ object is a record, an object shared by reference is an entry of a map or list
  and is named by a number, and every operation takes the state and returns the new one.  The result
  \<open>None\<close> means that the code panics, fails an assertion, accesses memory outside an object or does
  something else that C++ leaves undefined; error codes are ordinary values.  Unsigned 64-bit
  arithmetic is \<open>add64\<close> and \<open>sub64\<close>, 32-bit arithmetic of the file system is \<open>u32\<close>; page table entries, masks
  and permissions are machine words.  An operation that may block is a run up to the point where it
  ends or blocks, with outcome \<open>Done\<close> or \<open>Blocked\<close>; interleavings are inductive reachability relations.

  \<^bold>\<open>Parts.\<close>  Physical pages are handed out by the page allocator; page tables, memory objects and address
  spaces are built from them; the scheduler, locks and pipes order tasks; the block cache holds the
  sectors that the FAT file system reads and writes; paths and open files sit on the file systems;
  processes own an address space, tasks and descriptors; signals and system calls act on processes.

  \<^item> \<open>Prelude\<close>: machine types, wrapping arithmetic, checked array accesses.  \<open>Klib\<close>, \<open>Klibc\<close>
    (\<open>include/klib.hh\<close>, \<open>utils/klibc.cc\<close>): strings, formatting, block copies.  \<open>KlibcSpec\<close> shows that
    formatted output is the rendering of its arguments cut to the buffer, what block copies do, and
    where \<open>memmove\<close> and \<open>%c\<close> go wrong.
  \<^item> \<open>PageMgr\<close> (\<open>kernel/alloc.cc\<close>): the buddy allocator.  \<open>PageMgrTree\<close> and \<open>PageMgrSpec\<close> prove it against
    an abstract state of free pages and blocks in use.  The locale \<open>frame_alloc\<close> of \<open>FrameAlloc\<close> is what its
    single-page clients rely on; \<open>PageMgrSpec\<close> interprets it on the allocator.
  \<^item> \<open>PageTable\<close> (\<open>kernel/vm/pagetable.cc\<close>): mapping, unmapping and translation; \<open>PageTableSpec\<close> and
    \<open>PageTableProps\<close> show that they act on the translation function as intended, except for one lost tail.
  \<^item> \<open>Vmo\<close>, \<open>Vmar\<close> (\<open>include/vm/vmo.hh\<close>, \<open>include/vm/pager.hh\<close>, \<open>include/vm.hh\<close>, \<open>kernel/vm/vm.cc\<close>): memory
    objects, address spaces, copies to and from user memory; \<open>VmoSpec\<close>, \<open>VmarSpec\<close>.
  \<^item> \<open>Sched\<close>, \<open>Lock\<close>, \<open>Pipe\<close> (\<open>kernel/sched.cc\<close>, \<open>include/lock.hh\<close>, \<open>kernel/lock.cc\<close>, \<open>include/ipc.hh\<close>):
    \<open>SchedSpec\<close> has the queue invariant over all reachable states, progress and fairness; \<open>LockSpec\<close> mutual
    exclusion; \<open>PipeSpec\<close> that a pipe is a stream, through the locale \<open>fifo\<close> of \<open>Fifo\<close>.
  \<^item> \<open>Bio\<close> (\<open>include/bio.hh\<close>): the block cache; \<open>BioSpec\<close> shows that it refines the disk it caches.
  \<^item> \<open>FatDisk\<close>, \<open>FatName\<close>, \<open>FatDir\<close>, \<open>FatFile\<close>, \<open>FatNode\<close> (\<open>kernel/fs/fat.cc\<close>, \<open>include/fat.hh\<close>): the volume and
    its allocation table, names, the cache of entries, files, inodes.  \<open>Codec\<close> and \<open>FatSpec\<close> show that
    table entries and cluster contents are read back as written and nothing else changes, and
    that short names are well formed.
  \<^item> \<open>Ramfs\<close> (\<open>include/fs/ramfs.hh\<close>, \<open>kernel/syscall/custom.cc\<close>), \<open>Vfs\<close> and \<open>Files\<close> (\<open>kernel/fs/fs.cc\<close>,
    \<open>include/fs.hh\<close>): the memory file system, directory entries, paths, mounts, open files.  \<open>PathSpec\<close> shows
    that the splitting of a path yields its components.
  \<^item> \<open>Proc\<close> (\<open>include/proc.hh\<close>, \<open>kernel/proc.cc\<close>, \<open>kernel/syscall/procmisc.cc\<close>): processes and tasks; \<open>ProcSpec\<close>:
    descriptors are allocated lowest first, the break stays in the heap region.
  \<^item> \<open>Signal\<close> (\<open>kernel/ipc.cc\<close>, \<open>kernel/syscall/signal.cc\<close>, \<open>kernel/trap.cc\<close>): sending, delivery, return, entry of
    system calls.  \<open>SignalSpec\<close>: frames decode to the context they were built from, but a return loses
    a0; kill and stop cannot be blocked by a call; a killed task stays scheduled.
  \<^item> \<open>Syscalls\<close> (\<open>kernel/syscall/mm.cc\<close>, \<open>kernel/syscall/futex.cc\<close>): memory and futex calls.

  \<^bold>\<open>Bounds and fuel.\<close>  Most loops are structural or have a termination proof.  The spin of a lock runs
  as often as its argument \<open>maxloops\<close> says.  The loop of \<open>VMAR::map\<close> gets as many passes as the mapping has
  pages, since a pass that makes progress covers a page or more and one that makes none never ends;
  the loops over the set of mappings get twice its size and one, since a pass adds at most one element above
  its own; the chain of pagers gets the number of the pager, which was created after those behind
  it.  Walks along the list of cached entries, directories, cluster chains and parent links are
  partial functions, with \<open>None\<close> for a walk that never ends.

  \<^bold>\<open>Parameters.\<close>  The contents of file pages of a memory object, the iteration order of hash sets, bytes of
  structures the code leaves uninitialised, the address of the return stub of signals and the table
  of system calls are arguments of the definitions that use them.

  \<^bold>\<open>Not modelled.\<close>  The handlers of the file, process and time system calls and \<open>mmap\<close>; the program
  loader; the release of memory objects by reference counts; saved kernel registers and privilege
  bookkeeping; the disk driver, firmware calls, control registers and assembly, which are behaviour of
  the machine; the run-time support of the C++ compiler; the container library, of which only
  the documented behaviour is used; user programs.
\<close>

end
